(* ===== verification/Go_Prelude.thy ===== *)
theory Go_Prelude
  imports Main "HOL-Library.Word" "HOL-Library.Monad_Syntax"
begin

text \<open>
  What the components share: the Go integer types as words, Go slices as lists with
  checked indexing, bit sequences of words, and the lemmas on them.

  A Go run-time panic (an index out of range, a nil dereference) is the value \<open>None\<close> of an
  \<open>option\<close>; a returned \<open>error\<close> is a value of a sum type of the component that returns it.
\<close>

unbundle bit_operations_syntax

type_synonym u8 = "8 word"
type_synonym u32 = "32 word"
type_synonym u64 = "64 word"

text \<open>Signed Go integers are words as well: \<open>sint\<close> reads them.\<close>

type_synonym i32 = "32 word"
type_synonym i64 = "64 word"

named_theorems go_defs
named_theorems bits_simps

section \<open>Slices\<close>

text \<open>\<open>xs[i]\<close> and \<open>xs[i] = v\<close>, which panic out of range.\<close>

definition slice_get :: "'a list \<Rightarrow> nat \<Rightarrow> 'a option" where
  "slice_get xs i = (if i < length xs then Some (xs ! i) else None)"

definition slice_set :: "'a list \<Rightarrow> nat \<Rightarrow> 'a \<Rightarrow> 'a list option" where
  "slice_set xs i v = (if i < length xs then Some (xs[i := v]) else None)"

lemma slice_get_Some [simp]: "i < length xs \<Longrightarrow> slice_get xs i = Some (xs ! i)"
  by (simp add: slice_get_def)

lemma slice_set_Some [simp]: "i < length xs \<Longrightarrow> slice_set xs i v = Some (xs[i := v])"
  by (simp add: slice_set_def)

section \<open>Bit sequences of words, most significant bit first\<close>

definition word_bits :: "nat \<Rightarrow> 'a::len word \<Rightarrow> bool list" where
  "word_bits n w = map (bit w) (rev [0..<n])"

abbreviation byte_bits :: "u8 \<Rightarrow> bool list" where
  "byte_bits \<equiv> word_bits 8"

definition top_bits :: "nat \<Rightarrow> u64 \<Rightarrow> bool list" where
  "top_bits n u = map (\<lambda>i. bit u (63 - i)) [0..<n]"

fun push_bits :: "u64 \<Rightarrow> bool list \<Rightarrow> u64" where
  "push_bits u [] = u"
| "push_bits u (x # xs) = push_bits (push_bit 1 u OR of_bool x) xs"

lemma length_word_bits [simp]: "length (word_bits n w) = n"
  by (simp add: word_bits_def)

lemma length_top_bits [simp]: "length (top_bits n w) = n"
  by (simp add: top_bits_def)

lemma nth_word_bits: "i < n \<Longrightarrow> word_bits n w ! i = bit w (n - 1 - i)"
  by (simp add: word_bits_def rev_nth)

lemma nth_top_bits: "i < n \<Longrightarrow> top_bits n u ! i = bit u (63 - i)"
  by (simp add: top_bits_def)

lemma word_bits_0 [simp]: "word_bits 0 w = []"
  by (simp add: word_bits_def)

lemma word_bits_zero: "word_bits n (0 :: 'a::len word) = replicate n False"
  by (rule nth_equalityI) (simp_all add: nth_word_bits)

lemma word_bits_Suc: "word_bits (Suc n) w = bit w n # word_bits n w"
  by (simp add: word_bits_def)

lemma top_bits_shift: "n \<le> 64 \<Longrightarrow> top_bits n (push_bit (64 - n) u) = word_bits n u"
  by (rule nth_equalityI) (auto simp: nth_top_bits nth_word_bits bit_simps)

lemma top_bits_byte:
  "n + 8 \<le> 64 \<Longrightarrow>
    top_bits (n + 8) u = byte_bits (ucast (drop_bit 56 u)) @ top_bits n (push_bit 8 u)"
  by (rule nth_equalityI)
    (auto simp: nth_top_bits nth_word_bits nth_append bit_simps algebra_simps)

lemma bit_double: "bit (u * 2 :: u64) i \<longleftrightarrow> 0 < i \<and> i < 64 \<and> bit u (i - 1)"
proof -
  have "u * 2 = push_bit 1 u" by simp
  then show ?thesis by (simp only: bit_push_bit_iff) (auto simp: possible_bit_def)
qed

lemma top_bits_Suc:
  "n < 64 \<Longrightarrow> top_bits (Suc n) u = bit u 63 # top_bits n (push_bit 1 u)"
  by (rule nth_equalityI) (auto simp: nth_top_bits nth_Cons bit_double split: nat.split)

lemma drop_bit_63_of_bool: "drop_bit 63 (u :: u64) = of_bool (bit u 63)"
proof (rule bit_word_eqI)
  fix n :: nat
  have "bit u (63 + n) \<Longrightarrow> n = 0"
    using bit_imp_le_length [of u "63 + n"] by simp
  then show "bit (drop_bit 63 u) n \<longleftrightarrow> bit (of_bool (bit u 63) :: u64) n"
    by (auto simp: bit_drop_bit_eq bit_of_bool_iff)
qed

lemma drop_bit_63_eq_1: "drop_bit 63 (u :: u64) = 1 \<longleftrightarrow> bit u 63"
  by (simp add: drop_bit_63_of_bool)

lemma push_bits_append: "push_bits u (xs @ ys) = push_bits (push_bits u xs) ys"
  by (induction u xs rule: push_bits.induct) auto

lemma bit_push_bits:
  "bit (push_bits u xs) i \<longleftrightarrow>
     i < 64 \<and> (if i < length xs then xs ! (length xs - 1 - i) else bit u (i - length xs))"
proof (induction u xs arbitrary: i rule: push_bits.induct)
  case (1 u)
  then show ?case by (auto dest: bit_imp_le_length)
next
  case (2 u x xs)
  have "\<not> i < length xs \<Longrightarrow> i \<noteq> length xs \<Longrightarrow> i - length xs = Suc (i - Suc (length xs))"
    by simp
  then show ?case
    using 2 [of i] by (cases x) (auto simp: bit_double bit_or_iff bit_1_iff nth_Cons')
qed

lemma push_bits_word_bits: "n \<le> 64 \<Longrightarrow> push_bits 0 (word_bits n u) = take_bit n u"
  by (rule bit_word_eqI) (auto simp: bit_push_bits nth_word_bits bit_simps)

lemma push_bits_byte:
  "push_bits u (byte_bits y) = push_bit 8 u OR ucast y"
  by (rule bit_word_eqI)
    (auto simp: bit_push_bits nth_word_bits bit_simps dest: bit_imp_le_length)


section \<open>Times\<close>

text \<open>
  \<^verbatim>\<open>time.Unix(0, t)\<close> as its seconds and its nanoseconds in \<open>0..<10^9\<close> (the package rounds
  towards the past), and \<^verbatim>\<open>time.Unix(s, n).UnixNano()\<close>, which wraps.
\<close>

definition nanos :: int where
  "nanos = 1000000000"

definition unix_sec :: "i64 \<Rightarrow> int" where
  "unix_sec t = sint t div nanos"

definition unix_nsec :: "i64 \<Rightarrow> int" where
  "unix_nsec t = sint t mod nanos"

definition unix_nano :: "int \<Rightarrow> int \<Rightarrow> i64" where
  "unix_nano s n = word_of_int (s * nanos + n)"

lemma nanos_pos [simp]: "0 < nanos"
  by (simp add: nanos_def)

lemma unix_nano_split [simp]: "unix_nano (unix_sec t) (unix_nsec t) = t"
  by (simp add: unix_nano_def unix_sec_def unix_nsec_def div_mult_mod_eq)

lemma unix_nsec_bounds [simp]: "0 \<le> unix_nsec t" "unix_nsec t < nanos"
  by (simp_all add: unix_nsec_def)

end
