(* ===== verification/BitStream.thy ===== *)
theory BitStream
  imports Go_Prelude
begin

text \<open>
  The bit stream of \<^verbatim>\<open>server/utils/bitstream.go\<close>: a byte slice with a count of the bits
  still free in its last byte (writing) or still unread in its first byte (reading).
  The section on laws gives the contract that the series codecs rely on: what a write
  appends and what a read returns, as sequences of bits.
\<close>

section \<open>The stream and its operations\<close>

record bitstream =
  stream :: "u8 list"
  count :: u8
  bitsWritten :: i64
  bitsRead :: i64

datatype io_error = EOF

definition NewBReader :: "u8 list \<Rightarrow> bitstream" where
  "NewBReader b = \<lparr>stream = b, count = 8, bitsWritten = 0, bitsRead = 0\<rparr>"

definition NewBWriter :: "int \<Rightarrow> bitstream option" where
  "NewBWriter sz =
     (if sz < 0 then None
      else Some \<lparr>stream = [], count = 0, bitsWritten = 0, bitsRead = 0\<rparr>)"

definition SetStream :: "u8 list \<Rightarrow> bitstream \<Rightarrow> bitstream" where
  "SetStream bs b = b\<lparr>stream := bs\<rparr>"

definition SetCount :: "u8 \<Rightarrow> bitstream \<Rightarrow> bitstream" where
  "SetCount c b = b\<lparr>count := 8\<rparr>"

definition Len :: "bitstream \<Rightarrow> int" where
  "Len b = sgn (sint (bitsWritten b)) * (\<bar>sint (bitsWritten b)\<bar> div 8)"

definition Clone :: "bitstream \<Rightarrow> bitstream" where
  "Clone b = \<lparr>stream = stream b, count = count b,
     bitsWritten = word_of_nat (length (stream b)), bitsRead = 0\<rparr>"

definition Bytes :: "bitstream \<Rightarrow> u8 list" where
  "Bytes b = stream b"

text \<open>
  The step \<open>WriteBit\<close> and \<open>WriteByte\<close> start with: a full last byte is followed by a fresh
  one. The writes into the last byte panic when there is none.
\<close>

definition ensure_room :: "bitstream \<Rightarrow> bitstream" where
  "ensure_room b = (if count b = 0 then b\<lparr>stream := stream b @ [0], count := 8\<rparr> else b)"

definition WriteBit :: "bool \<Rightarrow> bitstream \<Rightarrow> bitstream option" where
  "WriteBit x b0 =
     (let b = ensure_room b0 in
      if x \<and> stream b = [] then None
      else
        let s = (if x then butlast (stream b) @
                     [last (stream b) OR push_bit (unat (count b - 1)) 1]
                 else stream b)
        in Some (b\<lparr>stream := s, bitsWritten := bitsWritten b + 1, count := count b - 1\<rparr>))"

definition WriteByte :: "u8 \<Rightarrow> bitstream \<Rightarrow> bitstream option" where
  "WriteByte byt b0 =
     (let b = ensure_room b0 in
      if stream b = [] then None
      else Some (b\<lparr>stream := butlast (stream b) @
               [last (stream b) OR drop_bit (unat (8 - count b)) byt] @
               [push_bit (unat (count b)) byt],
             bitsWritten := bitsWritten b + 8\<rparr>))"

fun WriteBytes :: "u8 list \<Rightarrow> bitstream \<Rightarrow> bitstream option" where
  "WriteBytes [] b = Some b"
| "WriteBytes (y # ys) b = do { b' \<leftarrow> WriteByte y b; WriteBytes ys b' }"

function write_bytes_loop :: "u64 \<Rightarrow> int \<Rightarrow> bitstream \<Rightarrow> (u64 \<times> int \<times> bitstream) option" where
  "write_bytes_loop u nbits b =
     (if nbits \<ge> 8 then do {
        b' \<leftarrow> WriteByte (ucast (drop_bit 56 u)) b;
        write_bytes_loop (push_bit 8 u) (nbits - 8) b' }
      else Some (u, nbits, b))"
  by pat_completeness auto
termination by (relation "measure (\<lambda>(u, n, b). nat n)") auto

function write_bits_loop :: "u64 \<Rightarrow> int \<Rightarrow> bitstream \<Rightarrow> (u64 \<times> int \<times> bitstream) option" where
  "write_bits_loop u nbits b =
     (if nbits > 0 then do {
        b' \<leftarrow> WriteBit (drop_bit 63 u = 1) b;
        write_bits_loop (push_bit 1 u) (nbits - 1) b' }
      else Some (u, nbits, b))"
  by pat_completeness auto
termination by (relation "measure (\<lambda>(u, n, b). nat n)") auto

declare write_bytes_loop.simps [simp del] write_bits_loop.simps [simp del]

definition WriteBits :: "u64 \<Rightarrow> int \<Rightarrow> bitstream \<Rightarrow> bitstream option" where
  "WriteBits u nbits b = do {
     (u1, n1, b1) \<leftarrow> write_bytes_loop (push_bit (unat (64 - (word_of_int nbits :: u64))) u) nbits b;
     (u2, n2, b2) \<leftarrow> write_bits_loop u1 n1 b1;
     Some (b2\<lparr>bitsWritten := bitsWritten b2 + word_of_int n2\<rparr>) }"

text \<open>A read returns its value or the error, and the stream it leaves.\<close>

definition ReadBit :: "bitstream \<Rightarrow> (io_error + bool) \<times> bitstream" where
  "ReadBit b0 =
     (if stream b0 = [] then (Inl EOF, b0)
      else
        let b = (if count b0 = 0 then b0\<lparr>stream := tl (stream b0)\<rparr> else b0) in
        if count b0 = 0 \<and> stream b = [] then (Inl EOF, b)
        else
          let c = (if count b0 = 0 then 8 else count b0); y = hd (stream b) in
          (Inr (y AND 0x80 \<noteq> 0),
           b\<lparr>count := c - 1, stream := push_bit 1 y # tl (stream b), bitsRead := bitsRead b + 1\<rparr>))"

definition ReadByte :: "bitstream \<Rightarrow> (io_error + u8) \<times> bitstream" where
  "ReadByte b0 =
     (if stream b0 = [] then (Inl EOF, b0)
      else
        let b1 = (if count b0 = 0 then b0\<lparr>stream := tl (stream b0)\<rparr> else b0) in
        if count b0 = 0 \<and> stream b1 = [] then (Inl EOF, b1)
        else
          let b = (if count b0 = 0 then b1\<lparr>count := 8\<rparr> else b1) in
          if count b = 8 then (Inr (hd (stream b)), b\<lparr>count := 0, bitsRead := bitsRead b + 8\<rparr>)
          else
            let y = hd (stream b); s = tl (stream b) in
            if s = [] then (Inl EOF, b\<lparr>stream := s\<rparr>)
            else (Inr (y OR drop_bit (unat (count b)) (hd s)),
                  b\<lparr>stream := push_bit (unat (8 - count b)) (hd s) # tl s,
                    bitsRead := bitsRead b + 8\<rparr>))"

fun read_bytes_loop :: "nat \<Rightarrow> bitstream \<Rightarrow> (io_error + u8 list) \<times> bitstream" where
  "read_bytes_loop 0 b = (Inr [], b)"
| "read_bytes_loop (Suc n) b =
     (case ReadByte b of
        (Inl e, b') \<Rightarrow> (Inl e, b')
      | (Inr y, b') \<Rightarrow>
          (case read_bytes_loop n b' of
             (Inl e, b'') \<Rightarrow> (Inl e, b'')
           | (Inr ys, b'') \<Rightarrow> (Inr (y # ys), b'')))"

definition ReadBytes :: "u8 \<Rightarrow> bitstream \<Rightarrow> (io_error + u8 list) \<times> bitstream" where
  "ReadBytes n b =
     (if stream b = [] then (Inl EOF, b)
      else if length (stream b) < unat n then (Inl EOF, b)
      else read_bytes_loop (unat n) b)"

function read_byte_acc :: "u64 \<Rightarrow> int \<Rightarrow> bitstream \<Rightarrow> (io_error + u64 \<times> int) \<times> bitstream" where
  "read_byte_acc u nbits b =
     (if nbits \<ge> 8 then
        (case ReadByte b of
           (Inl e, b') \<Rightarrow> (Inl e, b')
         | (Inr byt, b') \<Rightarrow> read_byte_acc (push_bit 8 u OR ucast byt) (nbits - 8) b')
      else (Inr (u, nbits), b))"
  by pat_completeness auto
termination by (relation "measure (\<lambda>(u, n, b). nat n)") auto

function read_bit_acc :: "u64 \<Rightarrow> int \<Rightarrow> bitstream \<Rightarrow> (io_error + u64 \<times> int) \<times> bitstream" where
  "read_bit_acc u nbits b =
     (if nbits > 0 then
        (case ReadBit b of
           (Inl e, b') \<Rightarrow> (Inl e, b')
         | (Inr x, b') \<Rightarrow>
             read_bit_acc (if x then push_bit 1 u OR 1 else push_bit 1 u) (nbits - 1) b')
      else (Inr (u, nbits), b))"
  by pat_completeness auto
termination by (relation "measure (\<lambda>(u, n, b). nat n)") auto

declare read_byte_acc.simps [simp del] read_bit_acc.simps [simp del]

definition ReadBits :: "int \<Rightarrow> bitstream \<Rightarrow> (io_error + u64) \<times> bitstream" where
  "ReadBits nbits b =
     (case read_byte_acc 0 nbits b of
        (Inl e, b1) \<Rightarrow> (Inl e, b1)
      | (Inr (u1, n1), b1) \<Rightarrow>
          (case read_bit_acc u1 n1 b1 of
             (Inl e, b2) \<Rightarrow> (Inl e, b2)
           | (Inr (u2, n2), b2) \<Rightarrow>
               (Inr u2, b2\<lparr>bitsRead := bitsRead b2 + word_of_int n2\<rparr>)))"

definition MarshalBinary :: "bitstream \<Rightarrow> u8 list" where
  "MarshalBinary b = count b # stream b"

definition UnmarshalBinary :: "u8 list \<Rightarrow> bitstream \<Rightarrow> io_error + bitstream" where
  "UnmarshalBinary bIn b =
     (case bIn of [] \<Rightarrow> Inl EOF | c # s \<Rightarrow> Inr (b\<lparr>count := c, stream := s\<rparr>))"


section \<open>Laws of the writer\<close>

text \<open>
  \<open>writer_bits b xs\<close>: the stream holds exactly the bits \<open>xs\<close>, followed by the zero bits still
  free in the last byte.
\<close>

definition stream_bits :: "u8 list \<Rightarrow> bool list" where
  "stream_bits s = concat (map byte_bits s)"

definition writer_bits :: "bitstream \<Rightarrow> bool list \<Rightarrow> bool" where
  "writer_bits b xs \<longleftrightarrow>
     count b \<le> 8 \<and> stream_bits (stream b) = xs @ replicate (unat (count b)) False"

lemma stream_bits_simps [simp]:
  "stream_bits [] = []"
  "stream_bits (y # s) = byte_bits y @ stream_bits s"
  "stream_bits (s @ t) = stream_bits s @ stream_bits t"
  by (simp_all add: stream_bits_def)

lemma length_stream_bits [simp]: "length (stream_bits s) = 8 * length s"
  by (induction s) auto

lemma split_last_byte:
  assumes "P @ (B :: bool list) = xs @ replicate c False" and "length B = 8" and "c \<le> 8"
  obtains ys where "B = ys @ replicate c False" and "xs = P @ ys" and "length ys = 8 - c"
proof
  have len: "length xs = length P + 8 - c"
    using arg_cong [OF assms(1), of length] assms(2,3) by simp
  have P: "take (length P) xs = P"
    using arg_cong [OF assms(1), of "take (length P)"] len assms(3) by simp
  then show xs: "xs = P @ drop (length P) xs"
    by (metis append_take_drop_id)
  show "B = drop (length P) xs @ replicate c False"
    using arg_cong [OF assms(1), of "drop (length P)"] len assms(3) by simp
  show "length (drop (length P) xs) = 8 - c"
    using len assms(3) by simp
qed

lemma writer_bits_last:
  assumes "writer_bits b xs" and "count b \<noteq> 0"
  obtains s y ys where "stream b = s @ [y]" and "xs = stream_bits s @ ys"
    and "byte_bits y = ys @ replicate (unat (count b)) False"
    and "length ys = 8 - unat (count b)" and "0 < unat (count b)" and "unat (count b) \<le> 8"
proof -
  have c: "0 < unat (count b)" "unat (count b) \<le> 8"
    using assms by (auto simp: writer_bits_def word_le_nat_alt unat_gt_0)
  have "stream b \<noteq> []"
    using assms(1) c by (auto simp: writer_bits_def)
  then obtain s y where s: "stream b = s @ [y]"
    by (meson rev_exhaust)
  have "stream_bits s @ byte_bits y = xs @ replicate (unat (count b)) False"
    using assms(1) s by (simp add: writer_bits_def)
  then obtain ys where "byte_bits y = ys @ replicate (unat (count b)) False"
    "xs = stream_bits s @ ys" "length ys = 8 - unat (count b)"
    by (rule split_last_byte [OF _ length_word_bits c(2)])
  with s c that show thesis by blast
qed

lemma ensure_room_bits:
  "writer_bits b xs \<Longrightarrow> writer_bits (ensure_room b) xs \<and> count (ensure_room b) \<noteq> 0"
  by (auto simp: ensure_room_def writer_bits_def word_bits_zero)

lemma ensure_room_bitsRead [simp]: "bitsRead (ensure_room b) = bitsRead b"
  by (simp add: ensure_room_def)

text \<open>Setting one bit, and the two halves of a byte written across a byte boundary.\<close>

lemma byte_bits_set:
  assumes "byte_bits y = ys @ replicate c False" and "length ys = 8 - c" and "0 < c" "c \<le> 8"
  shows "byte_bits (y OR push_bit (c - 1) 1) = ys @ True # replicate (c - 1) False"
proof (rule nth_equalityI)
  show "length (byte_bits (y OR push_bit (c - 1) 1)) = length (ys @ True # replicate (c - 1) False)"
    using assms by simp
  fix i assume "i < length (byte_bits (y OR push_bit (c - 1) 1))"
  then have i: "i < 8" by simp
  have y: "bit y (7 - i) = (if i < 8 - c then ys ! i else False)"
    using nth_word_bits [OF i, of y] assms(1,2) i by (auto simp: nth_append)
  show "byte_bits (y OR push_bit (c - 1) 1) ! i = (ys @ True # replicate (c - 1) False) ! i"
    using i assms(2-) y
    by (auto simp: nth_word_bits nth_append nth_Cons' bit_or_iff bit_exp_iff possible_bit_def)
qed

lemma byte_bits_split:
  assumes "byte_bits y = ys @ replicate c False" and "length ys = 8 - c" and "c \<le> 8"
  shows "byte_bits (y OR drop_bit (8 - c) byt) @ byte_bits (push_bit c byt) =
    ys @ byte_bits byt @ replicate c False" (is "?L = ?R")
proof (rule nth_equalityI)
  show "length ?L = length ?R" using assms by simp
  fix i assume "i < length ?L"
  then have i: "i < 16" by simp
  have y: "j < 8 \<Longrightarrow> bit y (7 - j) = (if j < 8 - c then ys ! j else False)" for j
    using nth_word_bits [of j 8 y] assms(1,2) by (auto simp: nth_append)
  have byt: "n \<ge> 8 \<Longrightarrow> \<not> bit byt n" for n
    by (auto dest: bit_imp_le_length)
  show "?L ! i = ?R ! i"
    using i assms(2,3) y [of i] byt
    by (auto simp: nth_word_bits nth_append bit_or_iff bit_drop_bit_eq bit_push_bit_iff add.commute)
qed

lemma WriteBit_bits:
  assumes "writer_bits b xs"
  shows "\<exists>b'. WriteBit x b = Some b' \<and> writer_bits b' (xs @ [x])"
proof -
  let ?b = "ensure_room b" and ?c = "unat (count (ensure_room b))"
  from ensure_room_bits [OF assms] obtain s y ys where *: "stream ?b = s @ [y]"
    "xs = stream_bits s @ ys" "byte_bits y = ys @ replicate ?c False" "length ys = 8 - ?c"
    "0 < ?c" "?c \<le> 8"
    by (meson writer_bits_last)
  have c1: "unat (count ?b - 1) = ?c - 1"
    using *(5) by (simp add: unat_minus_one unat_gt_0)
  have "ys @ replicate ?c False = (ys @ [False]) @ replicate (?c - 1) False"
    using *(5) by (cases ?c) auto
  with * c1 byte_bits_set [OF *(3-6)] show ?thesis
    by (auto simp: WriteBit_def Let_def writer_bits_def word_le_nat_alt)
qed

lemma WriteByte_bits:
  assumes "writer_bits b xs"
  shows "\<exists>b'. WriteByte byt b = Some b' \<and> writer_bits b' (xs @ byte_bits byt)"
proof -
  let ?b = "ensure_room b" and ?c = "unat (count (ensure_room b))"
  from ensure_room_bits [OF assms] obtain s y ys where *: "stream ?b = s @ [y]"
    "xs = stream_bits s @ ys" "byte_bits y = ys @ replicate ?c False" "length ys = 8 - ?c"
    "0 < ?c" "?c \<le> 8"
    by (meson writer_bits_last)
  have c8: "unat (8 - count ?b) = 8 - ?c"
    using *(6) by (simp add: unat_sub word_le_nat_alt)
  with * byte_bits_split [OF *(3,4,6)] show ?thesis
    by (simp add: WriteByte_def Let_def writer_bits_def word_le_nat_alt)
qed


lemma WriteBytes_bits:
  "writer_bits b xs \<Longrightarrow> \<exists>b'. WriteBytes ys b = Some b' \<and> writer_bits b' (xs @ stream_bits ys)"
proof (induction ys arbitrary: b xs)
  case (Cons y ys)
  from WriteByte_bits [OF Cons.prems, of y] obtain b' where b': "WriteByte y b = Some b'"
    and "writer_bits b' (xs @ byte_bits y)" by blast
  with Cons.IH [of b' "xs @ byte_bits y"] show ?case by auto
qed simp

lemma byte_step:
  "8 * ((m + 8) div 8) = 8 * (m div 8) + (8 :: nat)" "(m + 8) mod 8 = m mod (8 :: nat)"
proof -
  have "(m + 8) div 8 = m div 8 + 1" by (rule div_add_self2) simp
  then show "8 * ((m + 8) div 8) = 8 * (m div 8) + (8 :: nat)" by simp
qed (rule mod_add_self2)

lemma write_bytes_loop_bits:
  assumes "writer_bits b xs" and "n \<le> 64"
  shows "\<exists>b'. write_bytes_loop u (int n) b = Some (push_bit (8 * (n div 8)) u, int (n mod 8), b')
    \<and> writer_bits b' (xs @ top_bits (8 * (n div 8)) u)"
  using assms
proof (induction n arbitrary: u b xs rule: less_induct)
  case (less n)
  show ?case
  proof (cases "n < 8")
    case True
    with less.prems show ?thesis
      by (simp add: write_bytes_loop.simps [of u "int n"] top_bits_def)
  next
    case False
    then obtain m where n: "n = m + 8" by (metis add.commute le_Suc_ex not_less)
    from WriteByte_bits [OF less.prems(1), of "ucast (drop_bit 56 u)"] obtain b1 where
      b1: "WriteByte (ucast (drop_bit 56 u)) b = Some b1"
        "writer_bits b1 (xs @ byte_bits (ucast (drop_bit 56 u)))" by blast
    from less.IH [of m, OF _ b1(2), of "push_bit 8 u"] less.prems n obtain b2 where
      b2: "write_bytes_loop (push_bit 8 u) (int m) b1 =
          Some (push_bit (8 * (m div 8)) (push_bit 8 u), int (m mod 8), b2)"
        "writer_bits b2 ((xs @ byte_bits (ucast (drop_bit 56 u))) @ top_bits (8 * (m div 8)) (push_bit 8 u))"
      by auto
    have d: "8 * (n div 8) = 8 * (m div 8) + 8" "n mod 8 = m mod 8" "int n - 8 = int m"
      using n byte_step [of m] by simp_all
    have "write_bytes_loop u (int n) b = write_bytes_loop (push_bit 8 u) (int m) b1"
      using b1(1) n d(3) by (simp add: write_bytes_loop.simps [of u])
    moreover have "push_bit (8 * (m div 8)) (push_bit 8 u) = push_bit (8 * (n div 8)) u"
      by (simp add: d(1) add.commute)
    moreover have "top_bits (8 * (n div 8)) u =
        byte_bits (ucast (drop_bit 56 u)) @ top_bits (8 * (m div 8)) (push_bit 8 u)"
      unfolding d(1) using less.prems n by (intro top_bits_byte) simp
    ultimately show ?thesis
      using b2 d(2) by (simp only: append_assoc) blast
  qed
qed

lemma write_bits_loop_bits:
  assumes "writer_bits b xs" and "n \<le> 64"
  shows "\<exists>u' b'. write_bits_loop u (int n) b = Some (u', 0, b')
    \<and> writer_bits b' (xs @ top_bits n u)"
  using assms
proof (induction n arbitrary: u b xs)
  case 0
  then show ?case by (simp add: write_bits_loop.simps top_bits_def)
next
  case (Suc n)
  from WriteBit_bits [OF Suc.prems(1), of "bit u 63"] obtain b1 where
    b1: "WriteBit (bit u 63) b = Some b1" "writer_bits b1 (xs @ [bit u 63])" by blast
  from Suc.IH [OF b1(2), of "push_bit 1 u"] Suc.prems(2) obtain u' b2 where
    "write_bits_loop (push_bit 1 u) (int n) b1 = Some (u', 0, b2)"
    "writer_bits b2 ((xs @ [bit u 63]) @ top_bits n (push_bit 1 u))" by auto
  with b1(1) top_bits_Suc [of n u] Suc.prems(2) show ?case
    by (simp add: write_bits_loop.simps [of u "1 + int n"] drop_bit_63_eq_1)
qed

lemma top_bits_split:
  "m + n \<le> 64 \<Longrightarrow> top_bits (m + n) u = top_bits m u @ top_bits n (push_bit m u)"
  by (rule nth_equalityI) (auto simp: nth_top_bits nth_append bit_simps)

lemma WriteBits_bits:
  assumes "writer_bits b xs" and "n \<le> 64"
  shows "\<exists>b'. WriteBits u (int n) b = Some b' \<and> writer_bits b' (xs @ word_bits n u)"
proof -
  let ?u = "push_bit (64 - n) u" and ?m = "8 * (n div 8)"
  have sh: "unat (64 - (word_of_int (int n) :: u64)) = 64 - n"
    using assms(2) by (simp add: unat_sub word_le_nat_alt unat_of_nat)
  from write_bytes_loop_bits [OF assms, of ?u] obtain b1 where
    b1: "write_bytes_loop ?u (int n) b = Some (push_bit ?m ?u, int (n mod 8), b1)"
      "writer_bits b1 (xs @ top_bits ?m ?u)" by blast
  have "n mod 8 \<le> 64" using mod_less_divisor [of 8 n] by linarith
  from write_bits_loop_bits [OF b1(2) this, of "push_bit ?m ?u"] obtain u2 b2 where
    b2: "write_bits_loop (push_bit ?m ?u) (int (n mod 8)) b1 = Some (u2, 0, b2)"
      "writer_bits b2 ((xs @ top_bits ?m ?u) @ top_bits (n mod 8) (push_bit ?m ?u))"
    by blast
  have "top_bits ?m ?u @ top_bits (n mod 8) (push_bit ?m ?u) = word_bits n u"
    using top_bits_split [of ?m "n mod 8" ?u] top_bits_shift [OF assms(2), of u] assms(2)
    by simp
  with b1 b2 sh show ?thesis
    by (auto simp: WriteBits_def writer_bits_def)
qed


section \<open>Laws of the reader\<close>

text \<open>
  \<open>reader_bits b xs\<close>: the bits still to be read are \<open>xs\<close>. In a partly read first byte the bits
  read are shifted out and zero bits have come in.
\<close>

definition reader_bits :: "bitstream \<Rightarrow> bool list \<Rightarrow> bool" where
  "reader_bits b xs \<longleftrightarrow>
     (case stream b of
        [] \<Rightarrow> xs = []
      | y # s \<Rightarrow> count b \<le> 8
          \<and> xs = take (unat (count b)) (byte_bits y) @ stream_bits s
          \<and> (count b \<noteq> 0 \<longrightarrow>
              drop (unat (count b)) (byte_bits y) = replicate (8 - unat (count b)) False))"

lemma NewBReader_bits [simp]: "reader_bits (NewBReader s) (stream_bits s)"
  by (simp add: reader_bits_def NewBReader_def split: list.split)

lemma byte_bits_shl: "byte_bits (push_bit n y) = drop n (byte_bits y) @ replicate (min n 8) False"
  by (rule nth_equalityI)
    (auto simp: nth_word_bits nth_append bit_simps min_def add.commute dest: bit_imp_le_length)

lemma byte_bits_join:
  assumes "drop c (byte_bits y) = replicate (8 - c) False" and "c \<le> 8"
  shows "byte_bits (y OR drop_bit c z) = take c (byte_bits y) @ take (8 - c) (byte_bits z)"
proof (rule nth_equalityI)
  show "length (byte_bits (y OR drop_bit c z)) =
    length (take c (byte_bits y) @ take (8 - c) (byte_bits z))"
    using assms(2) by simp
  fix i assume "i < length (byte_bits (y OR drop_bit c z))"
  then have i: "i < 8" by simp
  have "c \<le> i \<Longrightarrow> \<not> bit y (7 - i)"
    using arg_cong [OF assms(1), of "\<lambda>l. l ! (i - c)"] i assms(2) by (auto simp: nth_word_bits)
  moreover have "i < c \<Longrightarrow> \<not> bit z (c + (7 - i))"
    using bit_imp_le_length [of z "c + (7 - i)"] i by auto
  ultimately show "byte_bits (y OR drop_bit c z) ! i =
      (take c (byte_bits y) @ take (8 - c) (byte_bits z)) ! i"
    using i assms(2) by (auto simp: nth_word_bits nth_append bit_simps add.commute)
qed

lemma and_0x80: "(y AND 0x80 \<noteq> (0 :: u8)) = bit y 7"
  by (simp add: bit_iff_and_push_bit_not_eq_0 push_bit_of_1)

lemma byte_bits_Cons: "byte_bits y = bit y 7 # tl (byte_bits y)"
  using word_bits_Suc [of 7 y] by simp

lemma byte_bits_not_Nil [simp]: "byte_bits y \<noteq> []"
  by (metis byte_bits_Cons list.distinct(1))

lemma byte_bits_inject: "byte_bits v = byte_bits w \<Longrightarrow> v = w"
proof (rule bit_word_eqI)
  fix n assume eq: "byte_bits v = byte_bits w" and "n < LENGTH(8)"
  then have n: "7 - n < 8" and "7 - (7 - n) = n" by simp_all
  with nth_word_bits [OF n, of v] nth_word_bits [OF n, of w] eq show "bit v n = bit w n" by simp
qed

text \<open>
  Both reads first drop a first byte that is used up: the stream that is left holds the same
  bits, and its first byte has bits to give.
\<close>

definition advance :: "bitstream \<Rightarrow> bitstream" where
  "advance b = (if count b = 0 then b\<lparr>stream := tl (stream b), count := 8\<rparr> else b)"

lemma advance_bits:
  assumes "reader_bits b xs" and "xs \<noteq> []"
  obtains y s where "stream (advance b) = y # s" and "stream b \<noteq> []"
    and "xs = take (unat (count (advance b))) (byte_bits y) @ stream_bits s"
    and "drop (unat (count (advance b))) (byte_bits y) =
      replicate (8 - unat (count (advance b))) False"
    and "0 < unat (count (advance b))" and "unat (count (advance b)) \<le> 8"
proof (cases "count b = 0")
  case True
  with assms obtain z y s where "stream b = z # y # s" and "xs = stream_bits (y # s)"
    by (cases "stream b" rule: list.exhaust; cases "tl (stream b)") (auto simp: reader_bits_def)
  with True show thesis
    by (intro that [of y s]) (auto simp: advance_def)
next
  case False
  with assms show thesis
    by (intro that [of "hd (stream b)" "tl (stream b)"])
      (auto simp: reader_bits_def advance_def word_le_nat_alt unat_gt_0 split: list.splits)
qed

lemma ReadBit_advance:
  "stream b \<noteq> [] \<Longrightarrow> stream (advance b) = y # s \<Longrightarrow>
    ReadBit b = (Inr (y AND 0x80 \<noteq> 0),
      (advance b)\<lparr>count := count (advance b) - 1, stream := push_bit 1 y # s,
        bitsRead := bitsRead b + 1\<rparr>)"
  by (auto simp: ReadBit_def advance_def Let_def split: if_splits)

lemma ReadByte_advance:
  "stream b \<noteq> [] \<Longrightarrow> stream (advance b) = y # s \<Longrightarrow>
    ReadByte b =
      (if count (advance b) = 8
       then (Inr y, (advance b)\<lparr>count := 0, bitsRead := bitsRead b + 8\<rparr>)
       else if s = [] then (Inl EOF, (advance b)\<lparr>stream := []\<rparr>)
       else (Inr (y OR drop_bit (unat (count (advance b))) (hd s)),
             (advance b)\<lparr>stream := push_bit (unat (8 - count (advance b))) (hd s) # tl s,
               bitsRead := bitsRead b + 8\<rparr>))"
  by (auto simp: ReadByte_def advance_def Let_def split: if_splits)

lemma ReadBit_bits:
  assumes "reader_bits b (x # xs)"
  shows "\<exists>b'. ReadBit b = (Inr x, b') \<and> reader_bits b' xs"
proof -
  let ?c = "unat (count (advance b))"
  obtain y s where *: "stream (advance b) = y # s" "stream b \<noteq> []"
    "x # xs = take ?c (byte_bits y) @ stream_bits s"
    "drop ?c (byte_bits y) = replicate (8 - ?c) False" "0 < ?c" "?c \<le> 8"
    by (rule advance_bits [OF assms]) auto
  have c1: "unat (count (advance b) - 1) = ?c - 1"
    using *(5) by (simp add: unat_minus_one unat_gt_0)
  obtain k where k: "?c = Suc k" using *(5) gr0_conv_Suc by blast
  obtain t where t: "byte_bits y = bit y 7 # t" "t = tl (byte_bits y)"
    using byte_bits_Cons by blast
  have "x = bit y 7" and xs: "xs = take k (tl (byte_bits y)) @ stream_bits s"
    using *(3) k unfolding t(1) by simp_all
  moreover have "drop k (tl (byte_bits y)) = replicate (8 - ?c) False"
    using *(4) k by (simp add: drop_Suc)
  moreover have "take k (byte_bits (push_bit 1 y)) = take k (tl (byte_bits y))"
    "drop k (byte_bits (push_bit 1 y)) = drop k (tl (byte_bits y)) @ [False]"
    using k *(6) unfolding byte_bits_shl by (simp_all add: drop_Suc)
  moreover have "replicate (8 - ?c) False @ [False] = replicate (8 - k) False"
    using k *(6) by (simp add: replicate_append_same flip: replicate_Suc)
  ultimately show ?thesis
    using ReadBit_advance [OF *(2,1)] and_0x80 c1 k *(6)
    by (simp add: reader_bits_def word_le_nat_alt)
qed


lemma ReadByte_bits:
  assumes "reader_bits b (byte_bits w @ xs)"
  shows "\<exists>b'. ReadByte b = (Inr w, b') \<and> reader_bits b' xs"
proof -
  let ?c = "unat (count (advance b))"
  have "byte_bits w @ xs \<noteq> []" by simp
  with assms obtain y s where *: "stream (advance b) = y # s" "stream b \<noteq> []"
    "byte_bits w @ xs = take ?c (byte_bits y) @ stream_bits s"
    "drop ?c (byte_bits y) = replicate (8 - ?c) False" "0 < ?c" "?c \<le> 8"
    by (rule advance_bits)
  show ?thesis
  proof (cases "count (advance b) = 8")
    case True
    with *(3) have "byte_bits w = byte_bits y" "xs = stream_bits s" by simp_all
    moreover from this(1) have "w = y" by (rule byte_bits_inject)
    ultimately show ?thesis
      using True *(1) ReadByte_advance [OF *(2,1)] by (simp add: reader_bits_def)
  next
    case False
    with *(6) have c: "?c < 8" "unat (8 - count (advance b)) = 8 - ?c"
      by (auto simp: unat_sub word_le_nat_alt le_less word_unat_eq_iff)
    with arg_cong [OF *(3), of length] have "s \<noteq> []" by auto
    then obtain z s' where s: "s = z # s'" by (cases s) auto
    let ?w = "y OR drop_bit ?c z"
    have "byte_bits w @ xs = byte_bits ?w @ drop (8 - ?c) (byte_bits z) @ stream_bits s'"
      using *(3) s byte_bits_join [OF *(4,6), of z] by simp
    then have "byte_bits w = byte_bits ?w" and xs: "xs = drop (8 - ?c) (byte_bits z) @ stream_bits s'"
      by simp_all
    from this(1) have "w = ?w" by (rule byte_bits_inject)
    with xs show ?thesis
      using ReadByte_advance [OF *(2,1)] False c s *(6)
      by (simp add: reader_bits_def byte_bits_shl min_def word_le_nat_alt)
  qed
qed

lemma ReadBit_EOF: "reader_bits b [] \<Longrightarrow> \<exists>b'. ReadBit b = (Inl EOF, b')"
  by (cases "stream b"; cases "tl (stream b)")
    (auto simp: reader_bits_def ReadBit_def unat_eq_zero split: if_splits)

lemma ReadByte_EOF:
  assumes "reader_bits b xs" and "length xs < 8"
  shows "\<exists>b'. ReadByte b = (Inl EOF, b')"
proof (cases "stream b")
  case Nil
  then show ?thesis by (simp add: ReadByte_def)
next
  case (Cons y s)
  with assms have "count b \<noteq> 8" and "s = []"
    by (cases s; auto simp: reader_bits_def)+
  with Cons show ?thesis by (simp add: ReadByte_def)
qed

lemma reader_bits_length: "reader_bits b xs \<Longrightarrow> length xs \<le> 8 * length (stream b)"
  by (auto simp: reader_bits_def split: list.splits)

lemma ReadBytes_bits:
  assumes "reader_bits b (stream_bits ys @ xs)" and "ys \<noteq> []" and "length ys = unat n"
  shows "\<exists>b'. ReadBytes n b = (Inr ys, b') \<and> reader_bits b' xs"
proof -
  have loop: "reader_bits b (stream_bits ys @ xs) \<Longrightarrow>
      \<exists>b'. read_bytes_loop (length ys) b = (Inr ys, b') \<and> reader_bits b' xs" for b ys
  proof (induction ys arbitrary: b)
    case (Cons y ys)
    from ReadByte_bits [of b y "stream_bits ys @ xs"] Cons.prems obtain b1 where
      "ReadByte b = (Inr y, b1)" "reader_bits b1 (stream_bits ys @ xs)" by auto
    with Cons.IH [of b1] show ?case by auto
  qed simp
  have "length ys \<le> length (stream b)"
    using reader_bits_length [OF assms(1)] by simp
  with loop [OF assms(1)] assms(2,3) show ?thesis
    by (auto simp: ReadBytes_def)
qed


lemma stream_bits_chop:
  assumes "length ws = n + 8"
  obtains y vs where "ws = byte_bits y @ vs" and "length vs = n"
proof
  let ?y = "ucast (push_bits 0 (take 8 ws)) :: u8"
  have "byte_bits ?y = take 8 ws"
    using assms by (intro nth_equalityI) (auto simp: nth_word_bits bit_simps bit_push_bits)
  then show "ws = byte_bits ?y @ drop 8 ws" by simp
  show "length (drop 8 ws) = n" using assms by simp
qed

lemma read_byte_acc_bits:
  assumes "reader_bits b (ws @ xs)" and "length ws = n"
  shows "\<exists>b'. read_byte_acc u (int n) b =
      (Inr (push_bits u (take (8 * (n div 8)) ws), int (n mod 8)), b')
    \<and> reader_bits b' (drop (8 * (n div 8)) ws @ xs)"
  using assms
proof (induction n arbitrary: u b ws rule: less_induct)
  case (less n)
  show ?case
  proof (cases "n < 8")
    case True
    with less.prems show ?thesis by (simp add: read_byte_acc.simps [of u "int n"])
  next
    case False
    then obtain m where n: "n = m + 8" by (metis add.commute le_Suc_ex not_less)
    with less.prems(2) obtain y vs where ws: "ws = byte_bits y @ vs" and vs: "length vs = m"
      by (auto elim: stream_bits_chop)
    from ReadByte_bits [of b y "vs @ xs"] less.prems(1) ws obtain b1 where
      b1: "ReadByte b = (Inr y, b1)" "reader_bits b1 (vs @ xs)" by auto
    have d: "8 * (n div 8) = 8 * (m div 8) + 8" "n mod 8 = m mod 8" "int n - 8 = int m"
      using n byte_step [of m] by simp_all
    from less.IH [of m, OF _ b1(2) vs, of "push_bit 8 u OR ucast y"] n obtain b2 where
      "read_byte_acc (push_bit 8 u OR ucast y) (int m) b1 =
        (Inr (push_bits (push_bit 8 u OR ucast y) (take (8 * (m div 8)) vs), int (m mod 8)), b2)"
      "reader_bits b2 (drop (8 * (m div 8)) vs @ xs)" by auto
    moreover have "read_byte_acc u (int n) b = read_byte_acc (push_bit 8 u OR ucast y) (int m) b1"
      using b1(1) n d(3) by (simp add: read_byte_acc.simps [of u])
    moreover have "take (8 * (n div 8)) ws = byte_bits y @ take (8 * (m div 8)) vs"
      "drop (8 * (n div 8)) ws = drop (8 * (m div 8)) vs"
      unfolding d(1) ws by simp_all
    ultimately show ?thesis
      using d(2) by (simp add: push_bits_append push_bits_byte)
  qed
qed

lemma read_bit_acc_bits:
  assumes "reader_bits b (ws @ xs)"
  shows "\<exists>b'. read_bit_acc u (int (length ws)) b = (Inr (push_bits u ws, 0), b')
    \<and> reader_bits b' xs"
  using assms
proof (induction ws arbitrary: u b)
  case Nil
  then show ?case by (simp add: read_bit_acc.simps)
next
  case (Cons w ws)
  from ReadBit_bits [of b w "ws @ xs"] Cons.prems obtain b1 where
    b1: "ReadBit b = (Inr w, b1)" "reader_bits b1 (ws @ xs)" by auto
  have "(if w then push_bit 1 u OR 1 else push_bit 1 u) = push_bit 1 u OR of_bool w" by simp
  with Cons.IH [OF b1(2), of "push_bit 1 u OR of_bool w"] b1(1) show ?case
    by (auto simp: read_bit_acc.simps [of u "1 + int (length ws)"])
qed

lemma ReadBits_bits:
  assumes "reader_bits b (ws @ xs)"
  shows "\<exists>b'. ReadBits (int (length ws)) b = (Inr (push_bits 0 ws), b') \<and> reader_bits b' xs"
proof -
  let ?n = "length ws" let ?m = "8 * (?n div 8)"
  from read_byte_acc_bits [OF assms refl, of 0] obtain b1 where
    b1: "read_byte_acc 0 (int ?n) b = (Inr (push_bits 0 (take ?m ws), int (?n mod 8)), b1)"
      "reader_bits b1 (drop ?m ws @ xs)" by blast
  have len: "length (drop ?m ws) = ?n mod 8" by (simp add: minus_mult_div_eq_mod)
  from read_bit_acc_bits [OF b1(2), of "push_bits 0 (take ?m ws)"] obtain b2 where
    b2: "read_bit_acc (push_bits 0 (take ?m ws)) (int (?n mod 8)) b1 =
        (Inr (push_bits (push_bits 0 (take ?m ws)) (drop ?m ws), 0), b2)"
      "reader_bits b2 xs" unfolding len by blast
  have "push_bits (push_bits 0 (take ?m ws)) (drop ?m ws) = push_bits 0 ws"
    by (simp flip: push_bits_append)
  with b1 b2 show ?thesis by (simp add: ReadBits_def reader_bits_def)
qed


lemma read_byte_acc_EOF:
  assumes "reader_bits b xs" and "length xs < n"
  shows "(\<exists>b'. read_byte_acc u (int n) b = (Inl EOF, b')) \<or>
    (\<exists>u' b' ys. read_byte_acc u (int n) b = (Inr (u', int (n mod 8)), b')
      \<and> reader_bits b' ys \<and> length ys < n mod 8)"
  using assms
proof (induction n arbitrary: u b xs rule: less_induct)
  case (less n)
  consider "n < 8" | "8 \<le> n" "length xs < 8" | m k where "n = m + 8" "length xs = k + 8"
    by (metis add.commute le_Suc_ex not_less)
  then show ?case
  proof cases
    case 1
    with less.prems show ?thesis by (auto simp: read_byte_acc.simps [of u "int n"])
  next
    case 2
    with ReadByte_EOF [OF less.prems(1)] show ?thesis
      by (auto simp: read_byte_acc.simps [of u "int n"])
  next
    case 3
    then obtain y vs where xs: "xs = byte_bits y @ vs" "length vs = k"
      by (auto elim: stream_bits_chop)
    with less.prems(1) ReadByte_bits [of b y vs] obtain b1 where
      b1: "ReadByte b = (Inr y, b1)" "reader_bits b1 vs" by auto
    have d: "n mod 8 = m mod 8" "int n - 8 = int m" using 3 byte_step [of m] by simp_all
    have "read_byte_acc u (int n) b = read_byte_acc (push_bit 8 u OR ucast y) (int m) b1"
      using b1(1) 3 d(2) by (simp add: read_byte_acc.simps [of u])
    with less.IH [of m, OF _ b1(2), of "push_bit 8 u OR ucast y"] 3 xs(2) less.prems(2) d(1)
    show ?thesis by simp
  qed
qed

lemma read_bit_acc_EOF:
  "reader_bits b xs \<Longrightarrow> length xs < n \<Longrightarrow> \<exists>b'. read_bit_acc u (int n) b = (Inl EOF, b')"
proof (induction xs arbitrary: u b n)
  case Nil
  with ReadBit_EOF [of b] show ?case by (auto simp: read_bit_acc.simps [of u "int n"])
next
  case (Cons x xs)
  from ReadBit_bits [OF Cons.prems(1)] obtain b1 where
    b1: "ReadBit b = (Inr x, b1)" "reader_bits b1 xs" by auto
  obtain m where n: "n = Suc m" "length xs < m" using Cons.prems(2) by (cases n) auto
  from Cons.IH [OF b1(2) n(2)] b1(1) n(1) show ?case
    by (simp add: read_bit_acc.simps [of u "1 + int m"])
qed

lemma ReadBits_EOF:
  assumes "reader_bits b xs" and "length xs < n"
  shows "\<exists>b'. ReadBits (int n) b = (Inl EOF, b')"
  using read_byte_acc_EOF [OF assms, of 0]
proof (elim disjE exE conjE)
  fix u' b' ys
  assume *: "read_byte_acc 0 (int n) b = (Inr (u', int (n mod 8)), b')"
    and "reader_bits b' ys" "length ys < n mod 8"
  then obtain b'' where "read_bit_acc u' (int (n mod 8)) b' = (Inl EOF, b'')"
    using read_bit_acc_EOF by blast
  with * show ?thesis by (simp add: ReadBits_def)
qed (simp add: ReadBits_def)

section \<open>The contract the codecs rely on\<close>

text \<open>
  A sink takes bits and words, a source gives them back in the order they were put.
  \<open>emits f ws\<close> says of a sequence of writes that it succeeds on every sink and appends \<open>ws\<close>.
\<close>

locale bit_sink =
  fixes put :: "bool \<Rightarrow> 's \<Rightarrow> 's option"
    and put_word :: "u64 \<Rightarrow> int \<Rightarrow> 's \<Rightarrow> 's option"
    and holds :: "'s \<Rightarrow> bool list \<Rightarrow> bool"
  assumes put_bit: "holds s xs \<Longrightarrow> \<exists>s'. put x s = Some s' \<and> holds s' (xs @ [x])"
    and put_bits: "holds s xs \<Longrightarrow> n \<le> 64 \<Longrightarrow>
      \<exists>s'. put_word u (int n) s = Some s' \<and> holds s' (xs @ word_bits n u)"
begin

definition emits :: "('s \<Rightarrow> 's option) \<Rightarrow> bool list \<Rightarrow> bool" where
  "emits f ws \<longleftrightarrow> (\<forall>s xs. holds s xs \<longrightarrow> (\<exists>s'. f s = Some s' \<and> holds s' (xs @ ws)))"

lemma emits_bit: "emits (put x) [x]"
  using put_bit by (simp add: emits_def)

lemma emits_word: "n \<le> 64 \<Longrightarrow> emits (put_word u (int n)) (word_bits n u)"
  using put_bits by (simp add: emits_def)

lemma emits_skip: "emits Some []"
  by (simp add: emits_def)

lemma emits_bind:
  assumes "emits f vs" and "emits g ws"
  shows "emits (\<lambda>s. Option.bind (f s) g) (vs @ ws)"
  using assms unfolding emits_def by (metis append_assoc bind.bind_lunit)

lemma emits_run: "emits f ws \<Longrightarrow> holds s xs \<Longrightarrow> \<exists>s'. f s = Some s' \<and> holds s' (xs @ ws)"
  by (simp add: emits_def)

end

locale bit_source =
  fixes get :: "'r \<Rightarrow> (io_error + bool) \<times> 'r"
    and get_word :: "int \<Rightarrow> 'r \<Rightarrow> (io_error + u64) \<times> 'r"
    and remains :: "'r \<Rightarrow> bool list \<Rightarrow> bool"
  assumes get_bit: "remains r (x # xs) \<Longrightarrow> \<exists>r'. get r = (Inr x, r') \<and> remains r' xs"
    and get_bits: "remains r (ws @ xs) \<Longrightarrow>
      \<exists>r'. get_word (int (length ws)) r = (Inr (push_bits 0 ws), r') \<and> remains r' xs"
    and get_short: "remains r xs \<Longrightarrow> length xs < n \<Longrightarrow> \<exists>r'. get_word (int n) r = (Inl EOF, r')"
begin

lemma get_bits_word:
  assumes "remains r (word_bits n u @ xs)" and "n \<le> 64"
  shows "\<exists>r'. get_word (int n) r = (Inr (take_bit n u), r') \<and> remains r' xs"
  using get_bits [OF assms(1)] push_bits_word_bits [OF assms(2)] by simp

end

interpretation bw: bit_sink WriteBit WriteBits writer_bits
  by unfold_locales (fact WriteBit_bits WriteBits_bits)+

interpretation br: bit_source ReadBit ReadBits reader_bits
  by unfold_locales (fact ReadBit_bits ReadBits_bits ReadBits_EOF)+


section \<open>Fields\<close>

text \<open>A client that writes fields of given widths one after the other, and one that reads them.\<close>

fun write_fields :: "(nat \<times> u64) list \<Rightarrow> bitstream \<Rightarrow> bitstream option" where
  "write_fields [] b = Some b"
| "write_fields ((n, u) # fs) b = do { b1 \<leftarrow> WriteBits u (int n) b; write_fields fs b1 }"

fun read_fields :: "nat list \<Rightarrow> bitstream \<Rightarrow> (io_error + u64 list) \<times> bitstream" where
  "read_fields [] b = (Inr [], b)"
| "read_fields (n # ns) b =
     (case ReadBits (int n) b of
        (Inl e, b1) \<Rightarrow> (Inl e, b1)
      | (Inr u, b1) \<Rightarrow>
          (case read_fields ns b1 of
             (Inl e, b2) \<Rightarrow> (Inl e, b2)
           | (Inr us, b2) \<Rightarrow> (Inr (u # us), b2)))"

definition fields_bits :: "(nat \<times> u64) list \<Rightarrow> bool list" where
  "fields_bits fs = concat (map (\<lambda>(n, u). word_bits n u) fs)"

lemma write_fields_bits:
  "\<forall>(n, u)\<in>set fs. n \<le> 64 \<Longrightarrow> bw.emits (write_fields fs) (fields_bits fs)"
proof (induction fs)
  case Nil
  then show ?case using bw.emits_skip by (simp add: fields_bits_def bw.emits_def)
next
  case (Cons f fs)
  obtain n u where f: "f = (n, u)" by fastforce
  have "bw.emits (\<lambda>b. do { b1 \<leftarrow> WriteBits u (int n) b; write_fields fs b1 })
      (word_bits n u @ fields_bits fs)"
    using Cons f by (intro bw.emits_bind [OF bw.emits_word]) auto
  then show ?case by (simp add: f fields_bits_def bw.emits_def)
qed

lemma read_fields_bits:
  "\<forall>(n, u)\<in>set fs. n \<le> 64 \<Longrightarrow> reader_bits b (fields_bits fs @ xs) \<Longrightarrow>
    \<exists>b'. read_fields (map fst fs) b = (Inr (map (\<lambda>(n, u). take_bit n u) fs), b') \<and> reader_bits b' xs"
proof (induction fs arbitrary: b)
  case Nil
  then show ?case by (simp add: fields_bits_def)
next
  case (Cons f fs)
  obtain n u where f: "f = (n, u)" by fastforce
  with Cons.prems have "reader_bits b (word_bits n u @ fields_bits fs @ xs)" "n \<le> 64"
    by (simp_all add: fields_bits_def)
  from br.get_bits_word [OF this] obtain b1 where
    "ReadBits (int n) b = (Inr (take_bit n u), b1)" "reader_bits b1 (fields_bits fs @ xs)" by blast
  with Cons.IH [of b1] Cons.prems(1) f show ?case by fastforce
qed

lemma NewBWriter_bits: "0 \<le> sz \<Longrightarrow> \<exists>b. NewBWriter sz = Some b \<and> writer_bits b []"
  by (simp add: NewBWriter_def writer_bits_def)

text \<open>
  C4. The bit stream is faithful: fields of up to 64 bits, written one after the other into a new
  stream, are read back from the stream's bytes in the same order, each cut to its width. No write
  panics and no read reports the end.
\<close>

theorem fields_round_trip:
  assumes "\<forall>(n, u)\<in>set fs. n \<le> 64" and "0 \<le> sz"
  shows "\<exists>b0 b b'. NewBWriter sz = Some b0 \<and> write_fields fs b0 = Some b
    \<and> read_fields (map fst fs) (NewBReader (Bytes b)) = (Inr (map (\<lambda>(n, u). take_bit n u) fs), b')"
proof -
  from NewBWriter_bits [OF assms(2)] bw.emits_run [OF write_fields_bits [OF assms(1)]]
  obtain b0 b where b: "NewBWriter sz = Some b0" "write_fields fs b0 = Some b"
    "writer_bits b (fields_bits fs)" by fastforce
  then have "reader_bits (NewBReader (Bytes b)) (fields_bits fs @ replicate (unat (count b)) False)"
    using NewBReader_bits [of "stream b"] by (simp add: writer_bits_def Bytes_def)
  from read_fields_bits [OF assms(1) this] b show ?thesis by auto
qed

theorem fields_round_trip_witness:
  "\<exists>b0 b b'. NewBWriter 0 = Some b0 \<and> write_fields [(3, 5), (64, 2 ^ 63 + 1), (9, 1023)] b0 = Some b
    \<and> read_fields [3, 64, 9] (NewBReader (Bytes b)) = (Inr [5, 2 ^ 63 + 1, 511], b')"
proof -
  have "take_bit 3 (5 :: u64) = 5" "take_bit 64 (2 ^ 63 + 1 :: u64) = 2 ^ 63 + 1"
    "take_bit 9 (1023 :: u64) = 511" by code_simp+
  then show ?thesis
    using fields_round_trip [of "[(3, 5), (64, 2 ^ 63 + 1), (9, 1023)]" 0] by simp
qed

text \<open>
  A read past the end is an error, not a panic and not made-up bits: asking a fresh reader for
  more bits than its bytes hold gives the end-of-file error.
\<close>

theorem short_read_is_EOF:
  assumes "8 * length s < n"
  shows "fst (ReadBits (int n) (NewBReader s)) = Inl EOF"
  using ReadBits_EOF [OF NewBReader_bits, of s n] assms by auto

theorem short_read_is_EOF_witness: "fst (ReadBits 17 (NewBReader [1, 2])) = Inl EOF"
  using short_read_is_EOF [of "[1, 2]" 17] by simp

section \<open>The length\<close>

lemma WriteBit_count: "WriteBit x b = Some b' \<Longrightarrow> bitsWritten b' = bitsWritten b + 1"
  by (auto simp: WriteBit_def ensure_room_def Let_def split: if_splits)

lemma WriteByte_count: "WriteByte y b = Some b' \<Longrightarrow> bitsWritten b' = bitsWritten b + 8"
  by (auto simp: WriteByte_def ensure_room_def Let_def split: if_splits)

lemma write_bytes_loop_count:
  "write_bytes_loop u n b = Some (u', n', b') \<Longrightarrow>
    bitsWritten b' = bitsWritten b + word_of_int (n - n')"
proof (induction u n b arbitrary: u' n' b' rule: write_bytes_loop.induct)
  case (1 u n b)
  show ?case
  proof (cases "8 \<le> n")
    case True
    with "1.prems" obtain b1 where b1: "WriteByte (ucast (drop_bit 56 u)) b = Some b1"
      "write_bytes_loop (push_bit 8 u) (n - 8) b1 = Some (u', n', b')"
      by (auto simp: write_bytes_loop.simps [of u n] bind_eq_Some_conv)
    from "1.IH" [OF True b1] WriteByte_count [OF b1(1)] show ?thesis by simp
  qed (use "1.prems" in \<open>auto simp: write_bytes_loop.simps [of u n]\<close>)
qed

lemma write_bits_loop_count:
  "write_bits_loop u n b = Some (u', n', b') \<Longrightarrow>
    bitsWritten b' = bitsWritten b + word_of_int (n - n')"
proof (induction u n b arbitrary: u' n' b' rule: write_bits_loop.induct)
  case (1 u n b)
  show ?case
  proof (cases "0 < n")
    case True
    with "1.prems" obtain b1 where b1: "WriteBit (drop_bit 63 u = 1) b = Some b1"
      "write_bits_loop (push_bit 1 u) (n - 1) b1 = Some (u', n', b')"
      by (auto simp: write_bits_loop.simps [of u n] bind_eq_Some_conv)
    from "1.IH" [OF True b1] WriteBit_count [OF b1(1)] show ?thesis by simp
  qed (use "1.prems" in \<open>auto simp: write_bits_loop.simps [of u n]\<close>)
qed

lemma WriteBits_count: "WriteBits u n b = Some b' \<Longrightarrow> bitsWritten b' = bitsWritten b + word_of_int n"
  by (auto simp: WriteBits_def bind_eq_Some_conv dest!: write_bytes_loop_count write_bits_loop_count)

lemma write_fields_count:
  "write_fields fs b = Some b' \<Longrightarrow> bitsWritten b' = bitsWritten b + word_of_nat (sum_list (map fst fs))"
proof (induction fs arbitrary: b)
  case (Cons f fs)
  then obtain b1 where "WriteBits (snd f) (int (fst f)) b = Some b1" "write_fields fs b1 = Some b'"
    by (cases f) (auto simp: bind_eq_Some_conv)
  with Cons.IH [of b1] WriteBits_count [of "snd f" "int (fst f)" b b1] show ?case by simp
qed simp

lemma sint_of_nat: "m < 2 ^ 63 \<Longrightarrow> sint (word_of_nat m :: i64) = int m"
  by (simp add: sint_uint uint_nat unat_of_nat signed_take_bit_int_eq_self)

lemma Len_of_nat: "bitsWritten b = word_of_nat m \<Longrightarrow> m < 2 ^ 63 \<Longrightarrow> Len b = int m div 8"
  by (cases m) (simp_all only: Len_def sint_of_nat, simp_all)

lemma length_fields_bits: "length (fields_bits fs) = sum_list (map fst fs)"
  by (induction fs) (auto simp: fields_bits_def)

text \<open>
  The length of a stream is the number of whole bytes written to it: after any fields, of
  fewer than \<open>2^63\<close> bits in total, \<open>Len\<close> is the sum of their widths divided by eight.
\<close>

theorem length_of_fields:
  assumes "NewBWriter sz = Some b0" and "write_fields fs b0 = Some b"
    and "sum_list (map fst fs) < 2 ^ 63"
  shows "Len b = int (sum_list (map fst fs)) div 8"
proof -
  have "bitsWritten b0 = 0" using assms(1) by (auto simp: NewBWriter_def split: if_splits)
  with write_fields_count [OF assms(2)] have "bitsWritten b = word_of_nat (sum_list (map fst fs))"
    by simp
  from Len_of_nat [OF this assms(3)] show ?thesis .
qed

theorem length_of_fields_witness:
  "\<exists>b0 b. NewBWriter 8 = Some b0 \<and> write_fields [(14, 77), (64, 5), (1, 1)] b0 = Some b \<and> Len b = 9"
proof -
  from NewBWriter_bits [of 8] bw.emits_run [OF write_fields_bits [of "[(14, 77), (64, 5), (1, 1)]"]]
  obtain b0 b where b: "NewBWriter 8 = Some b0" "write_fields [(14, 77), (64, 5), (1, 1)] b0 = Some b"
    by fastforce
  with length_of_fields [OF b] show ?thesis by simp
qed

text \<open>
  A clone keeps the bytes but not the length. \<open>Clone\<close> stores the number of bytes where the
  number of bits belongs, so the clone of a stream with two bytes or more of fields is shorter,
  by its own \<open>Len\<close>, than the stream it was made from.
\<close>

theorem clone_loses_length:
  assumes "\<forall>(n, u)\<in>set fs. n \<le> 64" and "NewBWriter sz = Some b0" and "write_fields fs b0 = Some b"
    and "16 \<le> sum_list (map fst fs)" and "sum_list (map fst fs) < 2 ^ 63"
  shows "Bytes (Clone b) = Bytes b \<and> Len (Clone b) < Len b"
proof -
  let ?m = "sum_list (map fst fs)"
  have "bitsWritten b0 = 0" using assms(2) by (auto simp: NewBWriter_def split: if_splits)
  with write_fields_count [OF assms(3)] have "bitsWritten b = word_of_nat ?m" by simp
  from Len_of_nat [OF this assms(5)] have len: "Len b = int ?m div 8" .
  from assms(2) NewBWriter_bits [of sz] have "writer_bits b0 []"
    by (auto simp: NewBWriter_def split: if_splits)
  with bw.emits_run [OF write_fields_bits [OF assms(1)]] assms(3) have "writer_bits b (fields_bits fs)"
    by fastforce
  then have "8 * length (stream b) = ?m + unat (count b)" "unat (count b) \<le> 8"
    using length_fields_bits [of fs]
    by (auto simp: writer_bits_def word_le_nat_alt dest: arg_cong [where f = length])
  then have short: "length (stream b) \<le> ?m div 8 + 1" by linarith
  with assms(4) have "length (stream b) \<le> ?m" by linarith
  with assms(5) have "length (stream b) < 2 ^ 63" by (rule le_less_trans [rotated])
  from Len_of_nat [OF _ this, of "Clone b"] have "Len (Clone b) = int (length (stream b)) div 8"
    by (simp add: Clone_def)
  moreover have "length (stream b) div 8 < ?m div 8" using short assms(4) by linarith
  then have "int (length (stream b)) div 8 < int ?m div 8"
    by (metis of_nat_less_iff zdiv_int of_nat_numeral)
  ultimately show ?thesis using len by (simp add: Clone_def Bytes_def)
qed

theorem clone_loses_length_witness:
  "\<exists>b0 b. NewBWriter 8 = Some b0 \<and> write_fields [(64, 5), (64, 7)] b0 = Some b \<and> Len (Clone b) < Len b"
proof -
  from NewBWriter_bits [of 8] bw.emits_run [OF write_fields_bits [of "[(64, 5), (64, 7)]"]]
  obtain b0 b where b: "NewBWriter 8 = Some b0" "write_fields [(64, 5), (64, 7)] b0 = Some b"
    by fastforce
  with clone_loses_length [OF _ b] show ?thesis by simp
qed

end
