(* ===== verification/Float64.thy ===== *)
theory Float64
  imports Go_Prelude
begin

text \<open>
  Go's \<^verbatim>\<open>float64\<close>: IEEE 754 binary64 values as their 64-bit patterns, which is what
  \<^verbatim>\<open>math.Float64bits\<close> reads and \<^verbatim>\<open>math.Float64frombits\<close> makes. Comparison, the conversions
  from and to integers, and the rounded operations the components use are executable on
  the integer significand and exponent; round to nearest, ties to even.
\<close>

section \<open>Fields and classes\<close>

type_synonym f64 = "64 word"

definition f64_neg :: "f64 \<Rightarrow> bool" where
  "f64_neg x \<longleftrightarrow> uint x \<ge> 2 ^ 63"

definition f64_abs_bits :: "f64 \<Rightarrow> int" where
  "f64_abs_bits x = uint x mod 2 ^ 63"

definition f64_exp :: "f64 \<Rightarrow> int" where
  "f64_exp x = f64_abs_bits x div 2 ^ 52"

definition f64_frac :: "f64 \<Rightarrow> int" where
  "f64_frac x = f64_abs_bits x mod 2 ^ 52"

definition IsNaN :: "f64 \<Rightarrow> bool" where
  "IsNaN x \<longleftrightarrow> f64_abs_bits x > 2047 * 2 ^ 52"

definition IsInf :: "f64 \<Rightarrow> bool" where
  "IsInf x \<longleftrightarrow> f64_abs_bits x = 2047 * 2 ^ 52"

text \<open>The value of \<^verbatim>\<open>math.NaN()\<close>.\<close>

definition NaN :: f64 where
  "NaN = 0x7FF8000000000001"

text \<open>A finite pattern is \<open>m * 2 ^ e\<close>.\<close>

definition f64_mant :: "f64 \<Rightarrow> int" where
  "f64_mant x = (if f64_neg x then - 1 else 1) *
     (if f64_exp x = 0 then f64_frac x else f64_frac x + 2 ^ 52)"

definition f64_scale :: "f64 \<Rightarrow> int" where
  "f64_scale x = (if f64_exp x = 0 then - 1074 else f64_exp x - 1075)"

section \<open>Comparison\<close>

text \<open>Without the sign, the patterns are ordered as the values are; both zeros have key 0.\<close>

definition f64_key :: "f64 \<Rightarrow> int" where
  "f64_key x = (if f64_neg x then - f64_abs_bits x else f64_abs_bits x)"

definition f64_lt :: "f64 \<Rightarrow> f64 \<Rightarrow> bool" where
  "f64_lt x y \<longleftrightarrow> \<not> IsNaN x \<and> \<not> IsNaN y \<and> f64_key x < f64_key y"

definition f64_eq :: "f64 \<Rightarrow> f64 \<Rightarrow> bool" where
  "f64_eq x y \<longleftrightarrow> \<not> IsNaN x \<and> \<not> IsNaN y \<and> f64_key x = f64_key y"

lemma f64_lt_irrefl [simp]: "\<not> f64_lt x x"
  by (simp add: f64_lt_def)

lemma f64_lt_trans: "f64_lt x y \<Longrightarrow> f64_lt y z \<Longrightarrow> f64_lt x z"
  by (simp add: f64_lt_def)

lemma f64_lt_NaN [simp]: "IsNaN x \<Longrightarrow> \<not> f64_lt x y" "IsNaN y \<Longrightarrow> \<not> f64_lt x y"
  by (simp_all add: f64_lt_def)

lemma IsNaN_NaN [simp]: "IsNaN NaN"
  by (simp add: IsNaN_def NaN_def f64_abs_bits_def)

lemma IsNaN_0 [simp]: "\<not> IsNaN 0"
  by (simp add: IsNaN_def f64_abs_bits_def)

section \<open>Rounding\<close>

function bitlen :: "int \<Rightarrow> nat" where
  "bitlen n = (if n \<le> 0 then 0 else Suc (bitlen (n div 2)))"
  by pat_completeness auto
termination by (relation "measure nat") auto

declare bitlen.simps [simp del]

definition round_shift :: "int \<Rightarrow> nat \<Rightarrow> int" where
  "round_shift a k =
     (if k = 0 then a
      else let d = a div 2 ^ k; r = a mod 2 ^ k; half = 2 ^ (k - 1) in
        if r < half \<or> (r = half \<and> even d) then d else d + 1)"

text \<open>
  \<open>f64_round neg m e\<close> is the pattern of \<open>m * 2 ^ e\<close> (\<open>neg\<close> is the sign of an exact zero).
  With the exponent \<open>q\<close> of the last place, the pattern of a rounded significand is
  \<open>(q + 1074) * 2 ^ 52\<close> plus it, for subnormal values and for a carry too; what is too
  large is an infinity.
\<close>

definition f64_round :: "bool \<Rightarrow> int \<Rightarrow> int \<Rightarrow> f64" where
  "f64_round neg m e =
     (let a = \<bar>m\<bar>;
          q = max (e + int (bitlen a) - 53) (- 1074);
          r = (if q \<le> e then a * 2 ^ nat (e - q) else round_shift a (nat (q - e)));
          s = (if m < 0 \<or> (m = 0 \<and> neg) then 2 ^ 63 else 0)
      in if m = 0 then word_of_int s
         else word_of_int (s + min ((q + 1074) * 2 ^ 52 + r) (2047 * 2 ^ 52)))"

section \<open>Conversions\<close>

definition f64_of_u32 :: "u32 \<Rightarrow> f64" where
  "f64_of_u32 x = f64_round False (uint x) 0"

definition f64_of_u64 :: "u64 \<Rightarrow> f64" where
  "f64_of_u64 x = f64_round False (uint x) 0"

definition f64_of_i64 :: "i64 \<Rightarrow> f64" where
  "f64_of_i64 x = f64_round False (sint x) 0"

text \<open>Truncation towards zero of a finite value.\<close>

definition f64_trunc :: "f64 \<Rightarrow> int" where
  "f64_trunc x =
     (if f64_scale x \<ge> 0 then f64_mant x * 2 ^ nat (f64_scale x)
      else sgn (f64_mant x) * (\<bar>f64_mant x\<bar> div 2 ^ nat (- f64_scale x)))"

text \<open>
  The conversion instruction of amd64: what does not fit (or is no number) is the least
  integer; a \<^verbatim>\<open>uint32\<close> is the low half of the 64-bit conversion.
\<close>

definition i64_of_f64 :: "f64 \<Rightarrow> i64" where
  "i64_of_f64 x =
     (if IsNaN x \<or> IsInf x \<or> f64_trunc x < - (2 ^ 63) \<or> f64_trunc x \<ge> 2 ^ 63
      then word_of_int (- (2 ^ 63)) else word_of_int (f64_trunc x))"

definition u32_of_f64 :: "f64 \<Rightarrow> u32" where
  "u32_of_f64 x = ucast (i64_of_f64 x)"

section \<open>Arithmetic\<close>

definition f64_quiet :: "f64 \<Rightarrow> f64" where
  "f64_quiet x = x OR 0x0008000000000000"

definition f64_add :: "f64 \<Rightarrow> f64 \<Rightarrow> f64" where
  "f64_add x y =
     (if IsNaN x then f64_quiet x
      else if IsNaN y then f64_quiet y
      else if IsInf x then (if IsInf y \<and> f64_neg x \<noteq> f64_neg y then 0xFFF8000000000000 else x)
      else if IsInf y then y
      else let e = min (f64_scale x) (f64_scale y) in
        f64_round (f64_neg x \<and> f64_neg y)
          (f64_mant x * 2 ^ nat (f64_scale x - e) + f64_mant y * 2 ^ nat (f64_scale y - e)) e)"

definition f64_div :: "f64 \<Rightarrow> f64 \<Rightarrow> f64" where
  "f64_div x y =
     (let neg = (f64_neg x \<noteq> f64_neg y); s = (if neg then 2 ^ 63 else 0) in
      if IsNaN x then f64_quiet x
      else if IsNaN y then f64_quiet y
      else if (IsInf x \<and> IsInf y) \<or> (f64_mant x = 0 \<and> f64_mant y = 0) then 0xFFF8000000000000
      else if IsInf x \<or> f64_mant y = 0 then word_of_int (s + 2047 * 2 ^ 52)
      else if IsInf y \<or> f64_mant x = 0 then word_of_int s
      else
        let k = 55 + bitlen \<bar>f64_mant y\<bar>;
            n = \<bar>f64_mant x\<bar> * 2 ^ k; d = \<bar>f64_mant y\<bar>;
            m = 2 * (n div d) + (if n mod d = 0 then 0 else 1)
        in f64_round neg (if neg then - m else m) (f64_scale x - f64_scale y - int k - 1))"

section \<open>Exactness on integers\<close>

lemma bitlen_bounds: "0 < n \<Longrightarrow> 2 ^ (bitlen n - 1) \<le> n \<and> n < 2 ^ bitlen n \<and> 0 < bitlen n"
proof (induction n rule: bitlen.induct)
  case (1 n)
  then have b: "bitlen n = Suc (bitlen (n div 2))" by (simp add: bitlen.simps [of n])
  show ?case
  proof (cases "n div 2 \<le> 0")
    case True
    then have "n = 1" using 1(2) by simp
    then show ?thesis using b by (simp add: bitlen.simps [of 0])
  next
    case False
    then obtain k where k: "bitlen (n div 2) = Suc k" "2 ^ k \<le> n div 2" "n div 2 < 2 ^ Suc k"
      using 1 by (cases "bitlen (n div 2)") auto
    then show ?thesis
      using b by (simp; linarith)
  qed
qed


text \<open>An integer of at most 53 bits is represented exactly.\<close>

definition int_mant :: "int \<Rightarrow> int" where
  "int_mant a = a * 2 ^ (53 - bitlen a)"

lemma int_mant_bounds:
  assumes "0 < a" and "a < 2 ^ 53"
  shows "bitlen a \<le> 53" and "0 < bitlen a"
    and "2 ^ 52 \<le> int_mant a" and "int_mant a < 2 ^ 53"
proof -
  let ?L = "bitlen a"
  from bitlen_bounds [of a] assms(1)
  have b: "2 ^ (?L - 1) \<le> a" "a < 2 ^ ?L" and pos: "0 < ?L" by simp_all
  show "0 < ?L" by (rule pos)
  have "(2::int) ^ (?L - 1) < 2 ^ 53" using b(1) assms(2) by linarith
  then have "?L - 1 < 53" by (rule power_less_imp_less_exp [rotated]) simp
  then show L: "?L \<le> 53" by simp
  have "(2::int) ^ 52 = 2 ^ (?L - 1) * 2 ^ (53 - ?L)" "(2::int) ^ 53 = 2 ^ ?L * 2 ^ (53 - ?L)"
    using L pos by (simp_all flip: power_add)
  with b show "2 ^ 52 \<le> int_mant a" "int_mant a < 2 ^ 53"
    unfolding int_mant_def by (simp_all only: mult_right_mono mult_strict_right_mono
        zero_less_power zero_less_numeral zero_le_power zero_le_numeral)
qed

lemma f64_round_int:
  assumes "m \<noteq> 0" and "\<bar>m\<bar> < 2 ^ 53"
  shows "uint (f64_round s m 0) = (if m < 0 then 2 ^ 63 else 0) +
    ((int (bitlen \<bar>m\<bar>) + 1021) * 2 ^ 52 + int_mant \<bar>m\<bar>)"
proof -
  let ?L = "bitlen \<bar>m\<bar>" and ?M = "int_mant \<bar>m\<bar>"
  note b = int_mant_bounds [of "\<bar>m\<bar>"]
  have L: "?L \<le> 53" "0 < ?L" and M: "2 ^ 52 \<le> ?M" "?M < 2 ^ 53"
    using b assms by simp_all
  have q: "max (0 + int ?L - 53) (- 1074) = int ?L - 53" and n: "nat (0 - (int ?L - 53)) = 53 - ?L"
    using L by (simp_all add: nat_eq_iff of_nat_diff)
  let ?N = "(int ?L + 1021) * 2 ^ 52 + ?M"
  have "(int ?L + 1021) * 2 ^ 52 \<le> 1074 * 2 ^ 52" using L by simp
  then have N: "0 \<le> ?N" "?N < 2047 * 2 ^ 52" using M by simp_all
  have "f64_round s m 0 = word_of_int ((if m < 0 then 2 ^ 63 else 0) + ?N)"
    using assms(1) L N(2) unfolding f64_round_def Let_def q n
    by (simp add: int_mant_def min_def algebra_simps)
  moreover have "uint (word_of_int ((if m < 0 then 2 ^ 63 else 0) + ?N) :: f64) =
      (if m < 0 then 2 ^ 63 else 0) + ?N"
    using N by (simp only: uint_word_of_int) (rule mod_pos_pos_trivial; auto)
  ultimately show ?thesis by simp
qed

lemma div_mod_decomp:
  "0 \<le> r \<Longrightarrow> r < d \<Longrightarrow> (k * d + r) div d = k \<and> (k * d + r) mod d = (r :: int)"
  by simp

lemma f64_round_int_fields:
  fixes s :: bool
  assumes "m \<noteq> 0" and "\<bar>m\<bar> < 2 ^ 53"
  defines "x \<equiv> f64_round s m 0"
  shows "f64_neg x \<longleftrightarrow> m < 0"
    and "f64_exp x = int (bitlen \<bar>m\<bar>) + 1022"
    and "f64_frac x = int_mant \<bar>m\<bar> - 2 ^ 52"
    and "\<not> IsNaN x" and "\<not> IsInf x"
proof -
  let ?L = "int (bitlen \<bar>m\<bar>)" and ?M = "int_mant \<bar>m\<bar>"
  note b = int_mant_bounds [of "\<bar>m\<bar>"]
  have L: "?L \<le> 53" "0 < ?L" and M: "2 ^ 52 \<le> ?M" "?M < 2 ^ 53"
    using b assms by simp_all
  have u: "uint x = (if m < 0 then 2 ^ 63 else 0) + ((?L + 1022) * 2 ^ 52 + (?M - 2 ^ 52))"
    using f64_round_int [OF assms(1,2)] by (simp add: x_def algebra_simps)
  have bound: "0 \<le> (?L + 1022) * 2 ^ 52 + (?M - 2 ^ 52)" "(?L + 1022) * 2 ^ 52 + (?M - 2 ^ 52) < 2 ^ 63"
    using L M by simp_all
  then have a: "f64_abs_bits x = (?L + 1022) * 2 ^ 52 + (?M - 2 ^ 52)"
    unfolding f64_abs_bits_def u by (cases "m < 0") (simp_all only: if_True if_False mod_add_self1
        mod_pos_pos_trivial add_0)
  show "f64_neg x \<longleftrightarrow> m < 0" using bound unfolding f64_neg_def u by auto
  have "0 \<le> ?M - 2 ^ 52" "?M - 2 ^ 52 < 2 ^ 52" using M by simp_all
  from div_mod_decomp [OF this, of "?L + 1022"]
  show "f64_exp x = ?L + 1022" "f64_frac x = ?M - 2 ^ 52"
    unfolding f64_exp_def f64_frac_def a by blast+
  show "\<not> IsNaN x" "\<not> IsInf x"
    unfolding IsNaN_def IsInf_def a using L M by simp_all
qed

lemma f64_trunc_round_int:
  assumes "\<bar>m\<bar> < 2 ^ 53"
  shows "f64_trunc (f64_round s m 0) = m"
proof (cases "m = 0")
  case True
  then show ?thesis
    by (simp add: f64_round_def f64_trunc_def f64_mant_def f64_scale_def f64_exp_def f64_frac_def
        f64_abs_bits_def)
next
  case False
  let ?x = "f64_round s m 0" and ?L = "bitlen \<bar>m\<bar>"
  note b = int_mant_bounds [of "\<bar>m\<bar>"] and f = f64_round_int_fields [OF False assms, of s]
  have L: "?L \<le> 53" using b False assms by simp
  have mant: "f64_mant ?x = sgn m * int_mant \<bar>m\<bar>"
    using f False by (simp add: f64_mant_def sgn_if)
  have scale: "f64_scale ?x = int ?L - 53"
    using f by (simp add: f64_scale_def)
  have "sgn (f64_mant ?x) = sgn m" "\<bar>f64_mant ?x\<bar> = \<bar>m\<bar> * 2 ^ (53 - ?L)"
    using False unfolding mant int_mant_def by (simp_all add: sgn_mult abs_mult)
  moreover have "nat (- (int ?L - 53)) = 53 - ?L" using L by simp
  ultimately show ?thesis
    using L unfolding f64_trunc_def scale by (auto simp: sgn_mult mult_sgn_abs mant int_mant_def)
qed

lemma u32_f64_roundtrip [simp]: "u32_of_f64 (f64_of_u32 x) = x"
proof (cases "x = 0")
  case True
  then show ?thesis
    by (simp add: f64_of_u32_def f64_round_def u32_of_f64_def i64_of_f64_def IsNaN_def IsInf_def
        f64_trunc_def f64_mant_def f64_scale_def f64_exp_def f64_frac_def f64_abs_bits_def)
next
  case False
  have b: "0 < uint x" "uint x < 2 ^ 32"
    using False uint_bounded [of x] by (simp_all add: less_le uint_0_iff)
  then have "\<bar>uint x\<bar> < 2 ^ 53" by simp
  from f64_round_int_fields [OF _ this, of False] f64_trunc_round_int [OF this, of False] b
  have "u32_of_f64 (f64_of_u32 x) = ucast (ucast x :: u64)"
    by (simp add: u32_of_f64_def f64_of_u32_def i64_of_f64_def)
  also have "\<dots> = x" by (rule bit_word_eqI) (simp add: bit_simps)
  finally show ?thesis .
qed

lemma i64_f64_roundtrip:
  assumes "\<bar>sint x\<bar> < 2 ^ 53"
  shows "i64_of_f64 (f64_of_i64 x) = x"
proof (cases "x = 0")
  case True
  then show ?thesis
    by (simp add: f64_of_i64_def f64_round_def i64_of_f64_def IsNaN_def IsInf_def
        f64_trunc_def f64_mant_def f64_scale_def f64_exp_def f64_frac_def f64_abs_bits_def)
next
  case False
  then have "sint x \<noteq> 0" by (metis of_int_0 of_int_sint scast_id)
  from f64_round_int_fields [OF this assms, of False] f64_trunc_round_int [OF assms, of False] assms
  show ?thesis
    by (auto simp: f64_of_i64_def i64_of_f64_def)
qed

end
