(* ===== verification/Gorilla.thy ===== *)
theory Gorilla
  imports BitStream Float64
begin

text \<open>
  The gorilla time series of \<^verbatim>\<open>server/series/gorilla.go\<close>: the writer that compresses
  points of a time and up to five values into a bit stream, the iterator that reads them
  back.
\<close>

section \<open>Helpers of server/series/utils.go and the vendored bit counters\<close>

definition splitNano :: "i64 \<Rightarrow> u32 \<times> u32" where
  "splitNano t =
     (if sint t \<le> 2147483647 then (ucast t, 0)
      else (word_of_int (unix_sec t), word_of_int (unix_nsec t)))"

definition combineSecNano :: "u32 \<Rightarrow> u32 \<Rightarrow> i64" where
  "combineSecNano ts tns = unix_nano (uint ts) (uint tns)"

definition sameFloatVals :: "f64 \<Rightarrow> f64 \<Rightarrow> f64 \<Rightarrow> f64 \<Rightarrow> bool" where
  "sameFloatVals mn mx lst sm \<longleftrightarrow> f64_eq mn mx \<and> f64_eq mn lst \<and> f64_eq mn sm"

definition clz_step :: "nat \<Rightarrow> u64 \<times> u64 \<Rightarrow> u64 \<times> u64" where
  "clz_step k nx = (case nx of (n, x) \<Rightarrow>
     if drop_bit (64 - k) x = 0 then (n + of_nat k, push_bit k x) else (n, x))"

definition Clz :: "u64 \<Rightarrow> u64" where
  "Clz x =
     (case clz_step 2 (clz_step 4 (clz_step 8 (clz_step 16 (clz_step 32 (1, x))))) of
        (n, y) \<Rightarrow> n - drop_bit 63 y)"

definition ctz_step :: "nat \<Rightarrow> u64 \<times> u64 \<Rightarrow> u64 \<times> u64" where
  "ctz_step k nx = (case nx of (n, x) \<Rightarrow>
     if x AND mask k = 0 then (n + of_nat k, drop_bit k x) else (n, x))"

definition Ctz :: "u64 \<Rightarrow> u64" where
  "Ctz x =
     (if x = 0 then 64
      else case ctz_step 2 (ctz_step 4 (ctz_step 8 (ctz_step 16 (ctz_step 32 (0, x))))) of
        (n, y) \<Rightarrow> if y AND 1 = 0 then n + 1 else n)"

section \<open>The writer\<close>

record Options =
  NumValues :: i64
  HighTimeResolution :: bool
  Handler :: string

definition NewOptions :: "i64 \<Rightarrow> bool \<Rightarrow> Options" where
  "NewOptions vals high_res =
     \<lparr>NumValues = vals, HighTimeResolution = high_res, Handler = ''n/a''\<rparr>"

definition NewDefaultOptions :: Options where
  "NewDefaultOptions = \<lparr>NumValues = 5, HighTimeResolution = False, Handler = ''n/a''\<rparr>"

datatype series_error = NegativeTimeDelta | NotAGorillaSeries | SeriesIO io_error

record GorillaTimeSeries =
  curCount :: int
  fullResolution :: bool
  smartEncoding :: bool
  Ts :: u32
  Tms :: u32
  curTime :: u32
  curDelta :: u32
  curTimeMs :: f64
  leadingMs :: u8
  trailingMs :: u8
  numValues :: u8
  curVals :: "f64 list"
  leading :: "u8 list"
  trailing :: "u8 list"
  bw :: bitstream

definition tag_nano :: "u8 list" where "tag_nano = [0x67, 0x6f, 0x72, 0x6e]"
definition tag_second :: "u8 list" where "tag_second = [0x67, 0x6f, 0x72, 0x73]"
definition tag_nano_smart :: "u8 list" where "tag_nano_smart = [0x67, 0x6f, 0x72, 0x74]"

definition writeHeader :: "GorillaTimeSeries \<Rightarrow> GorillaTimeSeries option" where
  "writeHeader s0 = do {
     let t = (- 1 :: u8);
     let n = unat (numValues s0);
     let s = s0\<lparr>leadingMs := t, trailingMs := 0, leading := replicate n t,
       trailing := replicate n 0, curVals := replicate n 0\<rparr>;
     b1 \<leftarrow> WriteBytes (if fullResolution s then tag_nano_smart else tag_second) (bw s);
     b2 \<leftarrow> WriteBits (ucast (numValues s)) 8 b1;
     b3 \<leftarrow> WriteBits (ucast (Ts s)) 32 b2;
     if fullResolution s then do {
       b4 \<leftarrow> WriteBits (ucast (Tms s)) 32 b3;
       Some (s\<lparr>bw := b4, curTimeMs := f64_of_u32 (Tms s)\<rparr>) }
     else Some (s\<lparr>bw := b3\<rparr>) }"

definition NewGoriallaTimeSeries :: "i64 \<Rightarrow> Options \<Rightarrow> GorillaTimeSeries option" where
  "NewGoriallaTimeSeries t0 options =
     (case splitNano t0 of (ts, tms) \<Rightarrow>
        writeHeader \<lparr>curCount = 0, fullResolution = HighTimeResolution options,
          smartEncoding = True, Ts = ts, Tms = tms, curTime = 0, curDelta = 0, curTimeMs = 0,
          leadingMs = 0, trailingMs = 0, numValues = ucast (NumValues options),
          curVals = [], leading = [], trailing = [],
          bw = \<lparr>stream = [], count = 0, bitsWritten = 0, bitsRead = 0\<rparr>\<rparr>)"

definition setFinished :: "bitstream \<Rightarrow> bitstream option" where
  "setFinished b = do {
     b1 \<leftarrow> WriteBits 0x0f 4 b;
     b2 \<leftarrow> WriteBits 0xffffffff 32 b1;
     WriteBit False b2 }"

definition Finish :: "GorillaTimeSeries \<Rightarrow> GorillaTimeSeries option" where
  "Finish s = do { b \<leftarrow> setFinished (bw s); Some (s\<lparr>bw := b\<rparr>) }"

definition series_Bytes :: "GorillaTimeSeries \<Rightarrow> u8 list option" where
  "series_Bytes s = do { bb \<leftarrow> setFinished (Clone (bw s)); Some (Bytes bb) }"

definition StartTime :: "GorillaTimeSeries \<Rightarrow> i64" where
  "StartTime s = combineSecNano (Ts s) (Tms s)"

definition LastTime :: "GorillaTimeSeries \<Rightarrow> i64" where
  "LastTime s = combineSecNano (curTime s) (u32_of_f64 (curTimeMs s))"

definition series_Copy :: "GorillaTimeSeries \<Rightarrow> GorillaTimeSeries" where
  "series_Copy s = s\<lparr>bw := Clone (bw s)\<rparr>"

definition series_Name :: "GorillaTimeSeries \<Rightarrow> string" where
  "series_Name s = ''gorilla''"

definition HighResolution :: "GorillaTimeSeries \<Rightarrow> bool" where
  "HighResolution s = fullResolution s"

definition series_Count :: "GorillaTimeSeries \<Rightarrow> int" where
  "series_Count s = curCount s"

definition series_Len :: "GorillaTimeSeries \<Rightarrow> int" where
  "series_Len s = Len (bw s)"

definition series_MarshalBinary :: "GorillaTimeSeries \<Rightarrow> u8 list option" where
  "series_MarshalBinary s = series_Bytes s"

definition series_UnmarshalBinary :: "u8 list \<Rightarrow> GorillaTimeSeries \<Rightarrow> GorillaTimeSeries" where
  "series_UnmarshalBinary data s = s\<lparr>bw := SetStream data (bw s)\<rparr>"

definition compressValue ::
  "f64 \<Rightarrow> f64 \<Rightarrow> u8 \<Rightarrow> u8 \<Rightarrow> bitstream \<Rightarrow> (u8 \<times> u8 \<times> bitstream) option" where
  "compressValue curV newV lead trail b = do {
     let vDelta = newV XOR curV;
     if vDelta = 0 then do { b1 \<leftarrow> WriteBit False b; Some (lead, trail, b1) }
     else do {
       b1 \<leftarrow> WriteBit True b;
       let n_leading0 = (ucast (Clz vDelta) :: u8);
       let n_trailing = (ucast (Ctz vDelta) :: u8);
       let n_leading = (if n_leading0 \<ge> 32 then 31 else n_leading0);
       if lead \<noteq> - 1 \<and> n_leading \<ge> lead \<and> n_trailing \<ge> trail then do {
         b2 \<leftarrow> WriteBit False b1;
         b3 \<leftarrow> WriteBits (drop_bit (unat trail) vDelta) (64 - uint lead - uint trail) b2;
         Some (lead, trail, b3) }
       else do {
         b2 \<leftarrow> WriteBit True b1;
         b3 \<leftarrow> WriteBits (ucast n_leading) 5 b2;
         let sigbits = 64 - n_leading - n_trailing;
         b4 \<leftarrow> WriteBits (ucast sigbits) 6 b3;
         b5 \<leftarrow> WriteBits (drop_bit (unat n_trailing) vDelta) (uint sigbits) b4;
         Some (n_leading, n_trailing, b5) } } }"

definition addValue :: "nat \<Rightarrow> f64 \<Rightarrow> bool \<Rightarrow> GorillaTimeSeries \<Rightarrow> GorillaTimeSeries option" where
  "addValue idx v isfirst s =
     (if isfirst then do {
        vs \<leftarrow> slice_set (curVals s) idx v;
        b \<leftarrow> WriteBits v 64 (bw s);
        Some (s\<lparr>curVals := vs, bw := b\<rparr>) }
      else do {
        cur \<leftarrow> slice_get (curVals s) idx;
        ld \<leftarrow> slice_get (leading s) idx;
        tr \<leftarrow> slice_get (trailing s) idx;
        (ld', tr', b) \<leftarrow> compressValue cur v ld tr (bw s);
        lds \<leftarrow> slice_set (leading s) idx ld';
        trs \<leftarrow> slice_set (trailing s) idx tr';
        vs \<leftarrow> slice_set (curVals s) idx v;
        Some (s\<lparr>leading := lds, trailing := trs, curVals := vs, bw := b\<rparr>) })"

definition write_dod :: "i32 \<Rightarrow> bitstream \<Rightarrow> bitstream option" where
  "write_dod dod b =
     (if dod = 0 then WriteBit False b
      else if - 63 \<le> sint dod \<and> sint dod \<le> 64 then do {
        b1 \<leftarrow> WriteBits 0x02 2 b; WriteBits (scast dod) 7 b1 }
      else if - 255 \<le> sint dod \<and> sint dod \<le> 256 then do {
        b1 \<leftarrow> WriteBits 0x06 3 b; WriteBits (scast dod) 9 b1 }
      else if - 2047 \<le> sint dod \<and> sint dod \<le> 2048 then do {
        b1 \<leftarrow> WriteBits 0x0e 4 b; WriteBits (scast dod) 12 b1 }
      else do {
        b1 \<leftarrow> WriteBits 0x0f 4 b; WriteBits (scast dod) 32 b1 })"

text \<open>
  A method that may return an error gives the error, if any, with the state it leaves.
\<close>

definition AddTime :: "i64 \<Rightarrow> GorillaTimeSeries \<Rightarrow> (series_error option \<times> GorillaTimeSeries) option" where
  "AddTime t s =
     (case splitNano t of (ut, utms) \<Rightarrow>
      if curTime s = 0 then do {
        let delta = ut - Ts s;
        b1 \<leftarrow> WriteBits (ucast delta) 14 (bw s);
        let s1 = s\<lparr>curTime := ut, curDelta := delta, bw := b1\<rparr>;
        if fullResolution s then do {
          (ld, tr, b2) \<leftarrow> compressValue (curTimeMs s1) (f64_of_u32 utms)
            (leadingMs s1) (trailingMs s1) b1;
          Some (None, s1\<lparr>leadingMs := ld, trailingMs := tr, bw := b2,
            curTimeMs := f64_of_u32 utms\<rparr>) }
        else Some (None, s1) }
      else
        let tDelta = ut - curTime s in
        if tDelta < 0 then Some (Some NegativeTimeDelta, s)
        else do {
          b1 \<leftarrow> write_dod (tDelta - curDelta s) (bw s);
          let s1 = s\<lparr>curDelta := tDelta, curTime := ut, bw := b1\<rparr>;
          if \<not> fullResolution s then Some (None, s1)
          else do {
            (ld, tr, b2) \<leftarrow> compressValue (curTimeMs s1) (f64_of_u32 utms)
              (leadingMs s1) (trailingMs s1) b1;
            Some (None, s1\<lparr>leadingMs := ld, trailingMs := tr, bw := b2,
              curTimeMs := f64_of_u32 utms\<rparr>) } })"

fun addValues :: "(nat \<times> f64) list \<Rightarrow> bool \<Rightarrow> GorillaTimeSeries \<Rightarrow> GorillaTimeSeries option" where
  "addValues [] start s = Some s"
| "addValues ((i, v) # vs) start s = do { s1 \<leftarrow> addValue i v start s; addValues vs start s1 }"

definition AddPoint ::
  "i64 \<Rightarrow> f64 \<Rightarrow> f64 \<Rightarrow> f64 \<Rightarrow> f64 \<Rightarrow> i64 \<Rightarrow> GorillaTimeSeries \<Rightarrow>
    (series_error option \<times> GorillaTimeSeries) option" where
  "AddPoint t mn mx lst sm cnt s = do {
     let start = (curTime s = 0);
     (err, s1) \<leftarrow> AddTime t s;
     if err \<noteq> None then Some (err, s1)
     else if smartEncoding s1 \<and> numValues s1 > 3 \<and> (cnt = 1 \<or> sameFloatVals mn mx lst sm) then do {
       b \<leftarrow> WriteBit False (bw s1);
       s2 \<leftarrow> addValue 3 sm start (s1\<lparr>bw := b\<rparr>);
       Some (None, s2\<lparr>curCount := curCount s2 + 1\<rparr>) }
     else do {
       s2 \<leftarrow> (if smartEncoding s1 \<and> numValues s1 > 3
              then do { b \<leftarrow> WriteBit True (bw s1); Some (s1\<lparr>bw := b\<rparr>) } else Some s1);
       s3 \<leftarrow> addValues
         (if numValues s2 = 5 then [(0, mn), (1, mx), (2, lst), (3, sm), (4, f64_of_i64 cnt)]
          else if numValues s2 = 4 then [(0, mn), (1, mx), (2, lst), (3, sm)]
          else if numValues s2 = 3 then [(0, mn), (1, mx), (2, lst)]
          else if numValues s2 = 2 then [(0, mn), (1, mx)]
          else [(0, mn)]) start s2;
       Some (None, s3\<lparr>curCount := curCount s3 + 1\<rparr>) } }"


section \<open>The iterator\<close>

record GorillaIter =
  it_Ts :: u32
  it_fullResolution :: bool
  it_smartEncoding :: bool
  curSmartEnc :: bool
  it_curTime :: u32
  it_curVals :: "f64 list"
  it_numValues :: u8
  it_curTimeMs :: f64
  it_leadingMs :: u8
  it_trailingMs :: u8
  br :: bitstream
  it_leading :: "u8 list"
  it_trailing :: "u8 list"
  it_start :: bool
  finished :: bool
  it_tDelta :: u32
  it_err :: "io_error option"

definition NewGorillaIterFromBStream :: "bitstream \<Rightarrow> series_error + GorillaIter" where
  "NewGorillaIterFromBStream b0 =
     (case ReadBytes 4 (SetCount 8 b0) of
        (Inl e, _) \<Rightarrow> Inl (SeriesIO e)
      | (Inr head, b1) \<Rightarrow>
      if head \<noteq> tag_nano \<and> head \<noteq> tag_second \<and> head \<noteq> tag_nano_smart
      then Inl NotAGorillaSeries
      else let fullrez = (head \<noteq> tag_second) in
      (case ReadBits 8 b1 of
        (Inl e, _) \<Rightarrow> Inl (SeriesIO e)
      | (Inr numvals, b2) \<Rightarrow>
      (case ReadBits 32 b2 of
        (Inl e, _) \<Rightarrow> Inl (SeriesIO e)
      | (Inr t0, b3) \<Rightarrow>
      (let n = unat (ucast numvals :: u8);
           it = \<lparr>it_Ts = ucast t0, it_fullResolution = fullrez, it_smartEncoding = True,
             curSmartEnc = False, it_curTime = 0, it_curVals = replicate n 0,
             it_numValues = ucast numvals, it_curTimeMs = 0, it_leadingMs = 0, it_trailingMs = 0,
             br = b3, it_leading = replicate n 0, it_trailing = replicate n 0,
             it_start = True, finished = False, it_tDelta = 0, it_err = None\<rparr>
       in if fullrez then
            (case ReadBits 32 b3 of
               (Inl e, _) \<Rightarrow> Inl (SeriesIO e)
             | (Inr v, b4) \<Rightarrow> Inr (it\<lparr>br := b4, it_curTimeMs := f64_of_u64 v\<rparr>))
          else Inr it))))"

definition NewGorillaIterFromBytes :: "u8 list \<Rightarrow> series_error + GorillaIter" where
  "NewGorillaIterFromBytes b = NewGorillaIterFromBStream (NewBReader b)"

text \<open>Reads of the iterator's stream, and how a failed read is recorded.\<close>

definition it_bit :: "GorillaIter \<Rightarrow> (io_error + bool) \<times> GorillaIter" where
  "it_bit it = (case ReadBit (br it) of (r, b) \<Rightarrow> (r, it\<lparr>br := b\<rparr>))"

definition it_bits :: "int \<Rightarrow> GorillaIter \<Rightarrow> (io_error + u64) \<times> GorillaIter" where
  "it_bits n it = (case ReadBits n (br it) of (r, b) \<Rightarrow> (r, it\<lparr>br := b\<rparr>))"

definition fail :: "io_error \<Rightarrow> GorillaIter \<Rightarrow> GorillaIter" where
  "fail e it = it\<lparr>it_err := Some e\<rparr>"

definition uncompressValue ::
  "f64 \<Rightarrow> u8 \<Rightarrow> u8 \<Rightarrow> GorillaIter \<Rightarrow> (bool \<times> f64 \<times> u8 \<times> u8) \<times> GorillaIter" where
  "uncompressValue curV o_leading o_trailing it =
     (if it_start it then
        (case it_bits 64 it of
           (Inl e, it1) \<Rightarrow> ((False, 0, o_leading, o_trailing), fail e it1)
         | (Inr tbits, it1) \<Rightarrow> ((True, tbits, o_leading, o_trailing), it1))
      else
        (case it_bit it of
           (Inl e, it1) \<Rightarrow> ((False, curV, o_leading, o_trailing), fail e it1)
         | (Inr False, it1) \<Rightarrow> ((True, curV, o_leading, o_trailing), it1)
         | (Inr True, it1) \<Rightarrow>
        (case it_bit it1 of
           (Inl e, it2) \<Rightarrow> ((False, curV, o_leading, o_trailing), fail e it2)
         | (Inr reset, it2) \<Rightarrow>
        (case (if reset then
                 (case it_bits 5 it2 of
                    (Inl e, it3) \<Rightarrow> (Inl e, it3)
                  | (Inr ld, it3) \<Rightarrow>
                      (case it_bits 6 it3 of
                         (Inl e, it4) \<Rightarrow> (Inl e, it4)
                       | (Inr sig, it4) \<Rightarrow>
                           (let mbits = (if (ucast sig :: u8) = 0 then 64 else ucast sig) in
                            (Inr (ucast ld, 64 - ucast ld - mbits), it4))))
               else (Inr (o_leading, o_trailing), it2)) of
           (Inl e, it4) \<Rightarrow> ((False, 0, o_leading, o_trailing), fail e it4)
         | (Inr (ld, tr), it4) \<Rightarrow>
             (case it_bits (uint (64 - ld - tr :: u8)) it4 of
                (Inl e, it5) \<Rightarrow> ((False, curV, ld, tr), fail e it5)
              | (Inr b, it5) \<Rightarrow>
                  ((True, curV XOR push_bit (unat tr) b, ld, tr), it5))))))"

fun read_prefix :: "nat \<Rightarrow> u8 \<Rightarrow> GorillaIter \<Rightarrow> u8 option \<times> GorillaIter" where
  "read_prefix 0 d it = (Some d, it)"
| "read_prefix (Suc n) d it =
     (case it_bit it of
        (Inl e, it1) \<Rightarrow> (None, fail e it1)
      | (Inr False, it1) \<Rightarrow> (Some (push_bit 1 d), it1)
      | (Inr True, it1) \<Rightarrow> read_prefix n (push_bit 1 d OR 1) it1)"

definition read_dod :: "u8 \<Rightarrow> GorillaIter \<Rightarrow> i32 option \<times> GorillaIter" where
  "read_dod d it =
     (if d = 0x0f then
        (case it_bits 32 it of
           (Inl e, it1) \<Rightarrow> (None, fail e it1)
         | (Inr b, it1) \<Rightarrow>
             if b = 0xffffffff then (None, it1\<lparr>finished := True\<rparr>) else (Some (ucast b), it1))
      else
        let sz = (if d = 0x02 then 7 else if d = 0x06 then 9 else if d = 0x0e then 12 else 0) in
        if sz \<noteq> 0 then
          (case it_bits (int sz) it of
             (Inl e, it1) \<Rightarrow> (None, fail e it1)
           | (Inr b, it1) \<Rightarrow>
               (Some (ucast (if b > push_bit (sz - 1) 1 then b - push_bit sz 1 else b)), it1))
        else (Some 0, it))"

definition readTimeDelta :: "GorillaIter \<Rightarrow> bool \<times> GorillaIter" where
  "readTimeDelta it =
     (if it_start it then
        (case it_bits 14 it of
           (Inl e, it1) \<Rightarrow> (False, fail e it1)
         | (Inr tDelta, it1) \<Rightarrow>
             let it2 = it1\<lparr>it_tDelta := ucast tDelta, it_curTime := it_Ts it1 + ucast tDelta\<rparr> in
             if it_fullResolution it2 then
               (case uncompressValue (it_curTimeMs it2) (it_leadingMs it2) (it_trailingMs it2)
                       (it2\<lparr>it_start := False\<rparr>) of
                  ((ok, v, ld, tr), it3) \<Rightarrow>
                    (ok, it3\<lparr>it_curTimeMs := v, it_leadingMs := ld, it_trailingMs := tr,
                      it_start := True\<rparr>))
             else (True, it2))
      else
        (case read_prefix 4 0 it of
           (None, it1) \<Rightarrow> (False, it1)
         | (Some d, it1) \<Rightarrow>
        (case read_dod d it1 of
           (None, it2) \<Rightarrow> (False, it2)
         | (Some dod, it2) \<Rightarrow>
        let tDelta = it_tDelta it2 + dod;
            it3 = it2\<lparr>it_tDelta := tDelta, it_curTime := it_curTime it2 + tDelta\<rparr> in
        if \<not> it_fullResolution it3 then (True, it3)
        else
          (case uncompressValue (it_curTimeMs it3) (it_leadingMs it3) (it_trailingMs it3) it3 of
             ((ok, v, ld, tr), it4) \<Rightarrow>
               (ok, it4\<lparr>it_curTimeMs := v, it_leadingMs := ld, it_trailingMs := tr\<rparr>)))))"

definition readValue :: "nat \<Rightarrow> GorillaIter \<Rightarrow> (bool \<times> GorillaIter) option" where
  "readValue idx it = do {
     cur \<leftarrow> slice_get (it_curVals it) idx;
     ld \<leftarrow> slice_get (it_leading it) idx;
     tr \<leftarrow> slice_get (it_trailing it) idx;
     (case uncompressValue cur ld tr it of
        ((ok, v, ld', tr'), it1) \<Rightarrow> do {
          vs \<leftarrow> slice_set (it_curVals it1) idx v;
          lds \<leftarrow> slice_set (it_leading it1) idx ld';
          trs \<leftarrow> slice_set (it_trailing it1) idx tr';
          Some (ok, it1\<lparr>it_curVals := vs, it_leading := lds, it_trailing := trs\<rparr>) }) }"

fun readValues :: "nat list \<Rightarrow> GorillaIter \<Rightarrow> (bool \<times> GorillaIter) option" where
  "readValues [] it = Some (True, it)"
| "readValues (i # is) it = do {
     (ok, it1) \<leftarrow> readValue i it;
     if ok then readValues is it1 else Some (False, it1) }"

definition Next :: "GorillaIter \<Rightarrow> (bool \<times> GorillaIter) option" where
  "Next it =
     (if it_err it \<noteq> None \<or> finished it then Some (False, it)
      else
        (case readTimeDelta it of
           (False, it1) \<Rightarrow> Some (False, it1)
         | (True, it1) \<Rightarrow>
        (case (if it_smartEncoding it1 then it_bit it1 else (Inr True, it1)) of
           (Inl e, it2) \<Rightarrow> Some (False, fail e (it2\<lparr>curSmartEnc := False\<rparr>))
         | (Inr smart, it2) \<Rightarrow> do {
             let it3 = it2\<lparr>curSmartEnc := smart\<rparr>;
             (ok, it4) \<leftarrow> readValues
               (if \<not> smart then [3] else [0..<unat (it_numValues it3)]) it3;
             if ok then Some (True, it4\<lparr>it_start := False\<rparr>) else Some (False, it4) })))"

type_synonym point = "i64 \<times> f64 \<times> f64 \<times> f64 \<times> f64 \<times> i64"

definition Values :: "GorillaIter \<Rightarrow> point option" where
  "Values it = do {
     let t = combineSecNano (it_curTime it) (u32_of_f64 (it_curTimeMs it));
     if \<not> curSmartEnc it then do {
       v \<leftarrow> slice_get (it_curVals it) 3;
       Some (t, v, v, v, v, 1) }
     else do {
       v0 \<leftarrow> slice_get (it_curVals it) 0;
       v1 \<leftarrow> slice_get (it_curVals it) 1;
       v2 \<leftarrow> slice_get (it_curVals it) 2;
       v3 \<leftarrow> slice_get (it_curVals it) 3;
       v4 \<leftarrow> slice_get (it_curVals it) 4;
       Some (t, v0, v1, v2, v3, i64_of_f64 v4) } }"

definition Iter :: "GorillaTimeSeries \<Rightarrow> (series_error + GorillaIter) option" where
  "Iter s = do { b \<leftarrow> series_Bytes s; Some (NewGorillaIterFromBytes b) }"

definition iter_Error :: "GorillaIter \<Rightarrow> io_error option" where
  "iter_Error it = it_err it"

end
