(* ===== verification/Gorilla_Format.thy ===== *)
theory Gorilla_Format
  imports Gorilla
begin

text \<open>
  The gorilla bit format as a specification, the writer as an implementation of it, and the
  iterator as its inverse.
\<close>

section \<open>The bit counters\<close>

text \<open>The counted leading (trailing) bits are zero; that is all the compression relies on.\<close>

definition clz_inv :: "u64 \<Rightarrow> nat \<Rightarrow> u64 \<times> u64 \<Rightarrow> bool" where
  "clz_inv x0 m nx \<longleftrightarrow> (case nx of (n, x) \<Rightarrow>
     x = push_bit (unat n - 1) x0 \<and> (\<forall>i\<ge>64 - (unat n - 1). \<not> bit x0 i)
     \<and> 0 < unat n \<and> unat n \<le> m)"

lemma clz_step_inv:
  assumes "clz_inv x0 m nx" and "m + k \<le> 64"
  shows "clz_inv x0 (m + k) (clz_step k nx)"
proof (cases nx)
  case (Pair n x)
  with assms have x: "x = push_bit (unat n - 1) x0" and z: "\<forall>i\<ge>64 - (unat n - 1). \<not> bit x0 i"
    and n: "0 < unat n" "unat n \<le> m" by (auto simp: clz_inv_def)
  show ?thesis
  proof (cases "drop_bit (64 - k) x = 0")
    case True
    have un: "unat (n + of_nat k) = unat n + k"
      using assms(2) n by (simp add: unat_word_ariths unat_of_nat)
    have "\<not> bit x0 i" if "64 - (unat n + k - 1) \<le> i" for i
    proof (cases "64 - (unat n - 1) \<le> i")
      case False
      have "\<not> bit (drop_bit (64 - k) x) (i + (unat n - 1) - (64 - k))"
        using True by simp
      with False that x n assms(2) show ?thesis by (auto simp: bit_simps)
    qed (use z in simp)
    with True Pair un x n show ?thesis
      by (auto simp: clz_inv_def clz_step_def add.commute)
  qed (use Pair x z n in \<open>auto simp: clz_inv_def clz_step_def\<close>)
qed

lemma Clz_sound:
  assumes "64 - unat (Clz x) \<le> i"
  shows "\<not> bit x i"
proof -
  obtain n y where y: "clz_step 2 (clz_step 4 (clz_step 8 (clz_step 16 (clz_step 32 (1, x))))) = (n, y)"
    by fastforce
  have "clz_inv x 1 (1, x)"
    by (auto simp: clz_inv_def dest: bit_imp_le_length)
  then have "clz_inv x 63 (n, y)"
    using clz_step_inv [of x 1 _ 32] clz_step_inv [of x 33 _ 16] clz_step_inv [of x 49 _ 8]
      clz_step_inv [of x 57 _ 4] clz_step_inv [of x 61 _ 2] by (simp flip: y)
  then have *: "y = push_bit (unat n - 1) x" "\<forall>i\<ge>64 - (unat n - 1). \<not> bit x i"
    "0 < unat n" "unat n \<le> 63" by (auto simp: clz_inv_def)
  have clz: "Clz x = n - of_bool (bit y 63)"
    using y drop_bit_63_eq_1 [of y] drop_bit_63_of_bool [of y] by (simp add: Clz_def)
  show ?thesis
  proof (cases "bit y 63")
    case True
    with clz *(3) have "unat (Clz x) = unat n - 1"
      by (simp add: unat_minus_one unat_gt_0)
    with *(2) assms show ?thesis by simp
  next
    case False
    with *(1,3,4) have "\<not> bit x (64 - unat n)" by (auto simp: bit_simps)
    moreover have "64 - unat n = i \<or> 64 - (unat n - 1) \<le> i" using assms False clz *(3) by auto
    ultimately show ?thesis using *(2) by auto
  qed
qed

definition ctz_inv :: "u64 \<Rightarrow> nat \<Rightarrow> u64 \<times> u64 \<Rightarrow> bool" where
  "ctz_inv x0 m nx \<longleftrightarrow> (case nx of (n, x) \<Rightarrow>
     x = drop_bit (unat n) x0 \<and> (\<forall>i<unat n. \<not> bit x0 i) \<and> unat n \<le> m)"

lemma ctz_step_inv:
  assumes "ctz_inv x0 m nx" and "m + k \<le> 64"
  shows "ctz_inv x0 (m + k) (ctz_step k nx)"
proof (cases nx)
  case (Pair n x)
  with assms have x: "x = drop_bit (unat n) x0" and z: "\<forall>i<unat n. \<not> bit x0 i"
    and n: "unat n \<le> m" by (auto simp: ctz_inv_def)
  show ?thesis
  proof (cases "x AND mask k = 0")
    case True
    have un: "unat (n + of_nat k) = unat n + k"
      using assms(2) n by (simp add: unat_word_ariths unat_of_nat)
    have "\<not> bit x0 i" if "i < unat n + k" for i
    proof (cases "i < unat n")
      case False
      have "\<not> bit (x AND mask k) (i - unat n)" using True by simp
      with False that x show ?thesis
        by (auto simp: bit_simps dest: bit_imp_le_length)
    qed (use z in simp)
    with True Pair un x n show ?thesis
      by (auto simp: ctz_inv_def ctz_step_def add.commute)
  qed (use Pair x z n in \<open>auto simp: ctz_inv_def ctz_step_def\<close>)
qed

lemma Ctz_sound:
  assumes "i < unat (Ctz x)"
  shows "\<not> bit x i"
proof (cases "x = 0")
  case False
  obtain n y where y: "ctz_step 2 (ctz_step 4 (ctz_step 8 (ctz_step 16 (ctz_step 32 (0, x))))) = (n, y)"
    by fastforce
  have "ctz_inv x 0 (0, x)"
    by (auto simp: ctz_inv_def)
  then have "ctz_inv x 62 (n, y)"
    using ctz_step_inv [of x 0 _ 32] ctz_step_inv [of x 32 _ 16] ctz_step_inv [of x 48 _ 8]
      ctz_step_inv [of x 56 _ 4] ctz_step_inv [of x 60 _ 2] by (simp flip: y)
  then have *: "y = drop_bit (unat n) x" "\<forall>i<unat n. \<not> bit x i" "unat n \<le> 62"
    by (auto simp: ctz_inv_def)
  have ctz: "Ctz x = (if bit y 0 then n else n + 1)"
    using y False by (simp add: Ctz_def and_one_eq bit_0 flip: even_iff_mod_2_eq_zero)
  show ?thesis
  proof (cases "bit y 0")
    case True
    with * ctz assms show ?thesis by simp
  next
    case n0: False
    have "unat (n + 1) = unat n + 1" using *(3) by (simp add: unat_word_ariths)
    with n0 ctz assms have "i < unat n \<or> i = unat n" by auto
    with n0 * show ?thesis by (auto simp: bit_simps)
  qed
qed simp

lemma Clz_Ctz_bound:
  assumes "x \<noteq> 0"
  shows "unat (Clz x) + unat (Ctz x) \<le> 63"
proof -
  from assms obtain i where i: "bit x i" by (auto simp: bit_eq_iff)
  have "i < 64 - unat (Clz x)" "unat (Ctz x) \<le> i"
    using i Clz_sound [of x i] Ctz_sound [of i x] by linarith+
  then show ?thesis by simp
qed


section \<open>The format of a value\<close>

text \<open>
  A value is coded against the one before it: the XOR of the two, in a window that leaves
  out leading and trailing zero bits. The window of the value before is used again when the
  bits fit into it. The leading count \<open>- 1\<close> (255) marks that there is no window yet.
\<close>

type_synonym window = "u8 \<times> u8"

definition value_lead :: "u64 \<Rightarrow> u8" where
  "value_lead d = (let c = ucast (Clz d) in if c \<ge> 32 then 31 else c)"

definition value_trail :: "u64 \<Rightarrow> u8" where
  "value_trail d = ucast (Ctz d)"

definition reuses :: "u64 \<Rightarrow> window \<Rightarrow> bool" where
  "reuses d w \<longleftrightarrow> fst w \<noteq> - 1 \<and> value_lead d \<ge> fst w \<and> value_trail d \<ge> snd w"

definition value_window :: "u64 \<Rightarrow> window \<Rightarrow> window" where
  "value_window d w = (if d = 0 \<or> reuses d w then w else (value_lead d, value_trail d))"

definition window_bits :: "u64 \<Rightarrow> window \<Rightarrow> bool list" where
  "window_bits d w = word_bits (64 - unat (fst w) - unat (snd w)) (drop_bit (unat (snd w)) d)"

definition value_bits :: "u64 \<Rightarrow> window \<Rightarrow> bool list" where
  "value_bits d w =
     (if d = 0 then [False]
      else if reuses d w then [True, False] @ window_bits d w
      else [True, True] @ word_bits 5 (ucast (value_lead d) :: u64)
        @ word_bits 6 (ucast (64 - value_lead d - value_trail d) :: u64)
        @ window_bits d (value_lead d, value_trail d))"

definition window_ok :: "window \<Rightarrow> bool" where
  "window_ok w \<longleftrightarrow> fst w = - 1 \<or> (unat (fst w) \<le> 31 \<and> unat (fst w) + unat (snd w) \<le> 63)"

definition synced :: "window \<Rightarrow> window \<Rightarrow> bool" where
  "synced w w' \<longleftrightarrow> fst w = - 1 \<or> w' = w"

lemma value_lead_trail:
  assumes "d \<noteq> 0"
  shows "unat (value_lead d) \<le> 31" "unat (value_lead d) \<le> unat (Clz d)"
    and "unat (value_trail d) = unat (Ctz d)" and "unat (value_lead d) + unat (value_trail d) \<le> 63"
proof -
  have b: "unat (Clz d) + unat (Ctz d) \<le> 63" by (rule Clz_Ctz_bound [OF assms])
  then have c: "unat (ucast (Clz d) :: u8) = unat (Clz d)" "unat (ucast (Ctz d) :: u8) = unat (Ctz d)"
    by (simp_all add: unsigned_ucast_eq take_bit_nat_eq_self)
  show "unat (value_trail d) = unat (Ctz d)" using c by (simp add: value_trail_def)
  show "unat (value_lead d) \<le> 31" "unat (value_lead d) \<le> unat (Clz d)"
    using c(1) by (auto simp: value_lead_def Let_def word_le_nat_alt)
  with b c show "unat (value_lead d) + unat (value_trail d) \<le> 63"
    by (simp add: value_trail_def)
qed

lemma window_ok_value: "window_ok w \<Longrightarrow> window_ok (value_window d w)"
  using value_lead_trail [of d] by (auto simp: window_ok_def value_window_def)

lemma window_recover:
  assumes "\<And>i. 64 - l \<le> i \<Longrightarrow> \<not> bit d i" and "\<And>i. i < t \<Longrightarrow> \<not> bit d i" and "l + t \<le> 64"
  shows "push_bit t (push_bits 0 (word_bits (64 - l - t) (drop_bit t d))) = (d :: u64)"
proof -
  have "push_bit t (take_bit (64 - l - t) (drop_bit t d)) = d"
  proof (rule bit_word_eqI)
    fix n assume "n < LENGTH(64)"
    then show "bit (push_bit t (take_bit (64 - l - t) (drop_bit t d))) n = bit d n"
      using assms(1) [of n] assms(2) [of n] assms(3)
      by (cases "n < t"; cases "64 - l \<le> n") (auto simp: bit_simps)
  qed
  then show ?thesis by (simp add: push_bits_word_bits)
qed

text \<open>What the window keeps of a value is all of it.\<close>

lemma window_bits_recover:
  assumes "d \<noteq> 0" and "reuses d w \<or> w = (value_lead d, value_trail d)" and "window_ok w"
  shows "push_bit (unat (snd w)) (push_bits 0 (window_bits d w)) = d"
    and "unat (fst w) + unat (snd w) \<le> 63"
proof -
  note v = value_lead_trail [OF assms(1)]
  have le: "unat (fst w) \<le> unat (Clz d)" "unat (snd w) \<le> unat (Ctz d)"
    using assms(2) v by (auto simp: reuses_def word_le_nat_alt)
  with Clz_Ctz_bound [OF assms(1)] show sum: "unat (fst w) + unat (snd w) \<le> 63" by simp
  show "push_bit (unat (snd w)) (push_bits 0 (window_bits d w)) = d"
    unfolding window_bits_def
  proof (rule window_recover)
    show "\<not> bit d i" if "64 - unat (fst w) \<le> i" for i
      using that le by (intro Clz_sound) simp
    show "\<not> bit d i" if "i < unat (snd w)" for i
      using that le by (intro Ctz_sound) simp
  qed (use sum in simp)
qed

text \<open>The two ways the writer codes a value that changed.\<close>

lemma emits_reuse:
  assumes "unat l + unat t \<le> 63"
  shows "bw.emits (\<lambda>b. do { b1 \<leftarrow> WriteBit True b; b2 \<leftarrow> WriteBit False b1;
      WriteBits (drop_bit (unat t) d) (64 - uint l - uint t) b2 })
    ([True] @ [False] @ window_bits d (l, t))"
proof -
  have len: "64 - uint l - uint t = int (64 - unat l - unat t)"
    using assms by (simp add: of_nat_diff)
  show ?thesis
    unfolding len window_bits_def fst_conv snd_conv
    by (rule bw.emits_bind [OF bw.emits_bit bw.emits_bind [OF bw.emits_bit bw.emits_word]]) simp
qed

lemma emits_fresh:
  assumes "unat l + unat t \<le> 63"
  shows "bw.emits (\<lambda>b. do { b1 \<leftarrow> WriteBit True b; b2 \<leftarrow> WriteBit True b1;
      b3 \<leftarrow> WriteBits (ucast l) 5 b2; b4 \<leftarrow> WriteBits (ucast (64 - l - t)) 6 b3;
      WriteBits (drop_bit (unat t) d) (uint (64 - l - t)) b4 })
    ([True] @ [True] @ word_bits 5 (ucast l :: u64) @ word_bits 6 (ucast (64 - l - t) :: u64)
      @ window_bits d (l, t))"
proof -
  have "unat (64 - l - t) = 64 - unat l - unat t"
    using assms by (simp add: unat_sub_if')
  then have len: "uint (64 - l - t) = int (64 - unat l - unat t)"
    by (simp only: uint_nat)
  have w5: "bw.emits (WriteBits u 5) (word_bits 5 u)"
    and w6: "bw.emits (WriteBits u 6) (word_bits 6 u)" for u
    using bw.emits_word [of 5 u] bw.emits_word [of 6 u] by simp_all
  show ?thesis
    unfolding len window_bits_def fst_conv snd_conv
    by (rule bw.emits_bind [OF bw.emits_bit bw.emits_bind [OF bw.emits_bit
            bw.emits_bind [OF w5 bw.emits_bind [OF w6 bw.emits_word]]]]) simp
qed

lemma compressValue_cases:
  fixes curV newV :: f64
  defines "d \<equiv> newV XOR curV"
  shows "compressValue curV newV ld tr b =
    (if d = 0 then do { b' \<leftarrow> WriteBit False b; Some (ld, tr, b') }
     else if reuses d (ld, tr) then do {
       b' \<leftarrow> do { b1 \<leftarrow> WriteBit True b; b2 \<leftarrow> WriteBit False b1;
         WriteBits (drop_bit (unat tr) d) (64 - uint ld - uint tr) b2 };
       Some (ld, tr, b') }
     else do {
       b' \<leftarrow> do { b1 \<leftarrow> WriteBit True b; b2 \<leftarrow> WriteBit True b1;
         b3 \<leftarrow> WriteBits (ucast (value_lead d)) 5 b2;
         b4 \<leftarrow> WriteBits (ucast (64 - value_lead d - value_trail d)) 6 b3;
         WriteBits (drop_bit (unat (value_trail d)) d) (uint (64 - value_lead d - value_trail d)) b4 };
       Some (value_lead d, value_trail d, b') })"
  unfolding compressValue_def Let_def reuses_def value_lead_def value_trail_def fst_conv snd_conv
    d_def [symmetric]
  by auto

lemma compressValue_bits:
  fixes curV newV :: f64
  assumes "writer_bits b xs" and "window_ok (ld, tr)"
  defines "d \<equiv> newV XOR curV"
  shows "\<exists>b'. compressValue curV newV ld tr b =
      Some (fst (value_window d (ld, tr)), snd (value_window d (ld, tr)), b')
    \<and> writer_bits b' (xs @ value_bits d (ld, tr))"
proof -
  note alt = compressValue_cases [of curV newV ld tr b, folded d_def]
  consider "d = 0" | "d \<noteq> 0" "reuses d (ld, tr)" | "d \<noteq> 0" "\<not> reuses d (ld, tr)" by blast
  then show ?thesis
  proof cases
    case 1
    with bw.put_bit [OF assms(1), of False] show ?thesis
      by (auto simp: alt value_bits_def value_window_def)
  next
    case 2
    then have "unat ld + unat tr \<le> 63" using window_bits_recover(2) [OF 2(1) _ assms(2)] by simp
    from bw.emits_run [OF emits_reuse [OF this, of d] assms(1)] 2 show ?thesis
      by (auto simp: alt value_bits_def value_window_def simp del: bind_assoc)
  next
    case 3
    have "unat (value_lead d) + unat (value_trail d) \<le> 63" by (rule value_lead_trail [OF 3(1)])
    from bw.emits_run [OF emits_fresh [OF this, of d] assms(1)] 3 show ?thesis
      by (auto simp: alt value_bits_def value_window_def simp del: bind_assoc)
  qed
qed


text \<open>The iterator reads a value of the format back, and has then the writer's window.\<close>

lemma it_bit_Cons:
  "reader_bits (br it) (x # xs) \<Longrightarrow> \<exists>b. it_bit it = (Inr x, it\<lparr>br := b\<rparr>) \<and> reader_bits b xs"
  using br.get_bit [of "br it" x xs] by (auto simp: it_bit_def)

lemma it_bits_append:
  "reader_bits (br it) (ws @ xs) \<Longrightarrow>
    \<exists>b. it_bits (int (length ws)) it = (Inr (push_bits 0 ws), it\<lparr>br := b\<rparr>) \<and> reader_bits b xs"
  using br.get_bits [of "br it" ws xs] by (auto simp: it_bits_def)

lemma it_bits_word:
  "reader_bits (br it) (word_bits n u @ xs) \<Longrightarrow> n \<le> 64 \<Longrightarrow>
    \<exists>b. it_bits (int n) it = (Inr (take_bit n u), it\<lparr>br := b\<rparr>) \<and> reader_bits b xs"
  using br.get_bits_word [of "br it" n u xs] by (auto simp: it_bits_def)

lemma uncompress_window:
  assumes "reader_bits (br it) (window_bits d w @ xs)"
    and "d \<noteq> 0" and "reuses d w \<or> w = (value_lead d, value_trail d)" and "window_ok w"
  shows "\<exists>b'. it_bits (uint (64 - fst w - snd w)) it =
      (Inr (push_bits 0 (window_bits d w)), it\<lparr>br := b'\<rparr>) \<and> reader_bits b' xs"
proof -
  have "unat (64 - fst w - snd w) = 64 - unat (fst w) - unat (snd w)"
    using window_bits_recover(2) [OF assms(2-)] by (simp add: unat_sub_if')
  with it_bits_append [OF assms(1)] show ?thesis
    by (simp add: window_bits_def uint_nat)
qed

lemma header_bits:
  assumes "d \<noteq> 0"
  shows "take_bit 5 (ucast (value_lead d) :: u64) = ucast (value_lead d)"
    and "(ucast (ucast (value_lead d) :: u64) :: u8) = value_lead d"
    and "let sig = (ucast (take_bit 6 (ucast (64 - value_lead d - value_trail d) :: u64)) :: u8);
           m = (if sig = 0 then 64 else sig)
      in 64 - value_lead d - m = value_trail d"
proof -
  note v = value_lead_trail [OF assms]
  let ?l = "value_lead d" and ?t = "value_trail d"
  show "take_bit 5 (ucast ?l :: u64) = ucast ?l"
    using v(1) by (simp add: word_unat_eq_iff unsigned_take_bit_eq unsigned_ucast_eq
        take_bit_nat_eq_self)
  show "(ucast (ucast ?l :: u64) :: u8) = ?l"
    by (rule bit_word_eqI) (simp add: bit_simps)
  define s where "s = 64 - ?l - ?t"
  have us: "unat s = 64 - unat ?l - unat ?t"
    unfolding s_def using v(4) by (simp add: unat_sub_if')
  then have us': "0 < unat s" "unat s = 64 \<or> unat s < 64" using v(4) by auto
  have "unat (ucast (take_bit 6 (ucast s :: u64)) :: u8) = unat s mod 64"
    by (simp add: unsigned_ucast_eq unsigned_take_bit_eq) (simp add: take_bit_eq_mod)
  then have "(if (ucast (take_bit 6 (ucast s :: u64)) :: u8) = 0 then 64
      else ucast (take_bit 6 (ucast s :: u64))) = s"
    using us' by (auto simp: word_unat_eq_iff)
  then show "let sig = (ucast (take_bit 6 (ucast (64 - ?l - ?t) :: u64)) :: u8);
           m = (if sig = 0 then 64 else sig) in 64 - ?l - m = ?t"
    by (simp add: Let_def s_def [symmetric]) (simp add: s_def)
qed


lemma uncompressValue_bits:
  fixes curV newV :: f64
  defines "d \<equiv> newV XOR curV"
  assumes "reader_bits (br it) (value_bits d w @ xs)" and "\<not> it_start it"
    and "window_ok w" and "synced w (ld, tr)"
  shows "\<exists>ld' tr' b'. uncompressValue curV ld tr it = ((True, newV, ld', tr'), it\<lparr>br := b'\<rparr>)
    \<and> reader_bits b' xs \<and> synced (value_window d w) (ld', tr')"
proof -
  have new: "curV XOR d = newV" by (simp add: d_def xor.commute [of newV] flip: xor.assoc)
  consider "d = 0" | "d \<noteq> 0" "reuses d w" | "d \<noteq> 0" "\<not> reuses d w" by blast
  then show ?thesis
  proof cases
    case 1
    with assms(2) it_bit_Cons [of it False xs] obtain b1 where
      "it_bit it = (Inr False, it\<lparr>br := b1\<rparr>)" "reader_bits b1 xs" by (auto simp: value_bits_def)
    with 1 assms(3,5) new show ?thesis by (auto simp: uncompressValue_def value_window_def)
  next
    case 2
    with assms(5) have w: "w = (ld, tr)" by (auto simp: synced_def reuses_def)
    from 2 assms(2) it_bit_Cons [of it True "[False] @ window_bits d w @ xs"] obtain b1 where
      b1: "it_bit it = (Inr True, it\<lparr>br := b1\<rparr>)" "reader_bits b1 ([False] @ window_bits d w @ xs)"
      by (auto simp: value_bits_def)
    with it_bit_Cons [of "it\<lparr>br := b1\<rparr>" False "window_bits d w @ xs"] obtain b2 where
      b2: "it_bit (it\<lparr>br := b1\<rparr>) = (Inr False, it\<lparr>br := b2\<rparr>)" "reader_bits b2 (window_bits d w @ xs)"
      by auto
    with uncompress_window [of "it\<lparr>br := b2\<rparr>" d w xs] 2 assms(4) obtain b3 where
      "it_bits (uint (64 - ld - tr)) (it\<lparr>br := b2\<rparr>) =
        (Inr (push_bits 0 (window_bits d w)), it\<lparr>br := b3\<rparr>)" "reader_bits b3 xs"
      by (auto simp: w)
    with b1(1) b2(1) 2 assms(3) window_bits_recover(1) [OF 2(1) _ assms(4)] new show ?thesis
      by (auto simp: uncompressValue_def value_window_def synced_def w)
  next
    case 3
    let ?w = "(value_lead d, value_trail d)"
    let ?l = "ucast (value_lead d) :: u64" and ?s = "ucast (64 - value_lead d - value_trail d) :: u64"
    have ok: "window_ok ?w" using window_ok_value [OF assms(4), of d] 3 by (simp add: value_window_def)
    from 3 assms(2) it_bit_Cons [of it True
        "[True] @ word_bits 5 ?l @ word_bits 6 ?s @ window_bits d ?w @ xs"] obtain b1 where
      b1: "it_bit it = (Inr True, it\<lparr>br := b1\<rparr>)"
        "reader_bits b1 ([True] @ word_bits 5 ?l @ word_bits 6 ?s @ window_bits d ?w @ xs)"
      by (auto simp: value_bits_def)
    with it_bit_Cons [of "it\<lparr>br := b1\<rparr>" True] obtain b2 where
      b2: "it_bit (it\<lparr>br := b1\<rparr>) = (Inr True, it\<lparr>br := b2\<rparr>)"
        "reader_bits b2 (word_bits 5 ?l @ word_bits 6 ?s @ window_bits d ?w @ xs)" by auto
    with it_bits_word [of "it\<lparr>br := b2\<rparr>" 5 ?l] obtain b3 where
      b3: "it_bits 5 (it\<lparr>br := b2\<rparr>) = (Inr (take_bit 5 ?l), it\<lparr>br := b3\<rparr>)"
        "reader_bits b3 (word_bits 6 ?s @ window_bits d ?w @ xs)" by auto
    with it_bits_word [of "it\<lparr>br := b3\<rparr>" 6 ?s] obtain b4 where
      b4: "it_bits 6 (it\<lparr>br := b3\<rparr>) = (Inr (take_bit 6 ?s), it\<lparr>br := b4\<rparr>)"
        "reader_bits b4 (window_bits d ?w @ xs)" by auto
    with uncompress_window [of "it\<lparr>br := b4\<rparr>" d ?w xs] 3 ok obtain b5 where
      "it_bits (uint (64 - value_lead d - value_trail d)) (it\<lparr>br := b4\<rparr>) =
        (Inr (push_bits 0 (window_bits d ?w)), it\<lparr>br := b5\<rparr>)" "reader_bits b5 xs"
      by auto
    with b1(1) b2(1) b3(1) b4(1) 3 assms(3) window_bits_recover(1) [OF 3(1) _ ok] new
      header_bits [OF 3(1)]
    show ?thesis
      by (auto simp: uncompressValue_def value_window_def synced_def Let_def)
  qed
qed


section \<open>The format of a time\<close>

text \<open>
  Times after the first are coded by the change of the difference to the time before (the
  delta of deltas, a signed 32-bit number) behind a prefix that gives its width.
\<close>

definition dod_bits :: "i32 \<Rightarrow> bool list" where
  "dod_bits dod =
     (if dod = 0 then [False]
      else if - 63 \<le> sint dod \<and> sint dod \<le> 64 then [True, False] @ word_bits 7 (scast dod :: u64)
      else if - 255 \<le> sint dod \<and> sint dod \<le> 256
        then [True, True, False] @ word_bits 9 (scast dod :: u64)
      else if - 2047 \<le> sint dod \<and> sint dod \<le> 2048
        then [True, True, True, False] @ word_bits 12 (scast dod :: u64)
      else [True, True, True, True] @ word_bits 32 (scast dod :: u64))"

definition end_bits :: "bool list" where
  "end_bits = replicate 36 True @ [False]"

lemma emits_words:
  "m \<le> 64 \<Longrightarrow> n \<le> 64 \<Longrightarrow>
    bw.emits (\<lambda>b. do { b1 \<leftarrow> WriteBits u (int m) b; WriteBits v (int n) b1 })
      (word_bits m u @ word_bits n v)"
  by (rule bw.emits_bind [OF bw.emits_word bw.emits_word])

lemma word_bits_prefixes:
  "word_bits 2 (0x02 :: u64) = [True, False]" "word_bits 3 (0x06 :: u64) = [True, True, False]"
  "word_bits 4 (0x0e :: u64) = [True, True, True, False]"
  "word_bits 4 (0x0f :: u64) = [True, True, True, True]"
  by (simp_all add: word_bits_def upt_rec numeral_eq_Suc)

lemma write_dod_bits: "bw.emits (write_dod dod) (dod_bits dod)"
  using bw.emits_bit [of False] emits_words [of 2 7 "0x02" "scast dod"]
    emits_words [of 3 9 "0x06" "scast dod"] emits_words [of 4 12 "0x0e" "scast dod"]
    emits_words [of 4 32 "0x0f" "scast dod"]
  unfolding write_dod_def [abs_def] dod_bits_def by (auto simp: word_bits_prefixes)

lemma word_bits_all_ones: "word_bits 32 (0xffffffff :: u64) = replicate 32 True"
proof -
  have m: "(0xffffffff :: u64) = mask 32" by (simp add: mask_eq_exp_minus_1)
  show ?thesis
    unfolding m by (rule nth_equalityI) (auto simp: nth_word_bits bit_mask_iff simp del: mask_numeral)
qed

lemma setFinished_bits: "bw.emits setFinished end_bits"
proof -
  have "bw.emits (\<lambda>b. do { b1 \<leftarrow> WriteBits 0x0f (int 4) b; b2 \<leftarrow> WriteBits 0xffffffff (int 32) b1;
      WriteBit False b2 }) (word_bits 4 (0x0f :: u64) @ word_bits 32 (0xffffffff :: u64) @ [False])"
    by (rule bw.emits_bind [OF bw.emits_word bw.emits_bind [OF bw.emits_word bw.emits_bit]]) simp_all
  moreover have "word_bits 4 (0x0f :: u64) @ word_bits 32 (0xffffffff :: u64) = replicate 36 True"
    unfolding word_bits_all_ones word_bits_prefixes
    by (simp flip: replicate_append_same) (simp add: numeral_eq_Suc)
  ultimately show ?thesis
    unfolding setFinished_def [abs_def] end_bits_def by (simp flip: append_assoc)
qed

text \<open>The signed numbers of the three short forms, and the full form, which is never the end mark.\<close>

lemma short_dod:
  fixes dod :: i32
  assumes "- (2 ^ (n - 1)) < sint dod" and "sint dod \<le> 2 ^ (n - 1)" and "0 < n" and "n < 32"
  defines "b \<equiv> take_bit n (scast dod :: u64)"
  shows "ucast (if b > push_bit (n - 1) 1 then b - push_bit n 1 else b) = dod"
proof -
  let ?v = "sint dod"
  have v: "(ucast (scast dod :: u64) :: i32) = dod"
    by (rule bit_word_eqI) (auto simp: bit_simps)
  have p: "(2::int) ^ n = 2 * 2 ^ (n - 1)" using assms(3) by (simp flip: power_Suc)
  have lt: "(2::int) ^ n < 2 ^ 64" using assms(4) by (intro power_strict_increasing) simp_all
  have ub: "uint b = ?v mod 2 ^ n"
  proof -
    have "uint (scast dod :: u64) = ?v mod 2 ^ 64"
      by (simp only: scast_eq uint_word_of_int) simp
    then have "uint b = take_bit n (?v mod 2 ^ 64)"
      unfolding b_def by (simp only: unsigned_take_bit_eq)
    then have "uint b = ?v mod 2 ^ 64 mod 2 ^ n"
      by (simp only: take_bit_eq_mod)
    also have "\<dots> = ?v mod 2 ^ n"
      using assms(4) by (intro mod_mod_cancel le_imp_power_dvd) simp
    finally show ?thesis .
  qed
  have half: "uint (push_bit (n - 1) 1 :: u64) = 2 ^ (n - 1)"
    using assms(4) by (simp only: unsigned_push_bit_eq unsigned_1) (simp add: push_bit_of_1 take_bit_of_exp)
  show ?thesis
  proof (cases "?v < 0")
    case True
    have "(?v + 2 ^ n) mod 2 ^ n = ?v + 2 ^ n"
      using True assms(1) p by (intro mod_pos_pos_trivial) auto
    then have ub': "uint b = ?v + 2 ^ n"
      unfolding ub by simp
    then have "b > push_bit (n - 1) 1"
      using assms(1) p half by (simp add: word_less_def)
    moreover have "b = word_of_int (?v + 2 ^ n)"
      using ub' by (metis word_of_int_uint)
    ultimately have "(if b > push_bit (n - 1) 1 then b - push_bit n 1 else b) = word_of_int ?v"
      by (simp add: push_bit_of_1)
    then show ?thesis
      using v by simp
  next
    case False
    have "?v < 2 ^ n"
      using assms(2) p zero_less_power [of "2 :: int" "n - 1"] by linarith
    with False have ub': "uint b = ?v"
      unfolding ub by (intro mod_pos_pos_trivial) auto
    then have "\<not> b > push_bit (n - 1) 1"
      using assms(2) half by (simp add: word_less_def)
    moreover have "b = word_of_int ?v"
      using ub' by (metis word_of_int_uint)
    ultimately show ?thesis using v by simp
  qed
qed


lemma full_dod:
  fixes dod :: i32
  defines "b \<equiv> take_bit 32 (scast dod :: u64)"
  shows "ucast b = dod" and "b = 0xffffffff \<Longrightarrow> dod = - 1"
proof -
  show *: "ucast b = dod"
    unfolding b_def by (rule bit_word_eqI) (auto simp: bit_simps)
  show "dod = - 1" if "b = 0xffffffff"
    using * unfolding that by simp
qed

lemma read_prefix_bits:
  assumes "reader_bits (br it) (replicate k True @ False # xs)" and "k < n"
  shows "\<exists>b. read_prefix n d it =
      (Some (push_bit 1 (foldl (\<lambda>d _. push_bit 1 d OR 1) d (replicate k ()))), it\<lparr>br := b\<rparr>)
    \<and> reader_bits b xs"
  using assms
proof (induction k arbitrary: n d it)
  case 0
  then obtain m where n: "n = Suc m" by (cases n) auto
  with 0 it_bit_Cons [of it False xs] show ?case by auto
next
  case (Suc k)
  then obtain m where n: "n = Suc m" "k < m" by (cases n) auto
  from Suc.prems(1) it_bit_Cons [of it True] obtain b1 where
    b1: "it_bit it = (Inr True, it\<lparr>br := b1\<rparr>)" "reader_bits b1 (replicate k True @ False # xs)"
    by auto
  with Suc.IH [of "it\<lparr>br := b1\<rparr>" m "push_bit 1 d OR 1"] n show ?case by auto
qed

lemma read_prefix_ones:
  assumes "reader_bits (br it) (replicate n True @ xs)"
  shows "\<exists>b. read_prefix n d it =
      (Some (foldl (\<lambda>d _. push_bit 1 d OR 1) d (replicate n ())), it\<lparr>br := b\<rparr>)
    \<and> reader_bits b xs"
  using assms
proof (induction n arbitrary: d it)
  case 0
  then show ?case by (auto intro: exI [of _ "br it"])
next
  case (Suc n)
  from Suc.prems it_bit_Cons [of it True] obtain b1 where
    b1: "it_bit it = (Inr True, it\<lparr>br := b1\<rparr>)" "reader_bits b1 (replicate n True @ xs)"
    by auto
  with Suc.IH [of "it\<lparr>br := b1\<rparr>" "push_bit 1 d OR 1"] show ?case by auto
qed

text \<open>Reading the prefix of the format and then the number gives the number written.\<close>

lemma read_dod_bits:
  assumes "reader_bits (br it) (dod_bits dod @ xs)"
  shows "\<exists>d b b'. read_prefix 4 0 it = (Some d, it\<lparr>br := b\<rparr>)
    \<and> read_dod d (it\<lparr>br := b\<rparr>) = (Some dod, it\<lparr>br := b'\<rparr>) \<and> reader_bits b' xs"
proof -
  let ?u = "scast dod :: u64"
  have short: ?thesis
    if "reader_bits (br it) (replicate k True @ False # word_bits sz ?u @ xs)" "k < 4"
      and d: "push_bit 1 (foldl (\<lambda>d _. push_bit 1 d OR 1) 0 (replicate k ())) = (d :: u8)"
      and sz: "(d, sz) \<in> {(0x02, 7), (0x06, 9), (0x0e, 12)}"
      and bounds: "- (2 ^ (sz - 1)) < sint dod" "sint dod \<le> 2 ^ (sz - 1)" for k d sz
  proof -
    from read_prefix_bits [OF that(1,2), of 0] d obtain b where
      b: "read_prefix 4 0 it = (Some d, it\<lparr>br := b\<rparr>)" "reader_bits b (word_bits sz ?u @ xs)" by auto
    have sz': "0 < sz" "sz < 32" using sz by auto
    with b(2) it_bits_word [of "it\<lparr>br := b\<rparr>" sz ?u xs] obtain b' where
      b': "it_bits (int sz) (it\<lparr>br := b\<rparr>) = (Inr (take_bit sz ?u), it\<lparr>br := b'\<rparr>)" "reader_bits b' xs"
      by auto
    from short_dod [OF bounds sz'] b b' sz show ?thesis
      by (intro exI conjI) (auto simp: read_dod_def)
  qed
  consider "dod = 0" | "dod \<noteq> 0" "- 63 \<le> sint dod" "sint dod \<le> 64"
    | "\<not> (- 63 \<le> sint dod \<and> sint dod \<le> 64)" "- 255 \<le> sint dod" "sint dod \<le> 256"
    | "\<not> (- 255 \<le> sint dod \<and> sint dod \<le> 256)" "- 2047 \<le> sint dod" "sint dod \<le> 2048"
    | "\<not> (- 2047 \<le> sint dod \<and> sint dod \<le> 2048)" by linarith
  then show ?thesis
  proof cases
    case 1
    with assms read_prefix_bits [of it 0 xs 4 0] obtain b where
      "read_prefix 4 0 it = (Some 0, it\<lparr>br := b\<rparr>)" "reader_bits b xs"
      by (auto simp: dod_bits_def)
    with 1 show ?thesis
      by (intro exI [of _ 0] exI [of _ b]) (simp add: read_dod_def)
  next
    case 2
    with assms show ?thesis
      by (intro short [of 1 7 "0x02"]) (auto simp: dod_bits_def split: if_splits)
  next
    case 3
    with assms show ?thesis
      by (intro short [of "Suc (Suc 0)" 9 "0x06"]) (auto simp: dod_bits_def split: if_splits)
  next
    case 4
    with assms show ?thesis
      by (intro short [of "Suc (Suc (Suc 0))" 12 "0x0e"]) (auto simp: dod_bits_def split: if_splits)
  next
    case 5
    then have nz: "dod \<noteq> 0" "dod \<noteq> - 1" by auto
    have four: "replicate 4 x = [x, x, x, x]" for x :: 'x by (simp add: numeral_eq_Suc)
    from 5 nz assms have "reader_bits (br it) (replicate 4 True @ word_bits 32 ?u @ xs)"
      by (auto simp: dod_bits_def four split: if_splits)
    from read_prefix_ones [OF this, of 0] obtain b where
      b: "read_prefix 4 0 it = (Some 0x0f, it\<lparr>br := b\<rparr>)" "reader_bits b (word_bits 32 ?u @ xs)"
      by (auto simp: four)
    with it_bits_word [of "it\<lparr>br := b\<rparr>" 32 ?u xs] obtain b' where
      b': "it_bits 32 (it\<lparr>br := b\<rparr>) = (Inr (take_bit 32 ?u), it\<lparr>br := b'\<rparr>)" "reader_bits b' xs"
      by auto
    from full_dod [of dod] nz b b' show ?thesis
      by (intro exI conjI) (auto simp: read_dod_def)
  qed
qed

end
