(* ===== verification/Gorilla_Steps.thy ===== *)
theory Gorilla_Steps
  imports Gorilla_Format
begin

text \<open>
  The writer and the iterator of the gorilla series move in step: after the same points they
  agree on the values, times and windows they code the next point against. So the iterator
  gives back the points that were added.
\<close>

section \<open>What the writer and the iterator agree on\<close>

definition value_inv :: "GorillaTimeSeries \<Rightarrow> bool" where
  "value_inv s \<longleftrightarrow> length (curVals s) = 5 \<and> length (leading s) = 5 \<and> length (trailing s) = 5
     \<and> (\<forall>i<5. window_ok (leading s ! i, trailing s ! i))"

definition value_match :: "GorillaTimeSeries \<Rightarrow> GorillaIter \<Rightarrow> bool" where
  "value_match s it \<longleftrightarrow> it_curVals it = curVals s
     \<and> length (it_leading it) = 5 \<and> length (it_trailing it) = 5
     \<and> (\<forall>i<5. synced (leading s ! i, trailing s ! i) (it_leading it ! i, it_trailing it ! i))"

definition time_inv :: "GorillaTimeSeries \<Rightarrow> bool" where
  "time_inv s \<longleftrightarrow> window_ok (leadingMs s, trailingMs s)
     \<and> (\<not> fullResolution s \<longrightarrow> curTimeMs s = 0)"

definition time_match :: "GorillaTimeSeries \<Rightarrow> GorillaIter \<Rightarrow> bool" where
  "time_match s it \<longleftrightarrow> it_Ts it = Ts s \<and> it_fullResolution it = fullResolution s
     \<and> it_curTimeMs it = curTimeMs s
     \<and> synced (leadingMs s, trailingMs s) (it_leadingMs it, it_trailingMs it)
     \<and> (it_start it \<longleftrightarrow> curTime s = 0)
     \<and> (curTime s \<noteq> 0 \<longrightarrow> it_curTime it = curTime s \<and> it_tDelta it = curDelta s)"

lemma value_inv_bw [simp]: "value_inv (s\<lparr>bw := b\<rparr>) = value_inv s"
  by (simp add: value_inv_def)

lemma value_match_frame [simp]:
  "value_match (s\<lparr>bw := b\<rparr>) it = value_match s it"
  "value_match s (it\<lparr>br := b'\<rparr>) = value_match s it"
  by (simp_all add: value_match_def)

lemma time_inv_bw [simp]: "time_inv (s\<lparr>bw := b\<rparr>) = time_inv s"
  by (simp add: time_inv_def)

lemma time_match_frame [simp]:
  "time_match (s\<lparr>bw := b\<rparr>) it = time_match s it"
  "time_match s (it\<lparr>br := b'\<rparr>) = time_match s it"
  by (simp_all add: time_match_def)

section \<open>Values\<close>

text \<open>
  \<open>slot_bits\<close> are the bits of value \<open>i\<close> and \<open>put_slot\<close> is the state they leave, the stream
  aside: the first point has its values in full, later ones are coded against the value and
  window of the slot.
\<close>

definition slot_bits :: "bool \<Rightarrow> nat \<Rightarrow> f64 \<Rightarrow> GorillaTimeSeries \<Rightarrow> bool list" where
  "slot_bits first i v s =
     (if first then word_bits 64 v
      else value_bits (v XOR curVals s ! i) (leading s ! i, trailing s ! i))"

definition slot_window :: "bool \<Rightarrow> nat \<Rightarrow> f64 \<Rightarrow> GorillaTimeSeries \<Rightarrow> window" where
  "slot_window first i v s =
     (if first then (leading s ! i, trailing s ! i)
      else value_window (v XOR curVals s ! i) (leading s ! i, trailing s ! i))"

definition put_slot :: "bool \<Rightarrow> nat \<Rightarrow> f64 \<Rightarrow> GorillaTimeSeries \<Rightarrow> GorillaTimeSeries" where
  "put_slot first i v s = s\<lparr>leading := (leading s)[i := fst (slot_window first i v s)],
     trailing := (trailing s)[i := snd (slot_window first i v s)],
     curVals := (curVals s)[i := v]\<rparr>"

lemma put_slot_inv: "value_inv s \<Longrightarrow> i < 5 \<Longrightarrow> value_inv (put_slot first i v s)"
  using window_ok_value
  by (auto simp: value_inv_def put_slot_def slot_window_def nth_list_update)

lemma addValue_bits:
  assumes "value_inv s" and "writer_bits (bw s) xs" and "i < 5"
  shows "\<exists>b. addValue i v first s = Some ((put_slot first i v s)\<lparr>bw := b\<rparr>)
    \<and> writer_bits b (xs @ slot_bits first i v s)"
proof (cases first)
  case True
  from bw.put_bits [OF assms(2), of 64 v] obtain b where
    "WriteBits v 64 (bw s) = Some b" "writer_bits b (xs @ word_bits 64 v)" by auto
  with True assms(1,3) show ?thesis
    by (auto simp: addValue_def put_slot_def slot_bits_def slot_window_def value_inv_def)
next
  case False
  have "window_ok (leading s ! i, trailing s ! i)" using assms by (auto simp: value_inv_def)
  from compressValue_bits [OF assms(2) this, of "curVals s ! i" v] False assms(1,3)
  show ?thesis
    by (auto simp: addValue_def put_slot_def slot_bits_def slot_window_def value_inv_def)
qed

text \<open>A read of values leaves the rest of the iterator alone.\<close>

definition same_time :: "GorillaIter \<Rightarrow> GorillaIter \<Rightarrow> bool" where
  "same_time it it' \<longleftrightarrow> it' = it\<lparr>it_curVals := it_curVals it', it_leading := it_leading it',
     it_trailing := it_trailing it', br := br it'\<rparr>"

lemma readValue_bits:
  assumes "value_inv s" and "value_match s it" and "i < 5"
    and "reader_bits (br it) (slot_bits (it_start it) i v s @ rest)"
  shows "\<exists>it'. readValue i it = Some (True, it') \<and> same_time it it'
    \<and> value_match (put_slot (it_start it) i v s) it' \<and> reader_bits (br it') rest"
proof -
  let ?w = "(leading s ! i, trailing s ! i)"
  have "window_ok ?w" and sync: "synced ?w (it_leading it ! i, it_trailing it ! i)"
    using assms(1-3) by (auto simp: value_inv_def value_match_def)
  have "\<exists>ld tr b. uncompressValue (curVals s ! i) (it_leading it ! i) (it_trailing it ! i) it =
      ((True, v, ld, tr), it\<lparr>br := b\<rparr>) \<and> reader_bits b rest
      \<and> synced (slot_window (it_start it) i v s) (ld, tr)"
  proof (cases "it_start it")
    case True
    with it_bits_word [of it 64 v rest] assms(4) sync show ?thesis
      by (auto simp: uncompressValue_def slot_bits_def slot_window_def take_bit_word_eq_self)
  next
    case False
    with uncompressValue_bits [OF _ False \<open>window_ok ?w\<close> sync, of v "curVals s ! i" rest] assms(4)
    show ?thesis by (simp add: slot_bits_def slot_window_def)
  qed
  then obtain ld tr b where u:
    "uncompressValue (curVals s ! i) (it_leading it ! i) (it_trailing it ! i) it =
      ((True, v, ld, tr), it\<lparr>br := b\<rparr>)" "reader_bits b rest"
      "synced (slot_window (it_start it) i v s) (ld, tr)" by blast
  let ?it = "it\<lparr>it_curVals := (curVals s)[i := v], it_leading := (it_leading it)[i := ld],
    it_trailing := (it_trailing it)[i := tr], br := b\<rparr>"
  have "readValue i it = Some (True, ?it)"
    using u(1) assms(1-3) by (simp add: readValue_def value_match_def value_inv_def)
  moreover have "value_match (put_slot (it_start it) i v s) ?it"
    using u(3) assms(1-3) by (auto simp: value_match_def value_inv_def put_slot_def nth_list_update)
  ultimately show ?thesis
    using u(2) by (intro exI [of _ ?it]) (simp add: same_time_def)
qed

text \<open>Several values in a row.\<close>

fun put_slots :: "bool \<Rightarrow> (nat \<times> f64) list \<Rightarrow> GorillaTimeSeries \<Rightarrow> GorillaTimeSeries" where
  "put_slots first [] s = s"
| "put_slots first ((i, v) # ivs) s = put_slots first ivs (put_slot first i v s)"

fun slots_bits :: "bool \<Rightarrow> (nat \<times> f64) list \<Rightarrow> GorillaTimeSeries \<Rightarrow> bool list" where
  "slots_bits first [] s = []"
| "slots_bits first ((i, v) # ivs) s =
     slot_bits first i v s @ slots_bits first ivs (put_slot first i v s)"

lemma slot_bw [simp]:
  "put_slot first i v (s\<lparr>bw := b\<rparr>) = (put_slot first i v s)\<lparr>bw := b\<rparr>"
  "slot_bits first i v (s\<lparr>bw := b\<rparr>) = slot_bits first i v s"
  by (simp_all add: put_slot_def slot_bits_def slot_window_def)

lemma slots_bw [simp]:
  "put_slots first ivs (s\<lparr>bw := b\<rparr>) = (put_slots first ivs s)\<lparr>bw := b\<rparr>"
  "slots_bits first ivs (s\<lparr>bw := b\<rparr>) = slots_bits first ivs s"
  by (induction first ivs s arbitrary: b rule: put_slots.induct) simp_all

lemma put_slots_inv: "value_inv s \<Longrightarrow> \<forall>(i, v)\<in>set ivs. i < 5 \<Longrightarrow> value_inv (put_slots first ivs s)"
  by (induction first ivs s rule: put_slots.induct) (auto simp: put_slot_inv)

lemma addValues_bits:
  "value_inv s \<Longrightarrow> writer_bits (bw s) xs \<Longrightarrow> \<forall>(i, v)\<in>set ivs. i < 5 \<Longrightarrow>
    \<exists>b. addValues ivs first s = Some ((put_slots first ivs s)\<lparr>bw := b\<rparr>)
      \<and> writer_bits b (xs @ slots_bits first ivs s)"
proof (induction ivs arbitrary: s xs)
  case Nil
  then show ?case by (intro exI [of _ "bw s"]) simp
next
  case (Cons iv ivs)
  obtain i v where iv: "iv = (i, v)" by fastforce
  with Cons.prems have i: "i < 5" and rest: "\<forall>(i, v)\<in>set ivs. i < 5" by auto
  from addValue_bits [OF Cons.prems(1,2) i, of v first] obtain b where
    b: "addValue i v first s = Some ((put_slot first i v s)\<lparr>bw := b\<rparr>)"
      "writer_bits b (xs @ slot_bits first i v s)" by blast
  with Cons.IH [of "(put_slot first i v s)\<lparr>bw := b\<rparr>" "xs @ slot_bits first i v s", OF _ _ rest]
    put_slot_inv [OF Cons.prems(1) i, of first v] iv show ?case by auto
qed

lemma same_time_fields:
  assumes "same_time it it'"
  shows "it_start it' = it_start it" "it_err it' = it_err it" "finished it' = finished it"
    "curSmartEnc it' = curSmartEnc it" "it_curTime it' = it_curTime it"
    "it_curTimeMs it' = it_curTimeMs it" "it_smartEncoding it' = it_smartEncoding it"
    "it_numValues it' = it_numValues it" "time_match s it' = time_match s it"
  by (subst assms [unfolded same_time_def]; simp add: time_match_def)+

lemma same_time_trans: "same_time a b \<Longrightarrow> same_time b c \<Longrightarrow> same_time a c"
  unfolding same_time_def by (cases a; cases b; cases c) simp

lemma readValues_bits:
  "value_inv s \<Longrightarrow> value_match s it \<Longrightarrow> \<forall>(i, v)\<in>set ivs. i < 5 \<Longrightarrow> it_start it = first \<Longrightarrow>
    reader_bits (br it) (slots_bits first ivs s @ rest) \<Longrightarrow>
    \<exists>it'. readValues (map fst ivs) it = Some (True, it') \<and> same_time it it'
      \<and> value_match (put_slots first ivs s) it' \<and> reader_bits (br it') rest"
proof (induction ivs arbitrary: s it)
  case Nil
  then show ?case by (auto simp: same_time_def)
next
  case (Cons iv ivs)
  obtain i v where iv: "iv = (i, v)" by fastforce
  with Cons.prems have i: "i < 5" and rest: "\<forall>(i, v)\<in>set ivs. i < 5"
    and bits: "reader_bits (br it) (slot_bits (it_start it) i v s
      @ slots_bits first ivs (put_slot first i v s) @ rest)" by auto
  from readValue_bits [OF Cons.prems(1,2) i bits] Cons.prems(4) obtain it1 where
    it1: "readValue i it = Some (True, it1)" "same_time it it1"
      "value_match (put_slot first i v s) it1"
      "reader_bits (br it1) (slots_bits first ivs (put_slot first i v s) @ rest)" by auto
  moreover from it1(2) Cons.prems(4) have "it_start it1 = first"
    by (simp add: same_time_fields)
  ultimately show ?case
    using Cons.IH [OF put_slot_inv [OF Cons.prems(1) i] it1(3) rest] iv same_time_trans by fastforce
qed


section \<open>Times\<close>

text \<open>The bits of a time and the state they leave, in the same way.\<close>

definition time_bits :: "i64 \<Rightarrow> GorillaTimeSeries \<Rightarrow> bool list" where
  "time_bits t s =
     (let ut = fst (splitNano t); ms = f64_of_u32 (snd (splitNano t)) in
      (if curTime s = 0 then word_bits 14 (ucast (ut - Ts s) :: u64)
       else dod_bits (ut - curTime s - curDelta s)) @
      (if fullResolution s then value_bits (ms XOR curTimeMs s) (leadingMs s, trailingMs s) else []))"

definition put_time :: "i64 \<Rightarrow> GorillaTimeSeries \<Rightarrow> GorillaTimeSeries" where
  "put_time t s =
     (let ut = fst (splitNano t); ms = f64_of_u32 (snd (splitNano t));
          w = value_window (ms XOR curTimeMs s) (leadingMs s, trailingMs s);
          s1 = s\<lparr>curTime := ut, curDelta := (if curTime s = 0 then ut - Ts s else ut - curTime s)\<rparr>
      in if fullResolution s
         then s1\<lparr>leadingMs := fst w, trailingMs := snd w, curTimeMs := ms\<rparr> else s1)"

definition time_ok :: "i64 \<Rightarrow> GorillaTimeSeries \<Rightarrow> bool" where
  "time_ok t s \<longleftrightarrow> fst (splitNano t) \<noteq> 0
     \<and> (curTime s = 0 \<longrightarrow> unat (fst (splitNano t) - Ts s) < 2 ^ 14)"

lemma put_time_inv:
  "time_inv s \<Longrightarrow> time_inv (put_time t s)"
  "value_inv s \<Longrightarrow> value_inv (put_time t s)"
  by (auto simp: time_inv_def value_inv_def put_time_def Let_def window_ok_value)

lemma AddTime_bits:
  assumes "time_inv s" and "writer_bits (bw s) xs"
  shows "\<exists>b. AddTime t s = Some (None, (put_time t s)\<lparr>bw := b\<rparr>)
    \<and> writer_bits b (xs @ time_bits t s)"
proof -
  obtain ut utms where sp: "splitNano t = (ut, utms)" by fastforce
  let ?d = "if curTime s = 0 then word_bits 14 (ucast (ut - Ts s) :: u64)
    else dod_bits (ut - curTime s - curDelta s)"
  obtain b1 where b1: "(if curTime s = 0 then WriteBits (ucast (ut - Ts s)) 14 (bw s)
      else write_dod (ut - curTime s - curDelta s) (bw s)) = Some b1" "writer_bits b1 (xs @ ?d)"
    using bw.put_bits [OF assms(2), of 14 "ucast (ut - Ts s)"]
      bw.emits_run [OF write_dod_bits assms(2)] by (cases "curTime s = 0") auto
  have ok: "window_ok (leadingMs s, trailingMs s)" using assms(1) by (simp add: time_inv_def)
  show ?thesis
  proof (cases "fullResolution s")
    case True
    from compressValue_bits [OF b1(2) ok, of "curTimeMs s" "f64_of_u32 utms"] obtain b2 where
      "compressValue (curTimeMs s) (f64_of_u32 utms) (leadingMs s) (trailingMs s) b1 =
        Some (fst (value_window (f64_of_u32 utms XOR curTimeMs s) (leadingMs s, trailingMs s)),
          snd (value_window (f64_of_u32 utms XOR curTimeMs s) (leadingMs s, trailingMs s)), b2)"
      "writer_bits b2 ((xs @ ?d) @ value_bits (f64_of_u32 utms XOR curTimeMs s) (leadingMs s, trailingMs s))"
      by blast
    with b1(1) True sp show ?thesis
      by (intro exI [of _ b2])
        (auto simp: AddTime_def put_time_def time_bits_def Let_def split: if_splits)
  next
    case False
    with b1 sp show ?thesis
      by (intro exI [of _ b1])
        (auto simp: AddTime_def put_time_def time_bits_def Let_def split: if_splits)
  qed
qed

lemma read_delta_bits:
  fixes s :: GorillaTimeSeries
  defines "delta ut \<equiv> if curTime s = 0 then ut - Ts s else ut - curTime s"
  assumes "time_match s it" and "curTime s = 0 \<longrightarrow> unat (ut - Ts s) < 2 ^ 14"
    and "reader_bits (br it) ((if curTime s = 0 then word_bits 14 (ucast (ut - Ts s) :: u64)
      else dod_bits (ut - curTime s - curDelta s)) @ rest)"
  shows "\<exists>b. reader_bits b rest \<and>
    (if it_start it then it_bits 14 it = (Inr (ucast (delta ut)), it\<lparr>br := b\<rparr>)
     else \<exists>d b0. read_prefix 4 0 it = (Some d, it\<lparr>br := b0\<rparr>)
       \<and> read_dod d (it\<lparr>br := b0\<rparr>) = (Some (delta ut - curDelta s), it\<lparr>br := b\<rparr>))"
proof (cases "curTime s = 0")
  case True
  then have "take_bit 14 (ucast (ut - Ts s) :: u64) = ucast (ut - Ts s)"
    using assms(3) by (simp add: word_unat_eq_iff unsigned_take_bit_eq
        unsigned_ucast_eq take_bit_nat_eq_self)
  with True it_bits_word [of it 14 "ucast (ut - Ts s)" rest] assms(2,4) show ?thesis
    by (auto simp: time_match_def delta_def)
next
  case False
  with read_dod_bits [of it "ut - curTime s - curDelta s" rest] assms(2,4) show ?thesis
    by (auto simp: time_match_def delta_def)
qed

lemma readTimeDelta_bits:
  assumes "time_inv s" and "time_match s it" and "value_match s it" and "time_ok t s"
    and "reader_bits (br it) (time_bits t s @ rest)"
  shows "\<exists>it'. readTimeDelta it = (True, it') \<and> reader_bits (br it') rest
    \<and> value_match (put_time t s) it'
    \<and> it_Ts it' = Ts s \<and> it_fullResolution it' = fullResolution s
    \<and> it_curTimeMs it' = curTimeMs (put_time t s)
    \<and> synced (leadingMs (put_time t s), trailingMs (put_time t s)) (it_leadingMs it', it_trailingMs it')
    \<and> it_curTime it' = curTime (put_time t s) \<and> it_tDelta it' = curDelta (put_time t s)
    \<and> it_start it' = it_start it \<and> it_smartEncoding it' = it_smartEncoding it
    \<and> it_numValues it' = it_numValues it \<and> it_err it' = it_err it \<and> finished it' = finished it"
proof -
  obtain ut utms where sp: "splitNano t = (ut, utms)" by fastforce
  let ?ms = "f64_of_u32 utms" and ?w = "(leadingMs s, trailingMs s)"
  let ?mb = "if fullResolution s then value_bits (?ms XOR curTimeMs s) ?w else []"
  let ?delta = "if curTime s = 0 then ut - Ts s else ut - curTime s"
  have ok: "window_ok ?w" and sync: "synced ?w (it_leadingMs it, it_trailingMs it)"
    using assms(1,2) by (auto simp: time_inv_def time_match_def)
  have delta: "reader_bits (br it) ((if curTime s = 0 then word_bits 14 (ucast (ut - Ts s) :: u64)
      else dod_bits (ut - curTime s - curDelta s)) @ ?mb @ rest)"
    using assms(5) sp by (simp add: time_bits_def Let_def)
  obtain b where b: "reader_bits b (?mb @ rest)"
    "if it_start it then it_bits 14 it = (Inr (ucast ?delta), it\<lparr>br := b\<rparr>)
     else \<exists>d b0. read_prefix 4 0 it = (Some d, it\<lparr>br := b0\<rparr>)
       \<and> read_dod d (it\<lparr>br := b0\<rparr>) = (Some (?delta - curDelta s), it\<lparr>br := b\<rparr>)"
    using read_delta_bits [OF assms(2) _ delta] assms(4) sp by (auto simp: time_ok_def)
  let ?it = "it\<lparr>br := b, it_tDelta := ?delta, it_curTime := ut\<rparr>"
  have ms: "\<exists>ld tr b'. uncompressValue (curTimeMs s) (it_leadingMs it) (it_trailingMs it)
        (?it\<lparr>it_start := False\<rparr>) = ((True, ?ms, ld, tr), ?it\<lparr>it_start := False, br := b'\<rparr>)
      \<and> reader_bits b' rest \<and> synced (value_window (?ms XOR curTimeMs s) ?w) (ld, tr)"
    if "fullResolution s"
    using uncompressValue_bits [of "?it\<lparr>it_start := False\<rparr>" ?ms "curTimeMs s" ?w rest, OF _ _ ok sync]
      b(1) that by auto
  have eq: "put_time t s = (let s1 = s\<lparr>curTime := ut, curDelta := ?delta\<rparr> in
      if fullResolution s then s1\<lparr>leadingMs := fst (value_window (?ms XOR curTimeMs s) ?w),
        trailingMs := snd (value_window (?ms XOR curTimeMs s) ?w), curTimeMs := ?ms\<rparr> else s1)"
    using sp by (simp add: put_time_def Let_def)
  have cast: "(ucast (ucast x :: u64) :: u32) = x" for x
    by (rule bit_word_eqI) (simp add: bit_simps)
  have start: "it_start it \<longleftrightarrow> curTime s = 0"
    using assms(2) by (simp add: time_match_def)
  show ?thesis
  proof (cases "fullResolution s")
    case False
    then have "readTimeDelta it = (True, ?it)"
      using b(2) assms(2) start by (auto simp: readTimeDelta_def Let_def cast time_match_def)
    with False b(1) assms(2,3) start show ?thesis
      by (simp add: eq time_match_def value_match_def)
  next
    case True
    with ms obtain ld tr b' where
      u: "uncompressValue (curTimeMs s) (it_leadingMs it) (it_trailingMs it) (?it\<lparr>it_start := False\<rparr>)
        = ((True, ?ms, ld, tr), ?it\<lparr>it_start := False, br := b'\<rparr>)"
      and "reader_bits b' rest" "synced (value_window (?ms XOR curTimeMs s) ?w) (ld, tr)" by blast
    let ?it' = "?it\<lparr>br := b', it_curTimeMs := ?ms, it_leadingMs := ld, it_trailingMs := tr\<rparr>"
    have "readTimeDelta it = (True, ?it')"
      using b(2) assms(2) start u True
      by (cases it) (auto simp: readTimeDelta_def Let_def cast time_match_def)
    with True \<open>reader_bits b' rest\<close> \<open>synced _ (ld, tr)\<close> assms(2,3) start show ?thesis
      by (simp add: eq time_match_def value_match_def)
  qed
qed


end
