(* ===== verification/Gorilla_Roundtrip.thy ===== *)
theory Gorilla_Roundtrip
  imports Gorilla_Steps
begin

text \<open>
  The Gorilla series as a whole: what a point, the header and the end marker put on the wire, that
  \<open>AddPoint\<close> writes and \<open>Next\<close> reads exactly this, and the round trip of a series through its bytes.
\<close>

section \<open>Points\<close>

definition small_point :: "point \<Rightarrow> bool" where
  "small_point p = (case p of (t, mn, mx, l, sm, c) \<Rightarrow> c = 1 \<or> sameFloatVals mn mx l sm)"

definition point_slots :: "point \<Rightarrow> (nat \<times> f64) list" where
  "point_slots p = (case p of (t, mn, mx, l, sm, c) \<Rightarrow>
     if small_point p then [(3, sm)]
     else [(0, mn), (1, mx), (2, l), (3, sm), (4, f64_of_i64 c)])"

definition point_bits :: "point \<Rightarrow> GorillaTimeSeries \<Rightarrow> bool list" where
  "point_bits p s = time_bits (fst p) s @ [\<not> small_point p]
     @ slots_bits (curTime s = 0) (point_slots p) (put_time (fst p) s)"

definition put_point :: "point \<Rightarrow> GorillaTimeSeries \<Rightarrow> GorillaTimeSeries" where
  "put_point p s = (put_slots (curTime s = 0) (point_slots p) (put_time (fst p) s))
     \<lparr>curCount := curCount s + 1\<rparr>"

text \<open>The point that is read back: what the format keeps of the point written.\<close>

definition stored_point :: "bool \<Rightarrow> point \<Rightarrow> point" where
  "stored_point full p = (case p of (t, mn, mx, l, sm, c) \<Rightarrow>
     let t' = combineSecNano (fst (splitNano t)) (if full then snd (splitNano t) else 0) in
     if small_point p then (t', sm, sm, sm, sm, 1)
     else (t', mn, mx, l, sm, i64_of_f64 (f64_of_i64 c)))"

definition add_point :: "point \<Rightarrow> GorillaTimeSeries \<Rightarrow> (series_error option \<times> GorillaTimeSeries) option" where
  "add_point p = (case p of (t, mn, mx, l, sm, c) \<Rightarrow> AddPoint t mn mx l sm c)"

definition series_inv :: "GorillaTimeSeries \<Rightarrow> bool" where
  "series_inv s \<longleftrightarrow> value_inv s \<and> time_inv s \<and> smartEncoding s \<and> numValues s = 5"

definition series_match :: "GorillaTimeSeries \<Rightarrow> GorillaIter \<Rightarrow> bool" where
  "series_match s it \<longleftrightarrow> value_match s it \<and> time_match s it
     \<and> it_smartEncoding it \<and> it_numValues it = 5 \<and> it_err it = None \<and> \<not> finished it"

lemma put_slot_frame [simp]:
  "curTime (put_slot first i v s) = curTime s" "curCount (put_slot first i v s) = curCount s"
  "smartEncoding (put_slot first i v s) = smartEncoding s"
  "numValues (put_slot first i v s) = numValues s" "fullResolution (put_slot first i v s) = fullResolution s"
  "Ts (put_slot first i v s) = Ts s" "curTimeMs (put_slot first i v s) = curTimeMs s"
  "time_inv (put_slot first i v s) = time_inv s"
  "time_match (put_slot first i v s) it = time_match s it"
  by (simp_all add: put_slot_def time_inv_def time_match_def)

lemma put_slots_frame [simp]:
  "curTime (put_slots first ivs s) = curTime s" "curCount (put_slots first ivs s) = curCount s"
  "smartEncoding (put_slots first ivs s) = smartEncoding s"
  "numValues (put_slots first ivs s) = numValues s" "fullResolution (put_slots first ivs s) = fullResolution s"
  "Ts (put_slots first ivs s) = Ts s" "curTimeMs (put_slots first ivs s) = curTimeMs s"
  "time_inv (put_slots first ivs s) = time_inv s"
  "time_match (put_slots first ivs s) it = time_match s it"
  by (induction first ivs s rule: put_slots.induct) simp_all

lemma put_slots_more:
  "leadingMs (put_slots first ivs s) = leadingMs s" "trailingMs (put_slots first ivs s) = trailingMs s"
  "curDelta (put_slots first ivs s) = curDelta s"
  by (induction first ivs s rule: put_slots.induct) (simp_all add: put_slot_def)

lemma same_time_more:
  assumes "same_time it it'"
  shows "it_Ts it' = it_Ts it" "it_fullResolution it' = it_fullResolution it"
    "it_leadingMs it' = it_leadingMs it" "it_trailingMs it' = it_trailingMs it"
    "it_tDelta it' = it_tDelta it"
  by (subst assms [unfolded same_time_def]; simp)+

lemma put_time_frame [simp]:
  "curTime (put_time t s) = fst (splitNano t)" "curCount (put_time t s) = curCount s"
  "smartEncoding (put_time t s) = smartEncoding s" "numValues (put_time t s) = numValues s"
  "fullResolution (put_time t s) = fullResolution s" "Ts (put_time t s) = Ts s"
  "curVals (put_time t s) = curVals s"
  by (simp_all add: put_time_def Let_def)

lemma curCount_frame [simp]:
  "value_inv (s\<lparr>curCount := c\<rparr>) = value_inv s" "time_inv (s\<lparr>curCount := c\<rparr>) = time_inv s"
  "value_match (s\<lparr>curCount := c\<rparr>) it = value_match s it"
  "time_match (s\<lparr>curCount := c\<rparr>) it = time_match s it"
  by (simp_all add: value_inv_def time_inv_def value_match_def time_match_def)

lemma point_slots_bound: "\<forall>(i, v)\<in>set (point_slots p). i < 5"
  by (auto simp: point_slots_def split: prod.splits)

lemma series_inv_bw [simp]: "series_inv (s\<lparr>bw := b\<rparr>) = series_inv s"
  by (simp add: series_inv_def)

lemma put_point_inv: "series_inv s \<Longrightarrow> series_inv (put_point p s)"
  by (simp add: series_inv_def put_point_def put_slots_inv put_time_inv point_slots_bound)

lemma add_point_bits:
  assumes "series_inv s" and "writer_bits (bw s) xs"
  shows "\<exists>b. add_point p s = Some (None, (put_point p s)\<lparr>bw := b\<rparr>)
    \<and> writer_bits b (xs @ point_bits p s)"
proof -
  obtain t mn mx l sm c where p: "p = (t, mn, mx, l, sm, c)" by (metis prod.exhaust)
  from assms have inv: "value_inv s" "time_inv s" "smartEncoding s" "numValues s = 5"
    by (auto simp: series_inv_def)
  from AddTime_bits [OF inv(2) assms(2), of t] obtain b1 where
    b1: "AddTime t s = Some (None, (put_time t s)\<lparr>bw := b1\<rparr>)" "writer_bits b1 (xs @ time_bits t s)"
    by blast
  from bw.put_bit [OF b1(2), of "\<not> small_point p"] obtain b2 where
    b2: "WriteBit (\<not> small_point p) b1 = Some b2"
      "writer_bits b2 ((xs @ time_bits t s) @ [\<not> small_point p])" by blast
  from addValues_bits [of "(put_time t s)\<lparr>bw := b2\<rparr>" "(xs @ time_bits t s) @ [\<not> small_point p]",
      OF _ _ point_slots_bound, of p "curTime s = 0"]
    put_time_inv(2) [OF inv(1), of t] b2(2) obtain b3 where
    b3: "addValues (point_slots p) (curTime s = 0) ((put_time t s)\<lparr>bw := b2\<rparr>) =
        Some ((put_slots (curTime s = 0) (point_slots p) (put_time t s))\<lparr>bw := b3\<rparr>)"
      "writer_bits b3 (((xs @ time_bits t s) @ [\<not> small_point p])
        @ slots_bits (curTime s = 0) (point_slots p) (put_time t s))"
    by auto
  have "add_point p s = Some (None, (put_point p s)\<lparr>bw := b3\<rparr>)"
  proof (cases "small_point p")
    case True
    then have small: "c = 1 \<or> sameFloatVals mn mx l sm" and sl: "point_slots p = [(3, sm)]"
      by (auto simp: p small_point_def point_slots_def)
    have "addValue 3 sm (curTime s = 0) ((put_time t s)\<lparr>bw := b2\<rparr>) =
        Some ((put_slots (curTime s = 0) (point_slots p) (put_time t s))\<lparr>bw := b3\<rparr>)"
      using b3(1) by (auto simp: sl bind_eq_Some_conv)
    with small True b1(1) b2(1) inv p show ?thesis
      by (simp add: add_point_def AddPoint_def put_point_def Let_def)
  next
    case False
    then have big: "\<not> (c = 1 \<or> sameFloatVals mn mx l sm)"
      and sl: "point_slots p = [(0, mn), (1, mx), (2, l), (3, sm), (4, f64_of_i64 c)]"
      by (auto simp: p small_point_def point_slots_def)
    with False b1(1) b2(1) b3(1) inv p show ?thesis
      by (simp add: add_point_def AddPoint_def put_point_def Let_def
        del: addValues.simps put_slots.simps)
  qed
  with b3(2) show ?thesis
    by (auto simp: point_bits_def p)
qed


lemma point_slots_indices:
  "map fst (point_slots p) = (if small_point p then [3] else [0..<5])"
proof -
  have "[0..<5] = [0, 1, 2, 3, 4 :: nat]" by (simp add: upt_rec)
  then show ?thesis by (auto simp: point_slots_def split: prod.splits)
qed

lemma put_slot_vals: "curVals (put_slot first i v s) = (curVals s)[i := v]"
  by (simp add: put_slot_def)

lemma put_point_vals:
  assumes "length (curVals s) = 5" and "p = (t, mn, mx, l, sm, c)"
  shows "curVals (put_point p s) ! 3 = sm" "length (curVals (put_point p s)) = 5"
    and "\<not> small_point p \<Longrightarrow> curVals (put_point p s) = [mn, mx, l, sm, f64_of_i64 c]"
proof -
  obtain a b d e f where "curVals s = [a, b, d, e, f]"
    using assms(1) by (auto simp: length_Suc_conv numeral_eq_Suc)
  then show "curVals (put_point p s) ! 3 = sm" "length (curVals (put_point p s)) = 5"
    "\<not> small_point p \<Longrightarrow> curVals (put_point p s) = [mn, mx, l, sm, f64_of_i64 c]"
    using assms(2) by (auto simp: put_point_def point_slots_def put_slot_vals)
qed

lemma put_point_time:
  "curTime (put_point p s) = fst (splitNano (fst p))"
  "fullResolution (put_point p s) = fullResolution s" "Ts (put_point p s) = Ts s"
  "curTimeMs (put_point p s) = curTimeMs (put_time (fst p) s)"
  by (simp_all add: put_point_def)

lemma Values_point:
  assumes "value_inv s" and "time_inv s" and "it_curVals it = curVals (put_point p s)"
    and "it_curTime it = fst (splitNano (fst p))"
    and "it_curTimeMs it = curTimeMs (put_time (fst p) s)" and "curSmartEnc it = (\<not> small_point p)"
  shows "Values it = Some (stored_point (fullResolution s) p)"
proof -
  obtain t mn mx l sm c where p: "p = (t, mn, mx, l, sm, c)" by (metis prod.exhaust)
  have len: "length (curVals s) = 5" using assms(1) by (simp add: value_inv_def)
  have ms: "u32_of_f64 (curTimeMs (put_time t s)) = (if fullResolution s then snd (splitNano t) else 0)"
    using assms(2) by (auto simp: put_time_def Let_def time_inv_def split: prod.split) code_simp+
  show ?thesis
    using put_point_vals [OF len p] assms(3-6) ms
    by (auto simp: p Values_def stored_point_def slice_get_def Let_def)
qed

lemma Next_bits:
  assumes "series_inv s" and "series_match s it" and "time_ok (fst p) s"
    and "reader_bits (br it) (point_bits p s @ rest)"
  shows "\<exists>it'. Next it = Some (True, it') \<and> series_match (put_point p s) it'
    \<and> reader_bits (br it') rest \<and> Values it' = Some (stored_point (fullResolution s) p)"
proof -
  let ?s1 = "put_time (fst p) s" and ?first = "curTime s = 0"
  have inv: "value_inv s" "time_inv s" and m: "value_match s it" "time_match s it"
    "it_smartEncoding it" "it_numValues it = 5" "it_err it = None" "\<not> finished it"
    using assms(1,2) by (auto simp: series_inv_def series_match_def)
  have start: "it_start it \<longleftrightarrow> ?first" using m(2) by (simp add: time_match_def)
  from readTimeDelta_bits [OF inv(2) m(2,1) assms(3)] assms(4) obtain it1 where
    r1: "readTimeDelta it = (True, it1)"
      "reader_bits (br it1) ((\<not> small_point p) # slots_bits ?first (point_slots p) ?s1 @ rest)"
      "value_match ?s1 it1" and f1: "it_Ts it1 = Ts s" "it_fullResolution it1 = fullResolution s"
      "it_curTimeMs it1 = curTimeMs ?s1"
      "synced (leadingMs ?s1, trailingMs ?s1) (it_leadingMs it1, it_trailingMs it1)"
      "it_curTime it1 = curTime ?s1" "it_tDelta it1 = curDelta ?s1" "it_start it1 = ?first"
      "it_smartEncoding it1" "it_numValues it1 = 5" "it_err it1 = None" "\<not> finished it1"
    unfolding point_bits_def start [symmetric] using m by fastforce
  from it_bit_Cons [OF r1(2)] obtain b2 where
    b2: "it_bit it1 = (Inr (\<not> small_point p), it1\<lparr>br := b2\<rparr>)"
      "reader_bits b2 (slots_bits ?first (point_slots p) ?s1 @ rest)" by blast
  let ?it3 = "it1\<lparr>br := b2, curSmartEnc := \<not> small_point p\<rparr>"
  have "value_match ?s1 ?it3" using r1(3) by (simp add: value_match_def)
  from readValues_bits [OF put_time_inv(2) [OF inv(1)] this point_slots_bound [of p], of ?first rest]
  obtain it4 where it4: "readValues (map fst (point_slots p)) ?it3 = Some (True, it4)"
      "same_time ?it3 it4" "value_match (put_slots ?first (point_slots p) ?s1) it4"
      "reader_bits (br it4) rest"
    using b2(2) f1(7) by auto
  let ?it' = "it4\<lparr>it_start := False\<rparr>"
  have "Next it = Some (True, ?it')"
    using m(5,6) r1(1) b2(1) it4(1) f1(8,9) 
    by (auto simp: Next_def Let_def point_slots_indices simp del: readValues.simps)
  moreover have fields: "it_curTime it4 = fst (splitNano (fst p))" "it_curTimeMs it4 = curTimeMs ?s1"
    "curSmartEnc it4 = (\<not> small_point p)" "it_err it4 = None" "\<not> finished it4"
    "it_smartEncoding it4" "it_numValues it4 = 5"
    using same_time_fields [OF it4(2)] f1 by simp_all
  moreover have "time_match (put_point p s) ?it'"
    using same_time_more [OF it4(2)] f1 fields assms(3)
    by (auto simp: time_match_def put_point_def time_ok_def put_slots_more)
  moreover have "value_match (put_point p s) ?it'"
    using it4(3) by (simp add: put_point_def value_match_def)
  moreover have "Values ?it' = Some (stored_point (fullResolution s) p)"
    using Values_point [OF inv, of ?it' p] it4(3) fields
    by (simp add: value_match_def put_point_def)
  ultimately show ?thesis using it4(4) by (auto simp: series_match_def)
qed


section \<open>The end marker and the header\<close>

lemma Next_end:
  assumes "reader_bits (br it) (end_bits @ rest)" and "it_err it = None" and "\<not> finished it"
    and "\<not> it_start it"
  shows "\<exists>it'. Next it = Some (False, it') \<and> finished it' \<and> it_err it' = None"
proof -
  have "reader_bits (br it) (replicate 4 True @ word_bits 32 (0xffffffff :: u64) @ False # rest)"
    using assms(1) replicate_add [of 4 32 True] unfolding word_bits_all_ones end_bits_def by simp
  from read_prefix_ones [OF this, of 0] obtain b where b: "read_prefix 4 0 it = (Some 0x0f, it\<lparr>br := b\<rparr>)"
    "reader_bits b (word_bits 32 (0xffffffff :: u64) @ False # rest)"
    by (auto simp: numeral_eq_Suc)
  from it_bits_word [of "it\<lparr>br := b\<rparr>" 32 "0xffffffff"] b(2) obtain b' where
    "it_bits 32 (it\<lparr>br := b\<rparr>) = (Inr 0xffffffff, it\<lparr>br := b'\<rparr>)" by auto
  with b(1) assms(2-4) show ?thesis
    by (simp add: Next_def readTimeDelta_def read_dod_def)
qed

definition header_bits :: "GorillaTimeSeries \<Rightarrow> bool list" where
  "header_bits s = stream_bits (if fullResolution s then tag_nano_smart else tag_second)
     @ word_bits 8 (ucast (numValues s) :: u64) @ word_bits 32 (ucast (Ts s) :: u64)
     @ (if fullResolution s then word_bits 32 (ucast (Tms s) :: u64) else [])"

lemma NewGoriallaTimeSeries_bits:
  assumes "NumValues opts = 5"
  shows "\<exists>s. NewGoriallaTimeSeries t0 opts = Some s \<and> series_inv s \<and> writer_bits (bw s) (header_bits s)
    \<and> curTime s = 0 \<and> Ts s = fst (splitNano t0) \<and> Tms s = snd (splitNano t0)
    \<and> fullResolution s = HighTimeResolution opts \<and> numValues s = 5
    \<and> curVals s = replicate 5 0 \<and> leading s = replicate 5 (- 1) \<and> leadingMs s = - 1
    \<and> curTimeMs s = (if fullResolution s then f64_of_u32 (Tms s) else 0)"
proof -
  obtain ts tms where sp: "splitNano t0 = (ts, tms)" by fastforce
  let ?tag = "if HighTimeResolution opts then tag_nano_smart else tag_second"
  have "writer_bits \<lparr>stream = [], count = 0, bitsWritten = 0, bitsRead = 0\<rparr> []"
    by (simp add: writer_bits_def)
  from WriteBytes_bits [OF this, of ?tag] obtain b1 where
    b1: "WriteBytes ?tag \<lparr>stream = [], count = 0, bitsWritten = 0, bitsRead = 0\<rparr> = Some b1"
      "writer_bits b1 (stream_bits ?tag)" by auto
  from bw.put_bits [OF b1(2), of 8 5] obtain b2 where b2: "WriteBits 5 8 b1 = Some b2"
    "writer_bits b2 (stream_bits ?tag @ word_bits 8 (5 :: u64))" by auto
  from bw.put_bits [OF b2(2), of 32 "ucast ts"] obtain b3 where b3: "WriteBits (ucast ts) 32 b2 = Some b3"
    "writer_bits b3 (stream_bits ?tag @ word_bits 8 (5 :: u64) @ word_bits 32 (ucast ts :: u64))" by auto
  from bw.put_bits [OF b3(2), of 32 "ucast tms"] obtain b4 where b4: "WriteBits (ucast tms) 32 b3 = Some b4"
    "writer_bits b4 (stream_bits ?tag @ word_bits 8 (5 :: u64) @ word_bits 32 (ucast ts :: u64)
      @ word_bits 32 (ucast tms :: u64))" by auto
  show ?thesis
    using b1(1) b2(1) b3 b4 assms
    by (auto simp: NewGoriallaTimeSeries_def writeHeader_def sp Let_def series_inv_def value_inv_def
        time_inv_def window_ok_def header_bits_def)
qed

lemma tag_bytes: "tag_second \<noteq> []" "length tag_second = 4" "tag_nano_smart \<noteq> []"
  "length tag_nano_smart = 4" "tag_nano_smart \<noteq> tag_second"
  by (simp_all add: tag_second_def tag_nano_smart_def)

lemma NewGorillaIter_bits:
  assumes "numValues s = 5" and "curVals s = replicate 5 0" and "leading s = replicate 5 (- 1)"
    and "leadingMs s = - 1" and "curTime s = 0"
    and "curTimeMs s = (if fullResolution s then f64_of_u32 (Tms s) else 0)"
    and "stream_bits bytes = header_bits s @ rest"
  shows "\<exists>it. NewGorillaIterFromBytes bytes = Inr it \<and> series_match s it \<and> reader_bits (br it) rest"
proof -
  let ?tag = "if fullResolution s then tag_nano_smart else tag_second"
  have cast: "(ucast (ucast x :: u64) :: u32) = x" "take_bit 32 (ucast x :: u64) = ucast x" for x :: u32
    by (rule bit_word_eqI, auto simp: bit_simps dest: bit_imp_le_length)+
  have ms: "f64_of_u64 (ucast x) = f64_of_u32 x" for x :: u32
    by (simp add: f64_of_u64_def f64_of_u32_def uint_up_ucast is_up)
  have "SetCount 8 (NewBReader bytes) = NewBReader bytes"
    by (simp add: SetCount_def NewBReader_def)
  moreover have "reader_bits (NewBReader bytes) (stream_bits ?tag @ word_bits 8 (5 :: u64)
      @ word_bits 32 (ucast (Ts s) :: u64)
      @ (if fullResolution s then word_bits 32 (ucast (Tms s) :: u64) else []) @ rest)"
    using NewBReader_bits [of bytes] assms(1,7) by (simp add: header_bits_def)
  moreover have "?tag \<noteq> []" "length ?tag = unat (4 :: u8)" by (simp_all add: tag_bytes)
  ultimately obtain b1 where set: "SetCount 8 (NewBReader bytes) = NewBReader bytes" and
    b1: "ReadBytes 4 (NewBReader bytes) = (Inr ?tag, b1)"
      "reader_bits b1 (word_bits 8 (5 :: u64) @ word_bits 32 (ucast (Ts s) :: u64)
      @ (if fullResolution s then word_bits 32 (ucast (Tms s) :: u64) else []) @ rest)"
    using ReadBytes_bits by blast
  from br.get_bits_word [OF b1(2)] obtain b2 where b2: "ReadBits 8 b1 = (Inr 5, b2)"
    "reader_bits b2 (word_bits 32 (ucast (Ts s) :: u64)
      @ (if fullResolution s then word_bits 32 (ucast (Tms s) :: u64) else []) @ rest)" by auto
  from br.get_bits_word [OF b2(2)] obtain b3 where b3: "ReadBits 32 b2 = (Inr (ucast (Ts s)), b3)"
    "reader_bits b3 ((if fullResolution s then word_bits 32 (ucast (Tms s) :: u64) else []) @ rest)"
    by (auto simp: cast)
  show ?thesis
  proof (cases "fullResolution s")
    case True
    then have "reader_bits b3 (word_bits 32 (ucast (Tms s) :: u64) @ rest)" using b3(2) by simp
    from br.get_bits_word [OF this] obtain b4 where
      "ReadBits 32 b3 = (Inr (ucast (Tms s)), b4)" "reader_bits b4 rest" by (auto simp: cast)
    with True b1(1) b2(1) b3(1) assms set show ?thesis
      by (auto simp: NewGorillaIterFromBytes_def NewGorillaIterFromBStream_def Let_def tag_bytes cast ms
        series_match_def value_match_def time_match_def synced_def)
  next
    case False
    with b1(1) b2(1) b3 assms set show ?thesis
      by (auto simp: NewGorillaIterFromBytes_def NewGorillaIterFromBStream_def Let_def tag_bytes cast
        series_match_def value_match_def time_match_def synced_def)
  qed
qed

section \<open>Whole series\<close>

text \<open>A client that adds points until one is refused, and one that reads an iterator to its end.\<close>

fun add_points :: "point list \<Rightarrow> GorillaTimeSeries \<Rightarrow> (series_error option \<times> GorillaTimeSeries) option" where
  "add_points [] s = Some (None, s)"
| "add_points (p # ps) s = do {
     (err, s1) \<leftarrow> add_point p s;
     if err \<noteq> None then Some (err, s1) else add_points ps s1 }"

partial_function (option) read_points :: "GorillaIter \<Rightarrow> (point list \<times> GorillaIter) option" where
  "read_points it = do {
     (more, it1) \<leftarrow> Next it;
     if more then do {
       p \<leftarrow> Values it1;
       (ps, it2) \<leftarrow> read_points it1;
       Some (p # ps, it2) }
     else Some ([], it1) }"

fun points_bits :: "point list \<Rightarrow> GorillaTimeSeries \<Rightarrow> bool list" where
  "points_bits [] s = []"
| "points_bits (p # ps) s = point_bits p s @ points_bits ps (put_point p s)"

fun put_points :: "point list \<Rightarrow> GorillaTimeSeries \<Rightarrow> GorillaTimeSeries" where
  "put_points [] s = s"
| "put_points (p # ps) s = put_points ps (put_point p s)"


lemma put_time_bw [simp]:
  "put_time t (s\<lparr>bw := b\<rparr>) = (put_time t s)\<lparr>bw := b\<rparr>"
  "time_bits t (s\<lparr>bw := b\<rparr>) = time_bits t s"
  by (simp_all add: put_time_def time_bits_def Let_def split: prod.split)

lemma put_point_bw [simp]:
  "put_point p (s\<lparr>bw := b\<rparr>) = (put_point p s)\<lparr>bw := b\<rparr>"
  "point_bits p (s\<lparr>bw := b\<rparr>) = point_bits p s"
  by (simp_all add: put_point_def point_bits_def)

lemma put_points_bw [simp]:
  "put_points ps (s\<lparr>bw := b\<rparr>) = (put_points ps s)\<lparr>bw := b\<rparr>"
  "points_bits ps (s\<lparr>bw := b\<rparr>) = points_bits ps s"
  by (induction ps arbitrary: s) auto

lemma add_points_bits:
  "series_inv s \<Longrightarrow> writer_bits (bw s) xs \<Longrightarrow>
    \<exists>b. add_points ps s = Some (None, (put_points ps s)\<lparr>bw := b\<rparr>)
      \<and> writer_bits b (xs @ points_bits ps s)"
proof (induction ps arbitrary: s xs)
  case Nil
  then show ?case by (intro exI [of _ "bw s"]) simp
next
  case (Cons p ps)
  from add_point_bits [OF Cons.prems, of p] obtain b where
    b: "add_point p s = Some (None, (put_point p s)\<lparr>bw := b\<rparr>)" "writer_bits b (xs @ point_bits p s)"
    by blast
  with Cons.IH [of "(put_point p s)\<lparr>bw := b\<rparr>"] put_point_inv [OF Cons.prems(1), of p] show ?case
    by fastforce
qed

definition points_ok :: "point list \<Rightarrow> GorillaTimeSeries \<Rightarrow> bool" where
  "points_ok ps s \<longleftrightarrow> (\<forall>p\<in>set ps. fst (splitNano (fst p)) \<noteq> 0)
     \<and> (curTime s = 0 \<longrightarrow> ps \<noteq> [] \<and> time_ok (fst (hd ps)) s)"

lemma points_ok_Cons:
  "points_ok (p # ps) s \<Longrightarrow> time_ok (fst p) s \<and> points_ok ps (put_point p s)"
  by (auto simp: points_ok_def time_ok_def put_point_time)

lemma read_points_bits:
  "series_inv s \<Longrightarrow> series_match s it \<Longrightarrow> points_ok ps s \<Longrightarrow>
    reader_bits (br it) (points_bits ps s @ end_bits @ rest) \<Longrightarrow>
    \<exists>it'. read_points it = Some (map (stored_point (fullResolution s)) ps, it')
      \<and> finished it' \<and> it_err it' = None"
proof (induction ps arbitrary: s it)
  case Nil
  then have "\<not> it_start it" "it_err it = None" "\<not> finished it"
    by (auto simp: points_ok_def series_match_def time_match_def)
  with Next_end [of it rest] Nil.prems(4) show ?case
    by (auto simp: read_points.simps [of it])
next
  case (Cons p ps)
  from points_ok_Cons [OF Cons.prems(3)] have ok: "time_ok (fst p) s" "points_ok ps (put_point p s)"
    by auto
  from Next_bits [OF Cons.prems(1,2) ok(1)] Cons.prems(4) obtain it1 where
    it1: "Next it = Some (True, it1)" "series_match (put_point p s) it1"
      "reader_bits (br it1) (points_bits ps (put_point p s) @ end_bits @ rest)"
      "Values it1 = Some (stored_point (fullResolution s) p)" by auto
  from Cons.IH [OF put_point_inv [OF Cons.prems(1)] it1(2) ok(2) it1(3)] it1(1,4) show ?case
    by (auto simp: read_points.simps [of it] put_point_time)
qed

lemma series_Bytes_bits:
  assumes "writer_bits (bw s) xs"
  shows "\<exists>bytes pad. series_Bytes s = Some bytes \<and> stream_bits bytes = xs @ end_bits @ pad"
proof -
  have "writer_bits (Clone (bw s)) xs" using assms by (simp add: writer_bits_def Clone_def)
  from bw.emits_run [OF setFinished_bits this] show ?thesis
    by (auto simp: series_Bytes_def Bytes_def writer_bits_def)
qed

lemma header_bits_bw [simp]: "header_bits (s\<lparr>bw := b\<rparr>) = header_bits s"
  by (simp add: header_bits_def)

lemma series_round_trip:
  assumes "NumValues opts = 5" and "ps \<noteq> []"
    and "\<forall>p\<in>set ps. fst (splitNano (fst p)) \<noteq> 0"
    and "unat (fst (splitNano (fst (hd ps))) - fst (splitNano t0)) < 2 ^ 14"
  shows "\<exists>s0 s bytes it it'. NewGoriallaTimeSeries t0 opts = Some s0
    \<and> add_points ps s0 = Some (None, s)
    \<and> series_Bytes s = Some bytes
    \<and> NewGorillaIterFromBytes bytes = Inr it
    \<and> read_points it = Some (map (stored_point (HighTimeResolution opts)) ps, it')
    \<and> finished it' \<and> it_err it' = None"
proof -
  from NewGoriallaTimeSeries_bits [OF assms(1), of t0] obtain s0 where
    s0: "NewGoriallaTimeSeries t0 opts = Some s0" "series_inv s0" "writer_bits (bw s0) (header_bits s0)"
      "curTime s0 = 0" "Ts s0 = fst (splitNano t0)" "fullResolution s0 = HighTimeResolution opts"
      and hd: "numValues s0 = 5" "curVals s0 = replicate 5 0" "leading s0 = replicate 5 (- 1)"
      "leadingMs s0 = - 1" "curTimeMs s0 = (if fullResolution s0 then f64_of_u32 (Tms s0) else 0)"
    by auto
  from add_points_bits [OF s0(2,3), of ps] obtain b where
    b: "add_points ps s0 = Some (None, (put_points ps s0)\<lparr>bw := b\<rparr>)"
      "writer_bits b (header_bits s0 @ points_bits ps s0)" by blast
  from series_Bytes_bits [of "(put_points ps s0)\<lparr>bw := b\<rparr>" "header_bits s0 @ points_bits ps s0"]
    b(2) obtain bytes pad where
    bytes: "series_Bytes ((put_points ps s0)\<lparr>bw := b\<rparr>) = Some bytes"
      "stream_bits bytes = header_bits s0 @ points_bits ps s0 @ end_bits @ pad" by auto
  from NewGorillaIter_bits [OF hd(1-4) s0(4) hd(5) bytes(2)] obtain it where
    it: "NewGorillaIterFromBytes bytes = Inr it" "series_match s0 it"
      "reader_bits (br it) (points_bits ps s0 @ end_bits @ pad)" by blast
  have "points_ok ps s0" using assms s0(4,5) by (auto simp: points_ok_def time_ok_def)
  from read_points_bits [OF s0(2) it(2) this it(3)] s0(1,6) b(1) bytes(1) it(1) show ?thesis
    by auto
qed

text \<open>
  C1. A series of five values gives back the points added to it. Points are added to a new
  series, the series is turned into bytes, and an iterator over these bytes is read to its end:
  no step fails, the iterator ends at the end marker without an error, and it returns, in order,
  exactly what the format keeps of each point (\<open>stored_point\<close>). The times need not be ordered; they
  must have a second that is not zero, and the first must lie less than \<open>2^14\<close> seconds after the
  start time of the series.
\<close>

theorem gorilla_round_trip:
  assumes "NumValues opts = 5" and "ps \<noteq> []"
    and "\<forall>p\<in>set ps. fst (splitNano (fst p)) \<noteq> 0"
    and "unat (fst (splitNano (fst (hd ps))) - fst (splitNano t0)) < 2 ^ 14"
  shows "\<exists>s0 s bytes it it'. NewGoriallaTimeSeries t0 opts = Some s0
    \<and> add_points ps s0 = Some (None, s)
    \<and> series_Bytes s = Some bytes
    \<and> NewGorillaIterFromBytes bytes = Inr it
    \<and> read_points it = Some (map (stored_point (HighTimeResolution opts)) ps, it')
    \<and> finished it' \<and> it_err it' = None"
  by (rule series_round_trip [OF assms])

text \<open>Two points of a series that starts in November 2016, the second one within the same second.\<close>

definition sample_start :: i64 where "sample_start = 1478000000000000000"

definition sample_points :: "point list" where
  "sample_points =
     [(1478000010000000000, 0x3FF0000000000000, 0x4008000000000000, 0x4000000000000000, 0x4018000000000000, 3),
      (1478000010500000000, 0x4010000000000000, 0x4010000000000000, 0x4010000000000000, 0x4010000000000000, 1)]"

theorem gorilla_round_trip_witness:
  "\<exists>s0 s bytes it it'. NewGoriallaTimeSeries sample_start (NewOptions 5 True) = Some s0
    \<and> add_points sample_points s0 = Some (None, s)
    \<and> series_Bytes s = Some bytes
    \<and> NewGorillaIterFromBytes bytes = Inr it
    \<and> read_points it = Some (sample_points, it')
    \<and> finished it' \<and> it_err it' = None"
proof -
  have "\<forall>p\<in>set sample_points. fst (splitNano (fst p)) \<noteq> 0" by code_simp
  moreover have "unat (fst (splitNano (fst (hd sample_points))) - fst (splitNano sample_start)) < 2 ^ 14"
    by code_simp
  moreover have "map (stored_point True) sample_points = sample_points" by code_simp
  moreover have "sample_points \<noteq> []" by (simp add: sample_points_def)
  ultimately show ?thesis
    using gorilla_round_trip [of "NewOptions 5 True" sample_points sample_start]
    by (simp add: NewOptions_def)
qed

section \<open>What a series reports of itself\<close>

lemma put_points_inv: "series_inv s \<Longrightarrow> series_inv (put_points ps s)"
  by (induction ps arbitrary: s) (simp_all add: put_point_inv)

lemma put_point_fields:
  "curCount (put_point p s) = curCount s + 1" "Tms (put_point p s) = Tms s"
proof -
  have "Tms (put_slots first ivs s) = Tms s" for first ivs and s :: GorillaTimeSeries
    by (induction first ivs s rule: put_slots.induct) (simp_all add: put_slot_def)
  then show "Tms (put_point p s) = Tms s"
    by (simp add: put_point_def put_time_def Let_def split: prod.split)
qed (simp add: put_point_def)

lemma put_points_fields:
  "curCount (put_points ps s) = curCount s + int (length ps)"
  "Ts (put_points ps s) = Ts s" "Tms (put_points ps s) = Tms s"
  "fullResolution (put_points ps s) = fullResolution s"
  by (induction ps arbitrary: s) (simp_all add: put_point_fields put_point_time)

lemma put_points_last:
  "ps \<noteq> [] \<Longrightarrow> curTime (put_points ps s) = fst (splitNano (fst (last ps)))
    \<and> (fullResolution s \<longrightarrow> curTimeMs (put_points ps s) = f64_of_u32 (snd (splitNano (fst (last ps)))))"
proof (induction ps arbitrary: s)
  case (Cons p ps)
  then show ?case
    by (cases ps) (auto simp: put_point_time put_time_def Let_def split: prod.split)
qed simp

text \<open>
  A series of five values knows its points: after points were added to a new series, its count
  is their number, its start time is the start it was made with (as seconds and nanoseconds), and
  its last time is the time that reading gives for the last point.
\<close>

theorem series_reports:
  assumes "NumValues opts = 5" and "NewGoriallaTimeSeries t0 opts = Some s0"
    and "add_points ps s0 = Some (None, s)" and "ps \<noteq> []"
  shows "series_Count s = int (length ps)
    \<and> StartTime s = combineSecNano (fst (splitNano t0)) (snd (splitNano t0))
    \<and> LastTime s = fst (stored_point (HighTimeResolution opts) (last ps))"
proof (intro conjI)
  from NewGoriallaTimeSeries_bits [OF assms(1), of t0] assms(2) have
    s0: "series_inv s0" "writer_bits (bw s0) (header_bits s0)" "Ts s0 = fst (splitNano t0)"
      "Tms s0 = snd (splitNano t0)" "fullResolution s0 = HighTimeResolution opts" by auto
  from add_points_bits [OF this(1,2), of ps] assms(3) obtain b where
    s: "s = (put_points ps s0)\<lparr>bw := b\<rparr>" by auto
  have "curCount s0 = 0"
    using assms(2) by (auto simp: NewGoriallaTimeSeries_def writeHeader_def Let_def bind_eq_Some_conv
        split: prod.splits if_splits)
  then show "series_Count s = int (length ps)"
    by (simp add: s series_Count_def put_points_fields)
  show "StartTime s = combineSecNano (fst (splitNano t0)) (snd (splitNano t0))"
    by (simp add: s StartTime_def put_points_fields s0)
  have "time_inv (put_points ps s0)" using put_points_inv [OF s0(1)] by (simp add: series_inv_def)
  then have "\<not> HighTimeResolution opts \<Longrightarrow> u32_of_f64 (curTimeMs (put_points ps s0)) = 0"
    using s0(5) by (simp add: time_inv_def put_points_fields) code_simp
  with put_points_last [OF assms(4), of s0] s0(5)
  show "LastTime s = fst (stored_point (HighTimeResolution opts) (last ps))"
    by (auto simp: s LastTime_def stored_point_def Let_def split: prod.split)
qed

theorem series_reports_witness:
  "\<exists>s0 s. NewGoriallaTimeSeries sample_start (NewOptions 5 True) = Some s0
    \<and> add_points sample_points s0 = Some (None, s) \<and> series_Count s = 2
    \<and> LastTime s = 1478000010500000000"
proof -
  from NewGoriallaTimeSeries_bits [of "NewOptions 5 True" sample_start] obtain s0 where
    s0: "NewGoriallaTimeSeries sample_start (NewOptions 5 True) = Some s0" "series_inv s0"
      "writer_bits (bw s0) (header_bits s0)" by (auto simp: NewOptions_def)
  from add_points_bits [OF s0(2,3), of sample_points] obtain s where
    s: "add_points sample_points s0 = Some (None, s)" by blast
  have "fst (stored_point True (last sample_points)) = 1478000010500000000" by code_simp
  moreover have "sample_points \<noteq> []" "length sample_points = 2" by code_simp+
  ultimately show ?thesis
    using series_reports [OF _ s0(1) s] s0(1) s by (simp add: NewOptions_def)
qed

section \<open>What the format keeps\<close>

lemma combine_split:
  assumes "2147483647 < sint t" and "sint t < 2 ^ 32 * nanos"
  shows "combineSecNano (fst (splitNano t)) (snd (splitNano t)) = t"
proof -
  have "0 \<le> unix_sec t" "unix_sec t < 2 ^ 32"
    using assms by (auto simp: unix_sec_def nanos_def)
  moreover have "0 \<le> unix_nsec t" "unix_nsec t < 2 ^ 32"
    using unix_nsec_bounds [of t] by (auto simp: nanos_def simp del: unix_nsec_bounds)
  ultimately have "uint (word_of_int (unix_sec t) :: u32) = unix_sec t"
    "uint (word_of_int (unix_nsec t) :: u32) = unix_nsec t"
    by (simp_all add: uint_word_of_int)
  with assms(1) show ?thesis by (simp add: splitNano_def combineSecNano_def)
qed

lemma split_nano_sec:
  assumes "2147483647 < sint t" and "sint t < 2 ^ 32 * nanos"
  shows "fst (splitNano t) \<noteq> 0"
proof -
  have "0 < unix_sec t" "unix_sec t < 2 ^ 32" using assms by (auto simp: unix_sec_def nanos_def)
  then have "uint (word_of_int (unix_sec t) :: u32) \<noteq> 0" by (simp add: uint_word_of_int)
  then have "(word_of_int (unix_sec t) :: u32) \<noteq> 0" by (metis unsigned_0)
  with assms(1) show ?thesis by (simp add: splitNano_def)
qed

text \<open>A point that loses nothing by the choice of the short form of four values in one.\<close>

definition kept_whole :: "point \<Rightarrow> bool" where
  "kept_whole p = (case p of (t, mn, mx, l, sm, c) \<Rightarrow>
     (c = 1 \<or> sameFloatVals mn mx l sm) \<longrightarrow> c = 1 \<and> mn = sm \<and> mx = sm \<and> l = sm)"

definition in_range :: "point \<Rightarrow> bool" where
  "in_range p = (case p of (t, mn, mx, l, sm, c) \<Rightarrow>
     2147483647 < sint t \<and> sint t < 2 ^ 32 * nanos \<and> \<bar>sint c\<bar> < 2 ^ 53)"

lemma stored_point_same:
  "in_range p \<Longrightarrow> stored_point True p = p \<longleftrightarrow> kept_whole p"
  by (cases p) (auto simp: stored_point_def small_point_def in_range_def kept_whole_def combine_split
      i64_f64_roundtrip Let_def)

text \<open>
  C3. When a series at full resolution is lossless. Points whose times are in nanoseconds (above
  \<open>2^31\<close>, below the year 2106) and whose counts are below \<open>2^53\<close> in size are added to a new series of
  five values, the first less than \<open>2^14\<close> seconds after its start; the series is turned into bytes
  and these are read to their end. What is read are the very points that were added if and only if
  each point with a count of one, and each point whose four values compare as equal, has a count of
  one and four identical values. All other points always come back whole; these do not.
\<close>

theorem gorilla_exact:
  assumes "NumValues opts = 5" and "HighTimeResolution opts" and "ps \<noteq> []"
    and "list_all in_range ps"
    and "unat (fst (splitNano (fst (hd ps))) - fst (splitNano t0)) < 2 ^ 14"
  shows "\<exists>s0 s bytes it rs it'. NewGoriallaTimeSeries t0 opts = Some s0
    \<and> add_points ps s0 = Some (None, s)
    \<and> series_Bytes s = Some bytes
    \<and> NewGorillaIterFromBytes bytes = Inr it
    \<and> read_points it = Some (rs, it')
    \<and> (rs = ps \<longleftrightarrow> list_all kept_whole ps)"
proof -
  have "\<forall>p\<in>set ps. fst (splitNano (fst p)) \<noteq> 0"
    using assms(4) by (fastforce simp: list_all_iff in_range_def dest: split_nano_sec)
  note * = series_round_trip [OF assms(1,3) this assms(5)]
  have "map (stored_point True) ps = ps \<longleftrightarrow> list_all kept_whole ps"
    using assms(4) by (induction ps) (simp_all add: stored_point_same)
  with * assms(2) show ?thesis by auto
qed

text \<open>A third point has one value four times but a count of two, and is not kept.\<close>

definition lossy_points :: "point list" where
  "lossy_points = sample_points @ [(1478000011000000000, 0, 0, 0, 0, 2)]"

theorem gorilla_exact_witness:
  "(\<exists>s0 s bytes it it'. NewGoriallaTimeSeries sample_start (NewOptions 5 True) = Some s0
    \<and> add_points sample_points s0 = Some (None, s) \<and> series_Bytes s = Some bytes
    \<and> NewGorillaIterFromBytes bytes = Inr it \<and> read_points it = Some (sample_points, it')) \<and>
   (\<exists>s0 s bytes it rs it'. NewGoriallaTimeSeries sample_start (NewOptions 5 True) = Some s0
    \<and> add_points lossy_points s0 = Some (None, s) \<and> series_Bytes s = Some bytes
    \<and> NewGorillaIterFromBytes bytes = Inr it \<and> read_points it = Some (rs, it') \<and> rs \<noteq> lossy_points)"
proof -
  have "NumValues (NewOptions 5 True) = 5" "HighTimeResolution (NewOptions 5 True)"
    by (simp_all add: NewOptions_def)
  note * = gorilla_exact [OF this]
  have start: "unat (fst (splitNano (fst (hd sample_points))) - fst (splitNano sample_start)) < 2 ^ 14"
    "unat (fst (splitNano (fst (hd lossy_points))) - fst (splitNano sample_start)) < 2 ^ 14"
    by code_simp+
  have whole: "list_all kept_whole sample_points" "\<not> list_all kept_whole lossy_points" by code_simp+
  have range: "list_all in_range sample_points" "list_all in_range lossy_points" by code_simp+
  have ne: "sample_points \<noteq> []" "lossy_points \<noteq> []" by code_simp+
  show ?thesis
    using * [OF ne(1) range(1) start(1)] * [OF ne(2) range(2) start(2)] whole by metis
qed

end
