(* ===== verification/Gorilla_Safety.thy ===== *)
theory Gorilla_Safety
  imports Gorilla_Roundtrip
begin

text \<open>
  The iterator on bytes that no writer made: it never panics on five values or more, and it stops.
\<close>

definition left :: "nat \<Rightarrow> GorillaIter \<Rightarrow> bool" where
  "left k it \<longleftrightarrow> (\<exists>xs. reader_bits (br it) xs \<and> length xs \<le> k)"

definition keeps :: "GorillaIter \<Rightarrow> GorillaIter \<Rightarrow> bool" where
  "keeps it it' \<longleftrightarrow> it_numValues it' = it_numValues it \<and> it_smartEncoding it' = it_smartEncoding it
     \<and> length (it_curVals it') = length (it_curVals it)
     \<and> length (it_leading it') = length (it_leading it)
     \<and> length (it_trailing it') = length (it_trailing it)"

text \<open>
  A read either succeeds with at most \<open>k\<close> bits left and no change of the error or the end flag,
  or it fails with the error or the end flag set.
\<close>

definition outcome :: "nat \<Rightarrow> GorillaIter \<Rightarrow> bool \<Rightarrow> GorillaIter \<Rightarrow> bool" where
  "outcome k it ok it' \<longleftrightarrow> keeps it it' \<and>
     (if ok then left k it' \<and> it_err it' = it_err it \<and> finished it' = finished it
      else it_err it' \<noteq> None \<or> finished it')"

lemma keeps_refl [simp]: "keeps it it"
  by (simp add: keeps_def)

lemma keeps_trans: "keeps a b \<Longrightarrow> keeps b c \<Longrightarrow> keeps a c"
  by (simp add: keeps_def)

lemma outcome_trans:
  "outcome k a True b \<Longrightarrow> outcome m b ok c \<Longrightarrow> outcome m a ok c"
  by (auto simp: outcome_def intro: keeps_trans)

lemma left_mono: "left k it \<Longrightarrow> k \<le> m \<Longrightarrow> left m it"
  by (auto simp: left_def)

lemma it_bit_outcome:
  assumes "left k it"
  obtains (bit) x b where "it_bit it = (Inr x, it\<lparr>br := b\<rparr>)" "0 < k" "left (k - 1) (it\<lparr>br := b\<rparr>)"
  | (eof) e b where "it_bit it = (Inl e, it\<lparr>br := b\<rparr>)"
proof -
  from assms obtain xs where xs: "reader_bits (br it) xs" "length xs \<le> k" by (auto simp: left_def)
  show thesis
  proof (cases xs)
    case Nil
    with ReadBit_EOF [of "br it"] xs(1) obtain b where "ReadBit (br it) = (Inl EOF, b)" by auto
    with eof show thesis by (auto simp: it_bit_def)
  next
    case (Cons x ys)
    with it_bit_Cons [of it x ys] xs bit show thesis by (fastforce simp: left_def)
  qed
qed

lemma reader_bits_bitsRead [simp]: "reader_bits (b\<lparr>bitsRead := n\<rparr>) xs = reader_bits b xs"
  by (simp add: reader_bits_def split: list.split)

lemma ReadBits_neg:
  "n < 0 \<Longrightarrow> ReadBits n b = (Inr 0, b\<lparr>bitsRead := bitsRead b + word_of_int n\<rparr>)"
  by (simp add: ReadBits_def read_byte_acc.simps [of 0 n] read_bit_acc.simps [of 0 n])

lemma it_bits_outcome:
  assumes "left k it"
  obtains (bits) u b where "it_bits n it = (Inr u, it\<lparr>br := b\<rparr>)" "left k (it\<lparr>br := b\<rparr>)"
  | (eof) e b where "it_bits n it = (Inl e, it\<lparr>br := b\<rparr>)"
proof -
  from assms obtain xs where xs: "reader_bits (br it) xs" "length xs \<le> k" by (auto simp: left_def)
  consider "n < 0" | "0 \<le> n" "length xs < nat n" | "0 \<le> n" "nat n \<le> length xs" by linarith
  then show thesis
  proof cases
    case 1
    with xs show thesis
      by (intro bits [of 0 "(br it)\<lparr>bitsRead := bitsRead (br it) + word_of_int n\<rparr>"])
        (auto simp: it_bits_def ReadBits_neg left_def)
  next
    case 2
    with br.get_short [OF xs(1) 2(2)] obtain b where "ReadBits n (br it) = (Inl EOF, b)" by auto
    with eof show thesis by (auto simp: it_bits_def)
  next
    case 3
    then have "reader_bits (br it) (take (nat n) xs @ drop (nat n) xs)" using xs by simp
    from it_bits_append [OF this] 3 xs(2) bits show thesis by (fastforce simp: left_def)
  qed
qed

lemma outcome_fail [simp]: "outcome k it False (fail e (it\<lparr>br := b\<rparr>))"
  by (simp add: outcome_def fail_def keeps_def)

lemma outcome_read [simp]: "outcome k it True (it\<lparr>br := b\<rparr>) \<longleftrightarrow> left k (it\<lparr>br := b\<rparr>)"
  by (simp add: outcome_def keeps_def)

lemma left_step: "left (k - 1) it \<Longrightarrow> left k it"
  by (rule left_mono [where k = "k - 1"]) simp_all

definition done_with :: "nat \<Rightarrow> GorillaIter \<Rightarrow> (bool \<times> 'a) \<times> GorillaIter \<Rightarrow> bool" where
  "done_with k it r \<longleftrightarrow> outcome k it (fst (fst r)) (snd r)
     \<and> (\<exists>b e. snd r = it\<lparr>br := b, it_err := e\<rparr>)"

lemma done_with_fail [simp]: "done_with k it ((False, x), fail e (it\<lparr>br := b\<rparr>))"
  by (auto simp: done_with_def) (auto simp: fail_def)

lemma done_with_read [simp]: "left k (it\<lparr>br := b\<rparr>) \<Longrightarrow> done_with k it ((True, x), it\<lparr>br := b\<rparr>)"
  unfolding done_with_def by (intro conjI exI [of _ b] exI [of _ "it_err it"]) simp_all

lemma read_window_outcome:
  assumes "left k (it\<lparr>br := b\<rparr>)"
  shows "done_with k it (case it_bits w (it\<lparr>br := b\<rparr>) of
      (Inl e, it1) \<Rightarrow> ((False, r), fail e it1)
    | (Inr x, it1) \<Rightarrow> ((True, r' x), it1))"
  using assms by (cases rule: it_bits_outcome [of k "it\<lparr>br := b\<rparr>" w]) auto

lemma uncompressValue_outcome:
  assumes "left k it"
  shows "done_with k it (uncompressValue v ld tr it)"
proof (cases "it_start it")
  case True
  from assms show ?thesis
    by (cases rule: it_bits_outcome [of k it 64]) (use True in \<open>auto simp: uncompressValue_def\<close>)
next
  case first: False
  show ?thesis
    using assms
  proof (cases rule: it_bit_outcome)
    case (bit x b)
    then have left: "left k (it\<lparr>br := b\<rparr>)" by (simp add: left_step)
    show ?thesis
    proof (cases x)
      case True
      from left show ?thesis
      proof (cases rule: it_bit_outcome [of k "it\<lparr>br := b\<rparr>"])
        case bit2: (bit reset b2)
        then have left: "left k (it\<lparr>br := b2\<rparr>)" by (simp add: left_step)
        show ?thesis
        proof (cases reset)
          case True
          from left show ?thesis
          proof (cases rule: it_bits_outcome [of k "it\<lparr>br := b2\<rparr>" 5])
            case five: (bits l b3)
            then have "left k (it\<lparr>br := b3\<rparr>)" by simp
            then show ?thesis
              by (cases rule: it_bits_outcome [of k "it\<lparr>br := b3\<rparr>" 6])
                (use \<open>x\<close> True first bit bit2 five in
                  \<open>auto simp: uncompressValue_def Let_def intro!: read_window_outcome\<close>)
          qed (use \<open>x\<close> True first bit bit2 in \<open>auto simp: uncompressValue_def\<close>)
        qed (use \<open>x\<close> first bit bit2 left in \<open>auto simp: uncompressValue_def intro!: read_window_outcome\<close>)
      qed (use True first bit in \<open>auto simp: uncompressValue_def\<close>)
    qed (use first bit left in \<open>auto simp: uncompressValue_def\<close>)
  qed (use first in \<open>auto simp: uncompressValue_def\<close>)
qed

lemma read_prefix_outcome:
  "left k it \<Longrightarrow> case read_prefix n d it of (r, it') \<Rightarrow> outcome k it (r \<noteq> None) it'"
proof (induction n arbitrary: d it k)
  case 0
  then show ?case by (simp add: outcome_def)
next
  case (Suc n)
  from Suc.prems show ?case
  proof (cases rule: it_bit_outcome)
    case (bit x b)
    then have "left k (it\<lparr>br := b\<rparr>)" by (simp add: left_step)
    with bit Suc.IH [OF this, of "push_bit 1 d OR 1"] show ?thesis
      by (auto split: bool.splits intro: outcome_trans [of k it "it\<lparr>br := b\<rparr>"])
  qed auto
qed

lemma read_dod_outcome:
  assumes "left k it"
  shows "case read_dod d it of (r, it') \<Rightarrow> outcome k it (r \<noteq> None) it'"
proof (cases "d = 0x0f")
  case True
  from assms show ?thesis
    by (cases rule: it_bits_outcome [of k it 32])
      (use True in \<open>auto simp: read_dod_def outcome_def keeps_def fail_def\<close>)
next
  case False
  let ?sz = "if d = 0x02 then 7 else if d = 0x06 then 9 else if d = 0x0e then 12 else 0 :: nat"
  from assms show ?thesis
    by (cases rule: it_bits_outcome [of k it "int ?sz"])
      (use False assms in \<open>auto simp: read_dod_def Let_def outcome_def keeps_def fail_def\<close>)
qed


lemma outcome_cong:
  "outcome k it ok a \<Longrightarrow> keeps a b \<Longrightarrow> br b = br a \<Longrightarrow> it_err b = it_err a \<Longrightarrow>
    finished b = finished a \<Longrightarrow> outcome k it ok b"
  by (auto simp: outcome_def left_def dest: keeps_trans)

text \<open>The nanosecond part that ends both kinds of time.\<close>

lemma uncompress_ms_outcome:
  assumes "outcome k it True it1"
  shows "case uncompressValue v ld tr it1 of ((ok, v', ld', tr'), it3) \<Rightarrow>
      outcome k it ok (it3\<lparr>it_curTimeMs := v', it_leadingMs := ld', it_trailingMs := tr'\<rparr>)
      \<and> outcome k it ok (it3\<lparr>it_curTimeMs := v', it_leadingMs := ld', it_trailingMs := tr',
          it_start := True\<rparr>)"
proof -
  obtain ok v' ld' tr' it3 where u: "uncompressValue v ld tr it1 = ((ok, v', ld', tr'), it3)"
    by (metis prod.exhaust)
  have "left k it1" using assms by (simp add: outcome_def)
  from uncompressValue_outcome [OF this, of v ld tr] u have "outcome k it1 ok it3"
    by (simp add: done_with_def)
  then have "outcome k it ok it3" by (rule outcome_trans [OF assms])
  then show ?thesis using u by (auto elim!: outcome_cong simp: keeps_def)
qed

lemma readTimeDelta_outcome:
  assumes "left k it"
  shows "case readTimeDelta it of (ok, it') \<Rightarrow> outcome k it ok it'"
proof (cases "it_start it")
  case True
  from assms show ?thesis
  proof (cases rule: it_bits_outcome [of k it 14])
    case (bits u b)
    let ?it2 = "it\<lparr>br := b, it_tDelta := ucast u, it_curTime := it_Ts it + ucast u\<rparr>"
    have "outcome k it True (?it2\<lparr>it_start := False\<rparr>)" "outcome k it True ?it2"
      using bits(2) by (auto simp: left_def outcome_def keeps_def)
    with uncompress_ms_outcome [OF this(1), of "it_curTimeMs it" "it_leadingMs it" "it_trailingMs it"]
      True bits(1)
    show ?thesis by (auto simp: readTimeDelta_def Let_def split: prod.splits)
  qed (use True in \<open>auto simp: readTimeDelta_def\<close>)
next
  case False
  obtain r1 it1 where p: "read_prefix 4 0 it = (r1, it1)" by fastforce
  with read_prefix_outcome [OF assms, of 4 0] have o1: "outcome k it (r1 \<noteq> None) it1" by simp
  show ?thesis
  proof (cases r1)
    case (Some d)
    obtain r2 it2 where q: "read_dod d it1 = (r2, it2)" by fastforce
    have "left k it1" using o1 Some by (simp add: outcome_def)
    from read_dod_outcome [OF this, of d] q have "outcome k it1 (r2 \<noteq> None) it2" by simp
    with o1 Some have o2: "outcome k it (r2 \<noteq> None) it2" by (auto intro: outcome_trans)
    show ?thesis
    proof (cases r2)
      case dod: (Some dod)
      have "outcome k it True (it2\<lparr>it_tDelta := it_tDelta it2 + dod,
          it_curTime := it_curTime it2 + (it_tDelta it2 + dod)\<rparr>)"
        using o2 dod by (auto elim!: outcome_cong simp: keeps_def)
      with uncompress_ms_outcome [OF this, of "it_curTimeMs it2" "it_leadingMs it2" "it_trailingMs it2"]
        False p q Some dod
      show ?thesis by (auto simp: readTimeDelta_def Let_def split: prod.splits)
    qed (use False p q o2 Some in \<open>auto simp: readTimeDelta_def\<close>)
  qed (use False p o1 in \<open>auto simp: readTimeDelta_def\<close>)
qed

definition wf_iter :: "GorillaIter \<Rightarrow> bool" where
  "wf_iter it \<longleftrightarrow> 5 \<le> unat (it_numValues it) \<and> it_smartEncoding it
     \<and> length (it_curVals it) = unat (it_numValues it)
     \<and> length (it_leading it) = unat (it_numValues it)
     \<and> length (it_trailing it) = unat (it_numValues it)"

lemma wf_iter_keeps: "wf_iter it \<Longrightarrow> keeps it it' \<Longrightarrow> wf_iter it'"
  by (simp add: wf_iter_def keeps_def)

lemma readValue_outcome:
  assumes "wf_iter it" and "left k it" and "i < unat (it_numValues it)"
  shows "\<exists>ok it'. readValue i it = Some (ok, it') \<and> outcome k it ok it'"
proof -
  obtain ok v ld tr it1 where u: "uncompressValue (it_curVals it ! i) (it_leading it ! i)
      (it_trailing it ! i) it = ((ok, v, ld, tr), it1)" by (metis prod.exhaust)
  with uncompressValue_outcome [OF assms(2)] have "done_with k it ((ok, v, ld, tr), it1)" by metis
  with u assms(1,3) show ?thesis
    by (intro exI [of _ ok]) (auto simp: readValue_def wf_iter_def slice_get_def slice_set_def done_with_def outcome_def
        keeps_def left_def)
qed

lemma readValues_outcome:
  "wf_iter it \<Longrightarrow> left k it \<Longrightarrow> \<forall>i\<in>set is. i < unat (it_numValues it) \<Longrightarrow>
    \<exists>ok it'. readValues is it = Some (ok, it') \<and> outcome k it ok it'"
proof (induction "is" arbitrary: it)
  case Nil
  then show ?case by (auto simp: outcome_def)
next
  case (Cons i "is")
  from readValue_outcome [OF Cons.prems(1,2), of i] Cons.prems(3) obtain ok it1 where
    o: "readValue i it = Some (ok, it1)" "outcome k it ok it1" by auto
  show ?case
  proof (cases ok)
    case True
    with o(2) have "wf_iter it1" "left k it1" "it_numValues it1 = it_numValues it"
      using wf_iter_keeps [OF Cons.prems(1)] by (auto simp: outcome_def keeps_def)
    with Cons.IH [of it1] Cons.prems(3) o True show ?thesis
      by (auto intro: outcome_trans [of k it it1])
  qed (use o in auto)
qed

lemma Next_outcome:
  assumes "wf_iter it" and "left k it" and "it_err it = None" and "\<not> finished it"
  shows "\<exists>ok it'. Next it = Some (ok, it') \<and> outcome (k - 1) it ok it' \<and> (ok \<longrightarrow> 0 < k)"
proof -
  obtain ok1 it1 where r: "readTimeDelta it = (ok1, it1)" by fastforce
  with readTimeDelta_outcome [OF assms(2)] have o1: "outcome k it ok1 it1" by simp
  show ?thesis
  proof (cases ok1)
    case True
    with o1 have left: "left k it1" and wf: "wf_iter it1"
      using wf_iter_keeps [OF assms(1)] by (auto simp: outcome_def)
    from wf have smart: "it_smartEncoding it1" by (simp add: wf_iter_def)
    from left show ?thesis
    proof (cases rule: it_bit_outcome)
      case (bit x b)
      let ?it3 = "it1\<lparr>br := b, curSmartEnc := x\<rparr>"
      let ?is = "if \<not> x then [3] else [0..<unat (it_numValues it1)]"
      have "wf_iter ?it3" "left (k - 1) ?it3" "\<forall>i\<in>set ?is. i < unat (it_numValues ?it3)"
        and o3: "outcome (k - 1) it True ?it3"
        using wf bit(3) o1 True by (auto simp: wf_iter_def left_def outcome_def keeps_def)
      from readValues_outcome [OF this(1-3)] obtain ok it4 where
        "readValues ?is ?it3 = Some (ok, it4)" "outcome (k - 1) ?it3 ok it4" by auto
      note r4 = this
      have "Next it = (if ok then Some (True, it4\<lparr>it_start := False\<rparr>) else Some (False, it4))"
        using r True bit(1) wf assms(3,4) r4(1)
        by (cases x) (simp_all add: Next_def smart Let_def del: readValues.simps)
      moreover have "outcome (k - 1) it ok it4" by (rule outcome_trans [OF o3 r4(2)])
      moreover have "outcome (k - 1) it ok it4 \<Longrightarrow> outcome (k - 1) it ok (it4\<lparr>it_start := False\<rparr>)"
        by (erule outcome_cong) (simp_all add: keeps_def)
      ultimately show ?thesis using bit(2) by (cases ok) auto
    next
      case (eof e b)
      have "Next it = Some (False, fail e (it1\<lparr>br := b, curSmartEnc := False\<rparr>))"
        using r True eof smart assms(3,4) by (simp add: Next_def)
      moreover have "outcome (k - 1) it False (fail e (it1\<lparr>br := b, curSmartEnc := False\<rparr>))"
        using o1 by (simp add: outcome_def keeps_def fail_def)
      ultimately show ?thesis by auto
    qed
  qed (use r o1 assms(3,4) in \<open>auto simp: Next_def outcome_def\<close>)
qed

lemma Values_total: "wf_iter it \<Longrightarrow> \<exists>p. Values it = Some p"
  by (auto simp: Values_def wf_iter_def slice_get_def Let_def)

lemma read_points_total:
  "wf_iter it \<Longrightarrow> left k it \<Longrightarrow> it_err it = None \<Longrightarrow> \<not> finished it \<Longrightarrow>
    \<exists>ps it'. read_points it = Some (ps, it') \<and> (it_err it' \<noteq> None \<or> finished it') \<and> length ps \<le> k"
proof (induction k arbitrary: it rule: less_induct)
  case (less k)
  from Next_outcome [OF less.prems] obtain ok it1 where
    n: "Next it = Some (ok, it1)" "outcome (k - 1) it ok it1" "ok \<longrightarrow> 0 < k" by blast
  show ?case
  proof (cases ok)
    case True
    with n have o: "left (k - 1) it1" "it_err it1 = None" "\<not> finished it1" "k - 1 < k"
      and wf: "wf_iter it1"
      using less.prems wf_iter_keeps [OF less.prems(1)] by (auto simp: outcome_def)
    from less.IH [OF o(4) wf o(1-3)] Values_total [OF wf] n True show ?thesis
      by (force simp: read_points.simps [of it])
  qed (use n in \<open>auto simp: read_points.simps [of it] outcome_def\<close>)
qed

lemma ReadBytes_left:
  assumes "reader_bits b xs" and "0 < unat n" and "ReadBytes n b = (Inr ys, b1)"
  shows "\<exists>zs. reader_bits b1 zs \<and> length zs \<le> length xs"
proof -
  have loop: "reader_bits b xs \<Longrightarrow> read_bytes_loop m b = (Inr ys, b1) \<Longrightarrow>
      \<exists>zs. reader_bits b1 zs \<and> length zs \<le> length xs" for m b xs ys
  proof (induction m arbitrary: b xs ys)
    case (Suc m)
    show ?case
    proof (cases "length xs < 8")
      case True
      with ReadByte_EOF [OF Suc.prems(1)] Suc.prems(2) show ?thesis by auto
    next
      case False
      then obtain w vs where "xs = byte_bits w @ vs"
        by (metis stream_bits_chop le_add_diff_inverse2 not_less)
      with ReadByte_bits [of b w vs] Suc show ?thesis
        by (fastforce split: sum.splits prod.splits)
    qed
  qed auto
  from assms loop [of b xs "unat n" ys] show ?thesis
    by (auto simp: ReadBytes_def split: if_splits)
qed

lemma ReadBits_left:
  assumes "reader_bits b xs" and "ReadBits (int n) b = (Inr u, b1)"
  shows "\<exists>zs. reader_bits b1 zs \<and> length zs \<le> length xs"
proof (cases "length xs < n")
  case True
  with ReadBits_EOF [OF assms(1) True] assms(2) show ?thesis by auto
next
  case False
  then have "reader_bits b (take n xs @ drop n xs)" "length (take n xs) = n" using assms(1) by simp_all
  with br.get_bits [OF this(1)] assms(2) show ?thesis by (auto intro: exI [of _ "drop n xs"])
qed

lemma NewGorillaIter_outcome:
  assumes "NewGorillaIterFromBytes bytes = Inr it" and "5 \<le> unat (it_numValues it)"
  shows "wf_iter it \<and> it_err it = None \<and> \<not> finished it \<and> left (8 * length bytes) it"
proof -
  let ?ok = "\<lambda>b. \<exists>xs. reader_bits b xs \<and> length xs \<le> 8 * length bytes"
  have "reader_bits (SetCount 8 (NewBReader bytes)) (stream_bits bytes)"
    using NewBReader_bits [of bytes] by (simp add: SetCount_def NewBReader_def)
  then have *: "?ok b1" if "ReadBytes 4 (SetCount 8 (NewBReader bytes)) = (Inr ys, b1)" for ys b1
    using ReadBytes_left [of _ _ 4] that by fastforce
  have **: "?ok b1" if "?ok b" "ReadBits n b = (Inr u, b1)" "0 \<le> n" for n u b b1
    using ReadBits_left [of b _ "nat n" u b1] that by fastforce
  from assms obtain tag b1 nv b2 t b3 where
    r: "ReadBytes 4 (SetCount 8 (NewBReader bytes)) = (Inr tag, b1)"
      "ReadBits 8 b1 = (Inr nv, b2)" "ReadBits 32 b2 = (Inr t, b3)"
    by (auto simp: NewGorillaIterFromBytes_def NewGorillaIterFromBStream_def Let_def
        split: sum.splits prod.splits if_splits)
  have "?ok b1" by (rule * [OF r(1)])
  then have "?ok b2" by (rule ** [OF _ r(2)]) simp
  then have b3: "?ok b3" by (rule ** [OF _ r(3)]) simp
  with ** [OF b3, of 32] r assms show ?thesis
    by (auto simp: NewGorillaIterFromBytes_def NewGorillaIterFromBStream_def Let_def wf_iter_def left_def
        split: sum.splits prod.splits if_splits)
qed

text \<open>
  C2. Decoding is total on five values: whatever the bytes are, if the header is accepted and
  announces at least five values then reading the iterator to its end panics nowhere, stops after
  at most one point per bit of input, and ends either at the end marker or with an error.
\<close>

theorem decoder_total:
  assumes "NewGorillaIterFromBytes bytes = Inr it" and "5 \<le> unat (it_numValues it)"
  shows "\<exists>ps it'. read_points it = Some (ps, it') \<and> length ps \<le> 8 * length bytes
    \<and> (it_err it' \<noteq> None \<or> finished it')"
proof -
  have "wf_iter it \<and> it_err it = None \<and> \<not> finished it \<and> left (8 * length bytes) it"
    by (rule NewGorillaIter_outcome [OF assms])
  with read_points_total [of it "8 * length bytes"] show ?thesis by auto
qed


text \<open>A header that announces five values, and one byte more: the first point is cut short.\<close>

definition cut_series :: "u8 list" where
  "cut_series = tag_second @ [5, 88, 24, 127, 128, 255]"

theorem decoder_total_witness:
  "\<exists>it ps it'. NewGorillaIterFromBytes cut_series = Inr it \<and> read_points it = Some (ps, it')
    \<and> length ps \<le> 80 \<and> (it_err it' \<noteq> None \<or> finished it')"
proof -
  have "\<not> isl (NewGorillaIterFromBytes cut_series)
      \<and> unat (it_numValues (projr (NewGorillaIterFromBytes cut_series))) = 5" by code_simp
  moreover have "length cut_series = 10" by code_simp
  ultimately show ?thesis
    using decoder_total [of cut_series] by (cases "NewGorillaIterFromBytes cut_series") auto
qed

end
