(* ===== verification/LRUCache.thy ===== *)
theory LRUCache
  imports Go_Prelude "HOL-Library.AList"
begin

text \<open>
  The LRU cache of \<^verbatim>\<open>server/lrucache/lrucache.go\<close> and the TTL cache of
  \<^verbatim>\<open>server/lrucache/ttlcache.go\<close>. The linked list is a list of elements with their addresses, and
  the table maps keys to addresses, as the code keeps pointers to list elements. A method that
  follows a pointer to an element that is not in the list gives \<^const>\<open>None\<close>; so does the
  eviction from an empty list, where the code panics. The methods of the cached values are
  parameters: \<open>sz\<close> is \<^verbatim>\<open>Size\<close>, \<open>expired\<close> and \<open>touch\<close> are \<^verbatim>\<open>IsExpired\<close> and \<^verbatim>\<open>Touch\<close>.
  The clock is an argument.
\<close>

section \<open>The LRU cache\<close>

record 'v entry =
  e_key :: string
  e_value :: 'v
  e_size :: i64
  time_accessed :: int

record 'v LRUCache =
  lru_list :: "(nat \<times> 'v entry) list"
  lru_table :: "string \<Rightarrow> nat option"
  lru_size :: u64
  capacity :: u64
  fresh :: nat

definition NewLRUCache :: "u64 \<Rightarrow> 'v LRUCache" where
  "NewLRUCache cap = \<lparr>lru_list = [], lru_table = (\<lambda>_. None), lru_size = 0, capacity = cap, fresh = 0\<rparr>"

definition GetCapacity :: "'v LRUCache \<Rightarrow> u64" where
  "GetCapacity c = capacity c"

definition without :: "nat \<Rightarrow> (nat \<times> 'v entry) list \<Rightarrow> (nat \<times> 'v entry) list" where
  "without a xs = filter (\<lambda>x. fst x \<noteq> a) xs"

definition moveToFront :: "nat \<Rightarrow> int \<Rightarrow> 'v LRUCache \<Rightarrow> 'v LRUCache" where
  "moveToFront a now c =
     (case map_of (lru_list c) a of
        None \<Rightarrow> c
      | Some e \<Rightarrow> c\<lparr>lru_list := (a, e\<lparr>time_accessed := now\<rparr>) # without a (lru_list c)\<rparr>)"

text \<open>The loop of \<open>checkCapacity\<close> returns in its first round.\<close>

definition checkCapacity :: "'v LRUCache \<Rightarrow> ((string \<times> 'v option) \<times> 'v LRUCache) option" where
  "checkCapacity c =
     (if lru_size c > capacity c then
        (case rev (lru_list c) of
           [] \<Rightarrow> None
         | (a, e) # rest \<Rightarrow>
             Some ((e_key e, Some (e_value e)),
               c\<lparr>lru_list := rev rest, lru_table := (lru_table c)(e_key e := None),
                 lru_size := lru_size c - e_size e\<rparr>))
      else Some (('''', None), c))"

definition updateInplace ::
  "('v \<Rightarrow> i64) \<Rightarrow> nat \<Rightarrow> 'v \<Rightarrow> int \<Rightarrow> 'v LRUCache \<Rightarrow> ((string \<times> 'v option) \<times> 'v LRUCache) option" where
  "updateInplace sz a v now c = do {
     e \<leftarrow> map_of (lru_list c) a;
     let sizeDiff = sz v - e_size e;
     let c1 = c\<lparr>lru_list := map (\<lambda>x. if fst x = a then (a, e\<lparr>e_value := v, e_size := sz v\<rparr>) else x)
         (lru_list c), lru_size := lru_size c + sizeDiff\<rparr>;
     checkCapacity (moveToFront a now c1) }"

definition addNew ::
  "('v \<Rightarrow> i64) \<Rightarrow> string \<Rightarrow> 'v \<Rightarrow> int \<Rightarrow> 'v LRUCache \<Rightarrow> ((string \<times> 'v option) \<times> 'v LRUCache) option" where
  "addNew sz key v now c =
     (let e = \<lparr>e_key = key, e_value = v, e_size = sz v, time_accessed = now\<rparr>; a = fresh c in
      checkCapacity (c\<lparr>lru_list := (a, e) # lru_list c, lru_table := (lru_table c)(key \<mapsto> a),
        lru_size := lru_size c + e_size e, fresh := Suc a\<rparr>))"

definition lru_Get :: "string \<Rightarrow> int \<Rightarrow> 'v LRUCache \<Rightarrow> ('v option \<times> 'v LRUCache) option" where
  "lru_Get key now c =
     (case lru_table c key of
        None \<Rightarrow> Some (None, c)
      | Some a \<Rightarrow> do {
          let c1 = moveToFront a now c;
          e \<leftarrow> map_of (lru_list c1) a;
          Some (Some (e_value e), c1) })"

definition lru_Set ::
  "('v \<Rightarrow> i64) \<Rightarrow> string \<Rightarrow> 'v \<Rightarrow> int \<Rightarrow> 'v LRUCache \<Rightarrow> ((string \<times> 'v option) \<times> 'v LRUCache) option" where
  "lru_Set sz key v now c =
     (case lru_table c key of
        Some a \<Rightarrow> updateInplace sz a v now c
      | None \<Rightarrow> addNew sz key v now c)"

definition SetIfAbsent :: "('v \<Rightarrow> i64) \<Rightarrow> string \<Rightarrow> 'v \<Rightarrow> int \<Rightarrow> 'v LRUCache \<Rightarrow> 'v LRUCache option" where
  "SetIfAbsent sz key v now c =
     (case lru_table c key of
        Some a \<Rightarrow> Some (moveToFront a now c)
      | None \<Rightarrow> map_option snd (addNew sz key v now c))"

definition lru_Delete :: "string \<Rightarrow> 'v LRUCache \<Rightarrow> ((string \<times> 'v option) \<times> 'v LRUCache) option" where
  "lru_Delete key c =
     (case lru_table c key of
        None \<Rightarrow> Some (('''', None), c)
      | Some a \<Rightarrow> do {
          e \<leftarrow> map_of (lru_list c) a;
          Some ((key, Some (e_value e)),
            c\<lparr>lru_list := without a (lru_list c), lru_table := (lru_table c)(key := None),
              lru_size := lru_size c - e_size e\<rparr>) })"

definition Clear :: "'v LRUCache \<Rightarrow> 'v LRUCache" where
  "Clear c = c\<lparr>lru_list := [], lru_table := (\<lambda>_. None), lru_size := 0\<rparr>"

definition SetCapacity :: "u64 \<Rightarrow> 'v LRUCache \<Rightarrow> 'v LRUCache option" where
  "SetCapacity cap c = map_option snd (checkCapacity (c\<lparr>capacity := cap\<rparr>))"

definition Stats :: "'v LRUCache \<Rightarrow> u64 \<times> u64 \<times> u64 \<times> int option" where
  "Stats c = (of_nat (length (lru_list c)), lru_size c, capacity c,
     (case rev (lru_list c) of [] \<Rightarrow> None | (a, e) # _ \<Rightarrow> Some (time_accessed e)))"

definition Keys :: "'v LRUCache \<Rightarrow> string list" where
  "Keys c = map (\<lambda>(a, e). e_key e) (lru_list c)"

definition Items :: "'v LRUCache \<Rightarrow> (string \<times> 'v) list" where
  "Items c = map (\<lambda>(a, e). (e_key e, e_value e)) (lru_list c)"

section \<open>The TTL cache\<close>

record 'v TTLLRUCache =
  lc :: "'v LRUCache"
  default_ttl :: int

definition NewTTLLRUCache :: "u64 \<Rightarrow> int \<Rightarrow> 'v TTLLRUCache" where
  "NewTTLLRUCache cap ttl = \<lparr>lc = NewLRUCache cap, default_ttl = ttl\<rparr>"

text \<open>\<open>Touch\<close> changes the stored value in place, so the element of the list changes with it.\<close>

definition ttl_Get ::
  "('v \<Rightarrow> bool) \<Rightarrow> (int \<Rightarrow> 'v \<Rightarrow> 'v) \<Rightarrow> string \<Rightarrow> int \<Rightarrow> 'v TTLLRUCache \<Rightarrow>
    ('v option \<times> 'v TTLLRUCache) option" where
  "ttl_Get expired touch key now t =
     (case lru_table (lc t) key of
        None \<Rightarrow> Some (None, t)
      | Some a \<Rightarrow> do {
          e \<leftarrow> map_of (lru_list (lc t)) a;
          if expired (e_value e) then do {
            (_, c) \<leftarrow> lru_Delete key (lc t);
            Some (None, t\<lparr>lc := c\<rparr>) }
          else do {
            let v = touch (default_ttl t) (e_value e);
            let c = (lc t)\<lparr>lru_list := map (\<lambda>x. if fst x = a then (a, e\<lparr>e_value := v\<rparr>) else x)
                (lru_list (lc t))\<rparr>;
            Some (Some v, t\<lparr>lc := moveToFront a now c\<rparr>) } })"

definition ttl_Set ::
  "('v \<Rightarrow> i64) \<Rightarrow> (int \<Rightarrow> 'v \<Rightarrow> 'v) \<Rightarrow> string \<Rightarrow> 'v \<Rightarrow> int \<Rightarrow> 'v TTLLRUCache \<Rightarrow>
    ((string \<times> 'v option) \<times> 'v TTLLRUCache) option" where
  "ttl_Set sz touch key v now t = do {
     (r, c) \<leftarrow> lru_Set sz key (touch (default_ttl t) v) now (lc t);
     Some (r, t\<lparr>lc := c\<rparr>) }"

definition ttl_SetIfAbsent ::
  "('v \<Rightarrow> i64) \<Rightarrow> (int \<Rightarrow> 'v \<Rightarrow> 'v) \<Rightarrow> string \<Rightarrow> 'v \<Rightarrow> int \<Rightarrow> 'v TTLLRUCache \<Rightarrow> 'v TTLLRUCache option" where
  "ttl_SetIfAbsent sz touch key v now t = do {
     c \<leftarrow> SetIfAbsent sz key (touch (default_ttl t) v) now (lc t);
     Some (t\<lparr>lc := c\<rparr>) }"

definition ttl_GetCapacity :: "'v TTLLRUCache \<Rightarrow> u64" where
  "ttl_GetCapacity t = GetCapacity (lc t)"

definition ttl_Keys :: "'v TTLLRUCache \<Rightarrow> string list" where
  "ttl_Keys t = Keys (lc t)"

definition ttl_Items :: "'v TTLLRUCache \<Rightarrow> (string \<times> 'v) list" where
  "ttl_Items t = Items (lc t)"

definition ttl_Stats :: "'v TTLLRUCache \<Rightarrow> u64 \<times> u64 \<times> u64 \<times> int option" where
  "ttl_Stats t = Stats (lc t)"

definition ttl_Delete :: "string \<Rightarrow> 'v TTLLRUCache \<Rightarrow> ((string \<times> 'v option) \<times> 'v TTLLRUCache) option" where
  "ttl_Delete key t = do { (r, c) \<leftarrow> lru_Delete key (lc t); Some (r, t\<lparr>lc := c\<rparr>) }"

definition ttl_Clear :: "'v TTLLRUCache \<Rightarrow> 'v TTLLRUCache" where
  "ttl_Clear t = t\<lparr>lc := Clear (lc t)\<rparr>"

definition ttl_SetCapacity :: "u64 \<Rightarrow> 'v TTLLRUCache \<Rightarrow> 'v TTLLRUCache option" where
  "ttl_SetCapacity cap t = do { c \<leftarrow> SetCapacity cap (lc t); Some (t\<lparr>lc := c\<rparr>) }"


section \<open>The recency list\<close>

text \<open>
  What a cache stands for: its keys with values and sizes, the most recent first. An access moves
  a key to the front; a change that leaves more in use than the capacity drops the last key.
\<close>

type_synonym 'v recency = "(string \<times> 'v \<times> i64) list"

definition view :: "'v LRUCache \<Rightarrow> 'v recency" where
  "view c = map (\<lambda>(a, e). (e_key e, e_value e, e_size e)) (lru_list c)"

definition used :: "'v recency \<Rightarrow> u64" where
  "used xs = sum_list (map (\<lambda>(k, v, n). n) xs)"

definition promote :: "string \<Rightarrow> 'v recency \<Rightarrow> 'v recency" where
  "promote k xs = (case map_of xs k of None \<Rightarrow> xs | Some d \<Rightarrow> (k, d) # AList.delete k xs)"

definition evict :: "u64 \<Rightarrow> 'v recency \<Rightarrow> 'v recency" where
  "evict cap xs = (if used xs > cap then butlast xs else xs)"

definition victim :: "u64 \<Rightarrow> 'v recency \<Rightarrow> string \<times> 'v option" where
  "victim cap xs = (if used xs > cap then (fst (last xs), Some (fst (snd (last xs)))) else ('''', None))"

definition lru_ok :: "'v LRUCache \<Rightarrow> bool" where
  "lru_ok c \<longleftrightarrow> distinct (map fst (lru_list c)) \<and> distinct (map fst (view c))
     \<and> (\<forall>(a, e)\<in>set (lru_list c). lru_table c (e_key e) = Some a \<and> a < fresh c)
     \<and> (\<forall>k a. lru_table c k = Some a \<longrightarrow> (\<exists>e. (a, e) \<in> set (lru_list c) \<and> e_key e = k))
     \<and> lru_size c = used (view c)"

lemma used_simps [simp]:
  "used [] = 0" "used ((k, v, n) # xs) = n + used xs" "used (xs @ ys) = used xs + used ys"
  by (simp_all add: used_def)

lemma lru_okD:
  assumes "lru_ok c" and "lru_table c k = Some a"
  obtains e where "(a, e) \<in> set (lru_list c)" "e_key e = k" "map_of (lru_list c) a = Some e"
    "map_of (view c) k = Some (e_value e, e_size e)"
proof -
  from assms obtain e where e: "(a, e) \<in> set (lru_list c)" "e_key e = k" by (fastforce simp: lru_ok_def)
  then have "(k, e_value e, e_size e) \<in> set (view c)" by (force simp: view_def)
  with assms(1) e that [OF e] show thesis by (simp add: lru_ok_def)
qed

lemma lru_ok_None: "lru_ok c \<Longrightarrow> lru_table c k = None \<Longrightarrow> map_of (view c) k = None"
  by (force simp: lru_ok_def view_def map_of_eq_None_iff)

lemma view_without:
  assumes "lru_ok c" and "lru_table c k = Some a"
  shows "map (\<lambda>(a, e). (e_key e, e_value e, e_size e)) (without a (lru_list c)) =
    AList.delete k (view c)"
proof -
  from lru_okD [OF assms] obtain e0 where "e_key e0 = k" "map_of (lru_list c) a = Some e0" by metis
  with assms have "\<forall>(b, e)\<in>set (lru_list c). b = a \<longleftrightarrow> e_key e = k"
    by (auto simp: lru_ok_def dest: eq_key_imp_eq_value)
  then show ?thesis
    unfolding without_def view_def AList.delete_eq filter_map
    by (intro arg_cong [where f = "map _"] filter_cong) (auto simp: split_beta)
qed

lemma used_delete:
  "distinct (map fst xs) \<Longrightarrow> map_of xs k = Some (v, n) \<Longrightarrow> used (AList.delete k xs) = used xs - n"
proof (induction xs)
  case (Cons x xs)
  then show ?case
    by (cases x) (auto simp: AList.delete_eq filter_id_conv rev_image_eqI split: if_splits
        intro!: arg_cong [where f = used])
qed simp

lemma lru_ok_front:
  assumes "lru_ok c" and "lru_table c k = Some a" and "map_of (lru_list c) a = Some e" and "e_key e' = k"
    and "c' = c\<lparr>lru_list := (a, e') # without a (lru_list c), lru_size := lru_size c - e_size e + e_size e'\<rparr>"
  shows "lru_ok c'" and "view c' = (k, e_value e', e_size e') # AList.delete k (view c)"
proof -
  show v: "view c' = (k, e_value e', e_size e') # AList.delete k (view c)"
    using view_without [OF assms(1,2)] assms(4,5) by (simp add: view_def)
  from lru_okD [OF assms(1,2)] assms(3) have e: "e_key e = k"
    "map_of (view c) k = Some (e_value e, e_size e)" by auto
  have keys: "set (without a (lru_list c)) = {(b, x) \<in> set (lru_list c). b \<noteq> a}"
    by (auto simp: without_def)
  have "distinct (map fst (without a (lru_list c)))"
    using assms(1) by (simp add: lru_ok_def without_def distinct_map inj_on_def)
  moreover have "distinct (map fst (view c'))"
    using assms(1) unfolding v by (simp add: lru_ok_def AList.delete_keys distinct_removeAll)
  moreover have "lru_size c' = used (view c')"
    using assms(1,5) e(2) unfolding v by (simp add: lru_ok_def used_delete)
  moreover have "\<forall>(b, x)\<in>set (lru_list c'). lru_table c' (e_key x) = Some b \<and> b < fresh c'"
    using assms e by (auto simp: lru_ok_def keys dest: map_of_SomeD)
  moreover have "\<exists>x. (b, x) \<in> set (lru_list c') \<and> e_key x = k'" if "lru_table c' k' = Some b" for k' b
  proof -
    from that assms(5) have "lru_table c k' = Some b" by simp
    from lru_okD [OF assms(1) this] obtain x where x: "(b, x) \<in> set (lru_list c)" "e_key x = k'"
      "map_of (lru_list c) b = Some x" by metis
    with assms(3-5) e(1) show ?thesis by (cases "b = a") (auto simp: keys)
  qed
  ultimately show "lru_ok c'" using assms(5) by (auto simp: lru_ok_def keys)
qed

lemma moveToFront_view:
  assumes "lru_ok c" and "lru_table c k = Some a"
  shows "lru_ok (moveToFront a now c) \<and> view (moveToFront a now c) = promote k (view c)
    \<and> capacity (moveToFront a now c) = capacity c"
proof -
  from lru_okD [OF assms] obtain e where e: "e_key e = k" "map_of (lru_list c) a = Some e"
    "map_of (view c) k = Some (e_value e, e_size e)" by metis
  with lru_ok_front [OF assms e(2), of "e\<lparr>time_accessed := now\<rparr>" "moveToFront a now c"] show ?thesis
    by (simp add: moveToFront_def promote_def)
qed

lemma checkCapacity_view:
  assumes "lru_ok c"
  shows "\<exists>c'. checkCapacity c = Some (victim (capacity c) (view c), c') \<and> lru_ok c'
    \<and> view c' = evict (capacity c) (view c) \<and> capacity c' = capacity c"
proof (cases "lru_size c > capacity c")
  case False
  with assms show ?thesis by (auto simp: checkCapacity_def victim_def evict_def lru_ok_def)
next
  case True
  then have "view c \<noteq> []" using assms by (auto simp: lru_ok_def)
  then have "lru_list c \<noteq> []" by (simp add: view_def)
  then obtain xs a e where l: "lru_list c = xs @ [(a, e)]" by (metis rev_exhaust surj_pair)
  define c' where "c' = c\<lparr>lru_list := xs, lru_table := (lru_table c)(e_key e := None),
    lru_size := lru_size c - e_size e\<rparr>"
  have c': "lru_list c' = xs" "lru_size c' = lru_size c - e_size e" "fresh c' = fresh c"
    by (simp_all add: c'_def)
  have v: "view c = view c' @ [(e_key e, e_value e, e_size e)]" by (simp add: view_def l c'_def)
  have keys: "\<forall>(b, x)\<in>set xs. e_key x \<noteq> e_key e"
    using assms l by (force simp: lru_ok_def view_def)
  have "\<exists>x. (b, x) \<in> set xs \<and> e_key x = k" if "lru_table c' k = Some b" for k b
  proof -
    from that have "lru_table c k = Some b" "k \<noteq> e_key e" by (auto simp: c'_def split: if_splits)
    with lru_okD [OF assms] obtain x where "(b, x) \<in> set (lru_list c)" "e_key x = k" by metis
    with \<open>k \<noteq> e_key e\<close> l show ?thesis by auto
  qed
  moreover have "\<forall>(b, x)\<in>set xs. lru_table c' (e_key x) = Some b \<and> b < fresh c"
    using assms l keys by (auto simp: lru_ok_def c'_def)
  moreover have "distinct (map fst xs)" "distinct (map fst (view c'))" "lru_size c' = used (view c')"
    using assms v l c' by (simp_all add: lru_ok_def)
  ultimately have "lru_ok c'" by (simp add: lru_ok_def c')
  moreover have "checkCapacity c = Some ((e_key e, Some (e_value e)), c')"
    using True l by (simp add: checkCapacity_def c'_def)
  moreover have "capacity c < used (view c)" using True assms by (simp add: lru_ok_def)
  then have "victim (capacity c) (view c) = (e_key e, Some (e_value e))"
    "evict (capacity c) (view c) = view c'"
    by (simp_all add: victim_def evict_def v)
  moreover have "capacity c' = capacity c" by (simp add: c'_def)
  ultimately show ?thesis by auto
qed

section \<open>The operations on the recency list\<close>

lemma lru_Get_view:
  assumes "lru_ok c"
  shows "\<exists>c'. lru_Get k now c = Some (map_option fst (map_of (view c) k), c') \<and> lru_ok c'
    \<and> view c' = promote k (view c) \<and> capacity c' = capacity c"
proof (cases "lru_table c k")
  case None
  with assms lru_ok_None [OF assms None] show ?thesis by (simp add: lru_Get_def promote_def)
next
  case (Some a)
  from lru_okD [OF assms Some] obtain e where e: "map_of (lru_list c) a = Some e"
    "map_of (view c) k = Some (e_value e, e_size e)" by metis
  then have "map_of (lru_list (moveToFront a now c)) a = Some (e\<lparr>time_accessed := now\<rparr>)"
    by (simp add: moveToFront_def)
  with moveToFront_view [OF assms Some, of now] Some e(2) show ?thesis by (simp add: lru_Get_def)
qed

lemma addNew_view:
  assumes "lru_ok c" and "lru_table c k = None"
  shows "\<exists>c'. addNew sz k v now c = Some (victim (capacity c) ((k, v, sz v) # view c), c')
    \<and> lru_ok c' \<and> view c' = evict (capacity c) ((k, v, sz v) # view c) \<and> capacity c' = capacity c"
proof -
  define e where "e = \<lparr>e_key = k, e_value = v, e_size = sz v, time_accessed = now\<rparr>"
  define c1 where "c1 = c\<lparr>lru_list := (fresh c, e) # lru_list c, lru_table := (lru_table c)(k \<mapsto> fresh c),
    lru_size := lru_size c + e_size e, fresh := Suc (fresh c)\<rparr>"
  have c1: "lru_list c1 = (fresh c, e) # lru_list c" "lru_table c1 = (lru_table c)(k \<mapsto> fresh c)"
    "lru_size c1 = lru_size c + sz v" "fresh c1 = Suc (fresh c)" "capacity c1 = capacity c"
    by (simp_all add: c1_def e_def)
  have v: "view c1 = (k, v, sz v) # view c" by (simp add: view_def c1 e_def)
  have new: "\<forall>(b, x)\<in>set (lru_list c). b < fresh c \<and> e_key x \<noteq> k"
    using assms by (auto simp: lru_ok_def)
  then have "distinct (map fst (lru_list c1))" "distinct (map fst (view c1))"
    using assms(1) by (auto simp: lru_ok_def c1 v) (force simp: view_def)+
  moreover have "\<forall>(b, x)\<in>set (lru_list c1). lru_table c1 (e_key x) = Some b \<and> b < fresh c1"
    using assms(1) new by (fastforce simp: lru_ok_def c1 e_def)
  moreover have "\<exists>x. (b, x) \<in> set (lru_list c1) \<and> e_key x = k'" if "lru_table c1 k' = Some b" for k' b
    using that lru_okD [OF assms(1), of k' b] by (auto simp: c1 e_def split: if_splits)
  ultimately have "lru_ok c1" using assms(1) by (simp add: lru_ok_def c1 v)
  from checkCapacity_view [OF this] show ?thesis
    by (simp add: addNew_def Let_def c1_def [symmetric] e_def [symmetric] v c1(5))
qed

text \<open>Changing the entry of an element in place, seen from the front of the list.\<close>

lemma set_elem_front:
  assumes "map_of xs a = Some e"
  shows "map_of (map (\<lambda>x. if fst x = a then (a, e') else x) xs) a = Some e'"
    and "without a (map (\<lambda>x. if fst x = a then (a, e') else x) xs) = without a xs"
proof -
  have "map_of (map (\<lambda>x. if fst x = a then (a, e') else x) xs) a = (if a \<in> fst ` set xs then Some e' else None)"
    for xs by (induction xs) auto
  with map_of_SomeD [OF assms] show "map_of (map (\<lambda>x. if fst x = a then (a, e') else x) xs) a = Some e'"
    by force
  show "without a (map (\<lambda>x. if fst x = a then (a, e') else x) xs) = without a xs"
    by (induction xs) (auto simp: without_def)
qed

lemma updateInplace_view:
  assumes "lru_ok c" and "lru_table c k = Some a"
  shows "\<exists>c'. updateInplace sz a v now c =
      Some (victim (capacity c) ((k, v, sz v) # AList.delete k (view c)), c')
    \<and> lru_ok c' \<and> view c' = evict (capacity c) ((k, v, sz v) # AList.delete k (view c))
    \<and> capacity c' = capacity c"
proof -
  from lru_okD [OF assms] obtain e where e: "e_key e = k" "map_of (lru_list c) a = Some e" by metis
  let ?e = "e\<lparr>e_value := v, e_size := sz v\<rparr>"
  let ?f = "\<lambda>x. if fst x = a then (a, ?e) else x"
  let ?c1 = "c\<lparr>lru_list := map ?f (lru_list c), lru_size := lru_size c + (sz v - e_size e)\<rparr>"
  have move: "moveToFront a now ?c1 = c\<lparr>lru_list := (a, ?e\<lparr>time_accessed := now\<rparr>) # without a (lru_list c),
      lru_size := lru_size c - e_size e + e_size (?e\<lparr>time_accessed := now\<rparr>)\<rparr>"
    using set_elem_front [OF e(2)] by (simp add: moveToFront_def)
  note front = lru_ok_front [OF assms e(2) _ move]
  have "lru_ok (moveToFront a now ?c1)"
    "view (moveToFront a now ?c1) = (k, v, sz v) # AList.delete k (view c)"
    using front e(1) by simp_all
  moreover have "capacity (moveToFront a now ?c1) = capacity c" by (simp add: move)
  ultimately show ?thesis
    using checkCapacity_view [of "moveToFront a now ?c1"] e(2) by (simp add: updateInplace_def Let_def)
qed

lemma lru_Set_view:
  assumes "lru_ok c"
  shows "\<exists>c'. lru_Set sz k v now c =
      Some (victim (capacity c) ((k, v, sz v) # AList.delete k (view c)), c')
    \<and> lru_ok c' \<and> view c' = evict (capacity c) ((k, v, sz v) # AList.delete k (view c))
    \<and> capacity c' = capacity c"
proof (cases "lru_table c k")
  case None
  then have "AList.delete k (view c) = view c"
    using lru_ok_None [OF assms None] 
    by (force simp: AList.delete_eq filter_id_conv map_of_eq_None_iff)
  with addNew_view [OF assms None] None show ?thesis by (simp add: lru_Set_def)
next
  case (Some a)
  with updateInplace_view [OF assms Some] show ?thesis by (simp add: lru_Set_def)
qed

lemma lru_Delete_view:
  assumes "lru_ok c"
  shows "\<exists>c'. lru_Delete k c =
      Some (case map_of (view c) k of None \<Rightarrow> ('''', None) | Some (v, n) \<Rightarrow> (k, Some v), c')
    \<and> lru_ok c' \<and> view c' = AList.delete k (view c) \<and> capacity c' = capacity c"
proof (cases "lru_table c k")
  case None
  from lru_ok_None [OF assms None] have "map_of (view c) k = None" .
  moreover from this have "AList.delete k (view c) = view c"
    by (force simp: AList.delete_eq filter_id_conv map_of_eq_None_iff)
  ultimately show ?thesis using assms None by (simp add: lru_Delete_def)
next
  case (Some a)
  from lru_okD [OF assms Some] obtain e where e: "e_key e = k" "map_of (lru_list c) a = Some e"
    "map_of (view c) k = Some (e_value e, e_size e)" by metis
  define c' where "c' = c\<lparr>lru_list := without a (lru_list c), lru_table := (lru_table c)(k := None),
    lru_size := lru_size c - e_size e\<rparr>"
  have c': "lru_list c' = without a (lru_list c)" "lru_table c' = (lru_table c)(k := None)"
    "lru_size c' = lru_size c - e_size e" "fresh c' = fresh c" "capacity c' = capacity c"
    by (simp_all add: c'_def)
  have v: "view c' = AList.delete k (view c)"
    using view_without [OF assms Some] by (simp add: view_def c')
  have keys: "set (without a (lru_list c)) = {(b, x) \<in> set (lru_list c). b \<noteq> a}"
    by (auto simp: without_def)
  have "distinct (map fst (lru_list c'))"
    using assms by (simp add: lru_ok_def c' without_def distinct_map inj_on_def)
  moreover have "distinct (map fst (view c'))" "lru_size c' = used (view c')"
    using assms e(3) by (simp_all add: lru_ok_def v c' AList.delete_keys distinct_removeAll used_delete)
  moreover have "\<forall>(b, x)\<in>set (lru_list c'). lru_table c' (e_key x) = Some b \<and> b < fresh c'"
    using assms Some by (auto simp: lru_ok_def c' keys)
  moreover have "\<exists>x. (b, x) \<in> set (lru_list c') \<and> e_key x = k'" if "lru_table c' k' = Some b" for k' b
  proof -
    from that have "lru_table c k' = Some b" "k' \<noteq> k" by (auto simp: c' split: if_splits)
    from lru_okD [OF assms this(1)] obtain x where "(b, x) \<in> set (lru_list c)" "e_key x = k'"
      "map_of (lru_list c) b = Some x" by metis
    with e \<open>k' \<noteq> k\<close> show ?thesis by (cases "b = a") (auto simp: c' keys)
  qed
  ultimately have "lru_ok c'" by (simp add: lru_ok_def)
  moreover have "lru_Delete k c = Some ((k, Some (e_value e)), c')"
    using Some e(2) by (simp add: lru_Delete_def c'_def)
  ultimately show ?thesis using v e(3) c'(5) by simp
qed

lemma SetIfAbsent_view:
  assumes "lru_ok c"
  shows "\<exists>c'. SetIfAbsent sz k v now c = Some c' \<and> lru_ok c' \<and> capacity c' = capacity c
    \<and> view c' = (if map_of (view c) k = None then evict (capacity c) ((k, v, sz v) # view c)
        else promote k (view c))"
proof (cases "lru_table c k")
  case None
  with addNew_view [OF assms None, of sz v now] lru_ok_None [OF assms None] show ?thesis
    by (auto simp: SetIfAbsent_def)
next
  case (Some a)
  from lru_okD [OF assms Some] obtain d where "map_of (view c) k = Some d" by metis
  with moveToFront_view [OF assms Some, of now] Some show ?thesis by (simp add: SetIfAbsent_def)
qed

lemma SetCapacity_view:
  assumes "lru_ok c"
  shows "\<exists>c'. SetCapacity cap c = Some c' \<and> lru_ok c' \<and> view c' = evict cap (view c) \<and> capacity c' = cap"
proof -
  have "lru_ok (c\<lparr>capacity := cap\<rparr>)" "view (c\<lparr>capacity := cap\<rparr>) = view c"
    using assms by (simp_all add: lru_ok_def view_def)
  with checkCapacity_view [OF this(1)] show ?thesis by (auto simp: SetCapacity_def)
qed

lemma Clear_view: "lru_ok (Clear c) \<and> view (Clear c) = [] \<and> capacity (Clear c) = capacity c"
  by (simp add: Clear_def lru_ok_def view_def)

lemma NewLRUCache_view: "lru_ok (NewLRUCache cap) \<and> view (NewLRUCache cap) = [] \<and> capacity (NewLRUCache cap) = cap"
  by (simp add: NewLRUCache_def lru_ok_def view_def)

end
