(* ===== verification/Cache_Contract.thy ===== *)
theory Cache_Contract
  imports LRUCache
begin

text \<open>
  The contract of a bounded cache, its interpretation on the LRU cache, and the properties of the
  two caches of \<^verbatim>\<open>server/lrucache\<close>.
\<close>

section \<open>The contract of a cache\<close>

text \<open>
  What a client of a cache relies on: a set of operations, the recency list they work on, and the
  room they have. The TTL cache and the lookup tables of the metric names are such clients.
\<close>

lemma butlast_map_of:
  "distinct (map fst xs) \<Longrightarrow> xs \<noteq> [] \<Longrightarrow> map_of xs j = Some d \<Longrightarrow>
    (if fst (last xs) = j then map_of (butlast xs) j = None \<and> snd (last xs) = d
     else map_of (butlast xs) j = Some d)"
proof (induction xs rule: rev_induct)
  case (snoc x xs)
  then have "x \<notin> set xs" "map_of xs (fst x) = None" by (auto simp: map_of_eq_None_iff)
  with snoc.prems(3) show ?case by (cases x) (auto simp: map_add_def split: option.splits if_splits)
qed simp

locale bounded_cache =
  fixes sz :: "'v \<Rightarrow> i64"
    and get :: "string \<Rightarrow> int \<Rightarrow> 's \<Rightarrow> ('v option \<times> 's) option"
    and put :: "string \<Rightarrow> 'v \<Rightarrow> int \<Rightarrow> 's \<Rightarrow> ((string \<times> 'v option) \<times> 's) option"
    and del :: "string \<Rightarrow> 's \<Rightarrow> ((string \<times> 'v option) \<times> 's) option"
    and ok :: "'s \<Rightarrow> bool"
    and held :: "'s \<Rightarrow> 'v recency"
    and room :: "'s \<Rightarrow> u64"
  assumes distinct_held: "ok s \<Longrightarrow> distinct (map fst (held s))"
    and get_held: "ok s \<Longrightarrow> \<exists>s'. get k now s = Some (map_option fst (map_of (held s) k), s') \<and> ok s'
      \<and> held s' = promote k (held s) \<and> room s' = room s"
    and put_held: "ok s \<Longrightarrow> \<exists>s'. put k v now s =
        Some (victim (room s) ((k, v, sz v) # AList.delete k (held s)), s') \<and> ok s'
      \<and> held s' = evict (room s) ((k, v, sz v) # AList.delete k (held s)) \<and> room s' = room s"
    and del_held: "ok s \<Longrightarrow> \<exists>r s'. del k s = Some (r, s') \<and> ok s'
      \<and> held s' = AList.delete k (held s) \<and> room s' = room s"
begin

lemma get_keeps_map:
  assumes "ok s" and "get k now s = Some (r, s')"
  shows "map_of (held s') = map_of (held s)"
proof -
  from get_held [OF assms(1), of k now] assms(2) have "held s' = promote k (held s)" by auto
  then show ?thesis
    by (auto simp: promote_def AList.delete_conv' split: option.splits)
qed

lemma get_after_put:
  assumes "ok s" and "put k v now s = Some (r, s')"
    and "used ((k, v, sz v) # AList.delete k (held s)) \<le> room s"
  shows "\<exists>s''. get k now' s' = Some (Some v, s'')"
proof -
  from put_held [OF assms(1), of k v now] assms(2) have
    "ok s'" "held s' = evict (room s) ((k, v, sz v) # AList.delete k (held s))" by auto
  with assms(3) get_held [of s' k now'] show ?thesis by (auto simp: evict_def)
qed

lemma put_keeps_others:
  assumes "ok s" and "put k v now s = Some (r, s')" and "j \<noteq> k" and "map_of (held s) j = Some (w, n)"
  shows "map_of (held s') j = Some (w, n) \<or> map_of (held s') j = None \<and> r = (j, Some w)"
proof -
  let ?xs = "(k, v, sz v) # AList.delete k (held s)"
  from put_held [OF assms(1), of k v now] assms(2) have
    r: "r = victim (room s) ?xs" and h: "held s' = evict (room s) ?xs" by auto
  have dist: "distinct (map fst ?xs)"
    using distinct_held [OF assms(1)] by (simp add: AList.delete_keys distinct_removeAll)
  have j: "map_of ?xs j = Some (w, n)" using assms(3,4) by (simp add: AList.delete_conv')
  with butlast_map_of [OF dist _ j] r h show ?thesis
    by (auto simp: victim_def evict_def simp del: used_simps butlast.simps split: if_splits)
qed

lemma get_after_del:
  assumes "ok s" and "del k s = Some (r, s')"
  shows "\<exists>s''. get k now s' = Some (None, s'')"
proof -
  from del_held [OF assms(1), of k] assms(2) have "ok s'" "held s' = AList.delete k (held s)" by auto
  with get_held [of s' k now] show ?thesis by (auto simp: AList.delete_conv')
qed

end

interpretation lru: bounded_cache sz lru_Get "lru_Set sz" lru_Delete lru_ok view capacity for sz
proof unfold_locales
  show "distinct (map fst (view c))" if "lru_ok c" for c :: "'a LRUCache"
    using that by (simp add: lru_ok_def)
  show "\<exists>r c'. lru_Delete k c = Some (r, c') \<and> lru_ok c' \<and> view c' = AList.delete k (view c)
      \<and> capacity c' = capacity c" if "lru_ok c" for k and c :: "'a LRUCache"
    using lru_Delete_view [OF that, of k] by blast
qed (fact lru_Get_view lru_Set_view)+


section \<open>Sequences of operations\<close>

datatype 'v lru_op =
  OpGet string | OpSet string 'v | OpSetIfAbsent string 'v | OpDelete string | OpClear | OpSetCapacity u64

fun lru_step :: "('v \<Rightarrow> i64) \<Rightarrow> int \<Rightarrow> 'v lru_op \<Rightarrow> 'v LRUCache \<Rightarrow> 'v LRUCache option" where
  "lru_step sz now (OpGet k) c = map_option snd (lru_Get k now c)"
| "lru_step sz now (OpSet k v) c = map_option snd (lru_Set sz k v now c)"
| "lru_step sz now (OpSetIfAbsent k v) c = SetIfAbsent sz k v now c"
| "lru_step sz now (OpDelete k) c = map_option snd (lru_Delete k c)"
| "lru_step sz now OpClear c = Some (Clear c)"
| "lru_step sz now (OpSetCapacity cap) c = SetCapacity cap c"

fun lru_run :: "('v \<Rightarrow> i64) \<Rightarrow> (int \<times> 'v lru_op) list \<Rightarrow> 'v LRUCache \<Rightarrow> 'v LRUCache option" where
  "lru_run sz [] c = Some c"
| "lru_run sz ((now, op) # ops) c = do { c1 \<leftarrow> lru_step sz now op c; lru_run sz ops c1 }"

text \<open>The same operations on the recency list and the capacity alone.\<close>

fun spec_step :: "('v \<Rightarrow> i64) \<Rightarrow> 'v lru_op \<Rightarrow> u64 \<times> 'v recency \<Rightarrow> u64 \<times> 'v recency" where
  "spec_step sz (OpGet k) (cap, xs) = (cap, promote k xs)"
| "spec_step sz (OpSet k v) (cap, xs) = (cap, evict cap ((k, v, sz v) # AList.delete k xs))"
| "spec_step sz (OpSetIfAbsent k v) (cap, xs) =
     (cap, if map_of xs k = None then evict cap ((k, v, sz v) # xs) else promote k xs)"
| "spec_step sz (OpDelete k) (cap, xs) = (cap, AList.delete k xs)"
| "spec_step sz OpClear (cap, xs) = (cap, [])"
| "spec_step sz (OpSetCapacity cap') (cap, xs) = (cap', evict cap' xs)"

lemma lru_step_refines:
  assumes "lru_ok c"
  shows "\<exists>c'. lru_step sz now op c = Some c' \<and> lru_ok c'
    \<and> (capacity c', view c') = spec_step sz op (capacity c, view c)"
proof (cases op)
  case (OpGet k)
  with lru_Get_view [OF assms, of k now] show ?thesis by auto
next
  case (OpSet k v)
  with lru_Set_view [OF assms, of sz k v now] show ?thesis by auto
next
  case (OpSetIfAbsent k v)
  with SetIfAbsent_view [OF assms, of sz k v now] show ?thesis by auto
next
  case (OpDelete k)
  with lru_Delete_view [OF assms, of k] show ?thesis by auto
next
  case OpClear
  with Clear_view [of c] show ?thesis by auto
next
  case (OpSetCapacity cap)
  with SetCapacity_view [OF assms, of cap] show ?thesis by auto
qed

lemma lru_run_refines:
  "lru_ok c \<Longrightarrow> \<exists>c'. lru_run sz ops c = Some c' \<and> lru_ok c'
    \<and> (capacity c', view c') = fold (\<lambda>(now, op). spec_step sz op) ops (capacity c, view c)"
proof (induction ops arbitrary: c)
  case (Cons x ops)
  obtain now op where x: "x = (now, op)" by fastforce
  from lru_step_refines [OF Cons.prems, of sz now op] obtain c1 where
    c1: "lru_step sz now op c = Some c1" "lru_ok c1"
      "(capacity c1, view c1) = spec_step sz op (capacity c, view c)" by blast
  from Cons.IH [OF c1(2)] c1 show ?case by (simp add: x)
qed simp

lemma Items_view: "Items c = map (\<lambda>(k, v, n). (k, v)) (view c)"
  by (simp add: Items_def view_def split_beta comp_def)

text \<open>
  C5. The pointer-based cache implements the recency list. Any sequence of \<open>Get\<close>, \<open>Set\<close>,
  \<open>SetIfAbsent\<close>, \<open>Delete\<close>, \<open>Clear\<close> and \<open>SetCapacity\<close> on a new cache runs without following a
  dangling pointer and without evicting from an empty list, keeps the list, the table and the size
  in step, and leaves exactly the items, in the order, that the same operations give on a plain
  list with the most recent key first.
\<close>

theorem lru_refines_recency_list:
  "\<exists>c. lru_run sz ops (NewLRUCache cap) = Some c \<and> lru_ok c
    \<and> Items c = map (\<lambda>(k, v, n). (k, v)) (snd (fold (\<lambda>(now, op). spec_step sz op) ops (cap, [])))
    \<and> lru_size c = used (snd (fold (\<lambda>(now, op). spec_step sz op) ops (cap, [])))"
proof -
  have new: "lru_ok (NewLRUCache cap)" "view (NewLRUCache cap) = []" "capacity (NewLRUCache cap) = cap"
    using NewLRUCache_view [of cap] by auto
  from lru_run_refines [OF new(1), of sz ops] obtain c where
    c: "lru_run sz ops (NewLRUCache cap) = Some c" "lru_ok c"
      "(capacity c, view c) = fold (\<lambda>(now, op). spec_step sz op) ops (cap, [])"
    by (auto simp: new)
  from c(3) have "view c = snd (fold (\<lambda>(now, op). spec_step sz op) ops (cap, []))" by (metis snd_conv)
  with c show ?thesis by (auto simp: Items_view lru_ok_def)
qed

text \<open>
  C6. A value that was set is found: if the entries, with the new one, fit the capacity, then a
  \<open>Get\<close> of the key gives the value, and a \<open>Set\<close> that does evict drops one entry only, which it
  returns; every other key keeps its value.
\<close>

theorem lru_get_set:
  assumes "lru_ok c" and "lru_Set sz k v now c = Some (r, c1)"
  shows "(used ((k, v, sz v) # AList.delete k (view c)) \<le> capacity c \<longrightarrow>
      (\<exists>c2. lru_Get k now' c1 = Some (Some v, c2)))
    \<and> (\<forall>j w n. j \<noteq> k \<longrightarrow> map_of (view c) j = Some (w, n) \<longrightarrow>
      map_of (view c1) j = Some (w, n) \<or> map_of (view c1) j = None \<and> r = (j, Some w))"
  using lru.get_after_put [OF assms] lru.put_keeps_others [OF assms] by blast

theorem lru_get_set_witness:
  "\<exists>r c1 c2. lru_Set (\<lambda>_. 1) ''b'' True 5 (NewLRUCache 2) = Some (r, c1)
    \<and> lru_Get ''b'' 6 c1 = Some (Some True, c2)"
proof -
  have ok: "lru_ok (NewLRUCache 2 :: bool LRUCache)" "view (NewLRUCache 2 :: bool LRUCache) = []"
    "capacity (NewLRUCache 2 :: bool LRUCache) = 2"
    using NewLRUCache_view [of 2] by auto
  from lru_Set_view [OF ok(1), of "\<lambda>_. 1" "''b''" True 5] obtain r c1 where
    "lru_Set (\<lambda>_. 1) ''b'' True 5 (NewLRUCache 2) = Some (r, c1)" by blast
  with lru_get_set [OF ok(1) this, of 6] show ?thesis by (auto simp: ok)
qed


section \<open>The capacity\<close>

definition fits :: "i64 \<Rightarrow> u64 \<Rightarrow> 'v recency \<Rightarrow> bool" where
  "fits n cap xs \<longleftrightarrow> (\<forall>(k, v, m)\<in>set xs. m = n) \<and> length xs * unat n \<le> unat cap"

lemma used_uniform: "\<forall>(k, v, m)\<in>set xs. m = n \<Longrightarrow> used xs = of_nat (length xs * unat n)"
  by (induction xs) auto

lemma fits_used: "fits n cap xs \<Longrightarrow> used xs \<le> cap"
  unfolding fits_def
  by (auto simp: used_uniform word_le_nat_alt unat_of_nat simp del: of_nat_mult
      intro: order_trans [OF mod_less_eq_dividend])

lemma fits_delete: "fits n cap xs \<Longrightarrow> fits n cap (AList.delete k xs)"
  unfolding fits_def AList.delete_eq
  by (auto intro: order_trans [OF mult_le_mono1 [OF length_filter_le]])

lemma fits_promote:
  assumes "fits n cap xs"
  shows "fits n cap (promote k xs)"
proof (cases "map_of xs k")
  case (Some d)
  then have "(k, d) \<in> set xs" by (rule map_of_SomeD)
  moreover from this have "length (AList.delete k xs) < length xs"
    unfolding AList.delete_eq by (rule length_filter_less) auto
  then have "Suc (length (AList.delete k xs)) * unat n \<le> length xs * unat n" by (intro mult_le_mono1) simp
  ultimately show ?thesis
    using assms Some by (cases d) (auto simp: fits_def promote_def AList.delete_eq)
qed (use assms in \<open>simp add: promote_def\<close>)

lemma fits_evict:
  assumes "fits n cap xs" and "unat cap + unat n < 2 ^ 64"
  shows "fits n cap (evict cap ((k, v, n) # xs))"
proof -
  let ?ys = "(k, v, n) # xs"
  have all: "\<forall>(k, v, m)\<in>set ?ys. m = n" using assms(1) by (auto simp: fits_def)
  have "length ?ys * unat n < 2 ^ LENGTH(64)" using assms by (simp add: fits_def)
  then have "unat (used ?ys) = length ?ys * unat n"
    unfolding used_uniform [OF all] by (simp only: unat_of_nat mod_less)
  then show ?thesis
    using assms(1) all by (auto simp: evict_def fits_def word_less_nat_alt not_less simp del: used_simps
        dest: in_set_butlastD)
qed

lemma fits_spec_step:
  assumes "\<forall>v. sz v = n" and "unat cap + unat n < 2 ^ 64" and "\<forall>c. op \<noteq> OpSetCapacity c" and "fits n cap xs"
  shows "fst (spec_step sz op (cap, xs)) = cap \<and> fits n cap (snd (spec_step sz op (cap, xs)))"
  using assms
  by (cases op) (auto simp: fits_promote fits_delete fits_evict fits_delete, simp add: fits_def)

text \<open>
  C7. With values of one size, as in the tables of metric names, the capacity is kept: after any
  operations but \<open>SetCapacity\<close> on a new cache the size is at most the capacity (which must leave
  room for one more value below \<open>2^64\<close>).
\<close>

theorem lru_keeps_capacity:
  assumes "\<forall>v. sz v = n" and "unat cap + unat n < 2 ^ 64"
    and "\<forall>(now, op)\<in>set ops. \<forall>c. op \<noteq> OpSetCapacity c"
    and "lru_run sz ops (NewLRUCache cap) = Some c"
  shows "lru_size c \<le> cap \<and> capacity c = cap"
proof -
  have new: "lru_ok (NewLRUCache cap)" "view (NewLRUCache cap) = []" "capacity (NewLRUCache cap) = cap"
    using NewLRUCache_view [of cap] by auto
  from lru_run_refines [OF new(1), of sz ops] assms(4) have
    c: "lru_ok c" "(capacity c, view c) = fold (\<lambda>(now, op). spec_step sz op) ops (cap, [])"
    by (auto simp: new)
  have "fst (fold (\<lambda>(now, op). spec_step sz op) ops (cap, xs)) = cap
      \<and> fits n cap (snd (fold (\<lambda>(now, op). spec_step sz op) ops (cap, xs)))"
    if "fits n cap xs" for xs
    using that assms(3)
  proof (induction ops arbitrary: xs)
    case (Cons x ops)
    obtain now op where x: "x = (now, op)" by fastforce
    have "\<forall>c. op \<noteq> OpSetCapacity c" using Cons.prems(2) x by auto
    from fits_spec_step [OF assms(1,2) this Cons.prems(1)] obtain ys where
      ys: "spec_step sz op (cap, xs) = (cap, ys)" "fits n cap ys" by (metis prod.collapse)
    from Cons.IH [OF ys(2)] Cons.prems(2) ys(1) show ?case by (simp add: x)
  qed simp
  note fold_fits = this [of "[]"]
  have "fst (fold (\<lambda>(now, op). spec_step sz op) ops (cap, [])) = cap"
    "fits n cap (snd (fold (\<lambda>(now, op). spec_step sz op) ops (cap, [])))"
    using fold_fits by (simp_all add: fits_def)
  then have "capacity c = cap" "fits n cap (view c)" unfolding c(2) [symmetric] by simp_all
  with c(1) fits_used show ?thesis by (simp add: lru_ok_def)
qed

theorem lru_keeps_capacity_witness:
  "\<exists>c. lru_run (\<lambda>_. 1) [(1, OpSet ''a'' True), (2, OpSet ''b'' True), (3, OpSet ''c'' False)] (NewLRUCache 2) = Some c
    \<and> lru_size c \<le> 2 \<and> capacity c = 2"
proof -
  let ?ops = "[(1, OpSet ''a'' True), (2, OpSet ''b'' True), (3, OpSet ''c'' False)]"
  from lru_run_refines [of "NewLRUCache 2" "\<lambda>_. 1" ?ops] NewLRUCache_view [of 2] obtain c where
    c: "lru_run (\<lambda>_. 1) ?ops (NewLRUCache 2) = Some c" by blast
  with lru_keeps_capacity [OF _ _ _ c, of 1] show ?thesis by simp
qed


text \<open>
  \<open>checkCapacity\<close> evicts one entry and returns, so the capacity is not a bound in general: a
  value larger than the capacity, set under a new key in a cache that is not empty, leaves the size
  above the capacity (as long as the sizes, added up, stay below \<open>2^64\<close>).
\<close>

theorem lru_exceeds_capacity:
  assumes "lru_ok c" and "map_of (view c) k = None" and "view c \<noteq> []" and "capacity c < sz v"
    and "(\<Sum>(k, v, n)\<leftarrow>view c. unat n) + unat (sz v) < 2 ^ 64"
  shows "\<exists>r c1. lru_Set sz k v now c = Some (r, c1) \<and> capacity c1 < lru_size c1"
proof -
  obtain ys y where parts: "view c = ys @ [y]" using assms(3) by (metis rev_exhaust)
  have sum: "(\<Sum>(k, v, n)\<leftarrow>xs. unat n) < 2 ^ 64 \<Longrightarrow> unat (used xs) = (\<Sum>(k, v, n)\<leftarrow>xs. unat n)"
    for xs :: "'a recency"
  proof (induction xs)
    case (Cons x xs)
    then show ?case by (cases x) (simp add: unat_word_ariths)
  qed simp
  have del: "AList.delete k (view c) = view c"
    using assms(2) by (force simp: AList.delete_eq filter_id_conv map_of_eq_None_iff)
  have more: "capacity c < used ((k, v, sz v) # zs)"
    if "(\<Sum>(k, v, n)\<leftarrow>zs. unat n) \<le> (\<Sum>(k, v, n)\<leftarrow>view c. unat n)" for zs
    using that assms(4,5) sum [of "(k, v, sz v) # zs"]
    by (simp add: word_less_nat_alt del: used_simps)
  from lru_Set_view [OF assms(1), of sz k v now] obtain r c1 where
    c1: "lru_Set sz k v now c = Some (r, c1)" "lru_ok c1" "capacity c1 = capacity c"
      "view c1 = evict (capacity c) ((k, v, sz v) # view c)" by (auto simp: del) (metis surj_pair)
  have "view c1 = (k, v, sz v) # ys"
    using more [of "view c"] c1(4) by (simp add: evict_def parts del: used_simps)
  moreover have "lru_size c1 = used (view c1)" using c1(2) by (simp add: lru_ok_def)
  ultimately have "capacity c1 < lru_size c1" using more [of ys] c1(3) by (simp add: parts)
  with c1(1) show ?thesis by blast
qed

theorem lru_exceeds_capacity_witness:
  "\<exists>r0 c0 r c1. lru_Set (\<lambda>v. of_nat v) ''a'' 1 5 (NewLRUCache 4) = Some (r0, c0)
    \<and> lru_Set (\<lambda>v. of_nat v) ''b'' 9 6 c0 = Some (r, c1) \<and> capacity c1 < lru_size c1"
proof -
  have new: "lru_ok (NewLRUCache 4 :: nat LRUCache)" "view (NewLRUCache 4 :: nat LRUCache) = []"
    "capacity (NewLRUCache 4 :: nat LRUCache) = 4"
    using NewLRUCache_view [of 4] by auto
  from lru_Set_view [OF new(1), of "\<lambda>v. of_nat v" "''a''" 1 5] obtain r0 c0 where
    c0: "lru_Set (\<lambda>v. of_nat v) ''a'' 1 5 (NewLRUCache 4) = Some (r0, c0)" "lru_ok c0"
      "view c0 = [(''a'', 1, 1)]" "capacity c0 = 4" by (auto simp: new evict_def) (metis surj_pair)
  from lru_exceeds_capacity [OF c0(2), of "''b''" "\<lambda>v. of_nat v" 9 6] c0 show ?thesis by auto
qed

section \<open>The TTL cache\<close>

lemma ttl_Get_view:
  assumes "lru_ok (lc t)"
  shows "\<exists>t'. ttl_Get expired touch k now t =
      Some (case map_of (view (lc t)) k of None \<Rightarrow> None
        | Some (v, n) \<Rightarrow> if expired v then None else Some (touch (default_ttl t) v), t')
    \<and> lru_ok (lc t') \<and> default_ttl t' = default_ttl t \<and> capacity (lc t') = capacity (lc t)
    \<and> view (lc t') = (case map_of (view (lc t)) k of None \<Rightarrow> view (lc t)
        | Some (v, n) \<Rightarrow> (if expired v then [] else [(k, touch (default_ttl t) v, n)]) @ AList.delete k (view (lc t)))"
proof (cases "lru_table (lc t) k")
  case None
  with lru_ok_None [OF assms None] assms show ?thesis by (simp add: ttl_Get_def)
next
  case (Some a)
  from lru_okD [OF assms Some] obtain e where e: "e_key e = k" "map_of (lru_list (lc t)) a = Some e"
    "map_of (view (lc t)) k = Some (e_value e, e_size e)" by metis
  show ?thesis
  proof (cases "expired (e_value e)")
    case True
    with lru_Delete_view [OF assms, of k] Some e show ?thesis by (auto simp: ttl_Get_def)
  next
    case False
    let ?e = "e\<lparr>e_value := touch (default_ttl t) (e_value e)\<rparr>"
    let ?c = "(lc t)\<lparr>lru_list := map (\<lambda>x. if fst x = a then (a, ?e) else x) (lru_list (lc t))\<rparr>"
    have move: "moveToFront a now ?c = (lc t)\<lparr>lru_list := (a, ?e\<lparr>time_accessed := now\<rparr>) # without a (lru_list (lc t)),
        lru_size := lru_size (lc t) - e_size e + e_size (?e\<lparr>time_accessed := now\<rparr>)\<rparr>"
      using set_elem_front [OF e(2)] by (simp add: moveToFront_def)
    have "lru_ok (moveToFront a now ?c)"
      "view (moveToFront a now ?c) = (k, touch (default_ttl t) (e_value e), e_size e) # AList.delete k (view (lc t))"
      using lru_ok_front [OF assms Some e(2) _ move] e(1) by simp_all
    moreover have "capacity (moveToFront a now ?c) = capacity (lc t)" by (simp add: move)
    ultimately show ?thesis using Some e False by (simp add: ttl_Get_def Let_def)
  qed
qed

text \<open>
  C8. The TTL cache never hands out an expired value. A \<open>Get\<close> returns a value only if the cache
  held one for the key that was not expired, and then it returns that value with its life renewed;
  an expired value is gone from the cache afterwards, and other keys are as they were.
\<close>

theorem ttl_get:
  assumes "lru_ok (lc t)" and "ttl_Get expired touch k now t = Some (r, t')"
  shows "lru_ok (lc t')
    \<and> (r = (case map_of (view (lc t)) k of None \<Rightarrow> None
         | Some (v, n) \<Rightarrow> if expired v then None else Some (touch (default_ttl t) v)))
    \<and> (r = None \<longrightarrow> map_of (view (lc t')) k = None)
    \<and> (\<forall>j. j \<noteq> k \<longrightarrow> map_of (view (lc t')) j = map_of (view (lc t)) j)"
  using ttl_Get_view [OF assms(1), of expired touch k now] assms(2)
  by (auto simp: AList.delete_conv' split: option.splits if_splits)

theorem ttl_get_witness:
  "\<exists>r0 t r t'. ttl_Set (\<lambda>_. 1) (\<lambda>ttl v. v + ttl) ''k'' 3 0 (NewTTLLRUCache 10 7) = Some (r0, t)
    \<and> ttl_Get (\<lambda>v. v < 20) (\<lambda>ttl v. v + ttl) ''k'' 1 t = Some (r, t') \<and> r = None
    \<and> map_of (view (lc t')) ''k'' = None"
proof -
  have new: "lru_ok (NewLRUCache 10 :: int LRUCache)" "view (NewLRUCache 10 :: int LRUCache) = []"
    "capacity (NewLRUCache 10 :: int LRUCache) = 10"
    using NewLRUCache_view [of 10] by auto
  from lru_Set_view [OF new(1), of "\<lambda>_. 1" "''k''" "10" 0] obtain r0 t where
    t: "ttl_Set (\<lambda>_. 1) (\<lambda>ttl v. v + ttl) ''k'' 3 0 (NewTTLLRUCache 10 7) = Some (r0, t)"
      "lru_ok (lc t)" "view (lc t) = [(''k'', 10, 1)]"
    by (auto simp: ttl_Set_def NewTTLLRUCache_def new evict_def) (metis surj_pair)
  from ttl_Get_view [OF t(2), of "\<lambda>v. v < 20" "\<lambda>ttl v. v + ttl" "''k''" 1] obtain r t' where
    t': "ttl_Get (\<lambda>v. v < 20) (\<lambda>ttl v. v + ttl) ''k'' 1 t = Some (r, t')" by blast
  from ttl_get [OF t(2) t'] t t' show ?thesis by auto
qed

end
