(* ===== verification/Go_Strings.thy ===== *)
theory Go_Strings
  imports Go_Prelude "HOL-Library.Sublist"
begin

text \<open>
  The functions of the Go package \<^verbatim>\<open>strings\<close> that the code uses, on strings as lists of
  bytes-as-characters: \<open>Split\<close>, \<open>Join\<close>, \<open>Contains\<close>, \<open>HasPrefix\<close>, and their laws.
\<close>

fun strip_prefix :: "string \<Rightarrow> string \<Rightarrow> string option" where
  "strip_prefix [] s = Some s"
| "strip_prefix (c # cs) [] = None"
| "strip_prefix (c # cs) (d # ds) = (if c = d then strip_prefix cs ds else None)"

lemma strip_prefix_Some: "strip_prefix p s = Some r \<longleftrightarrow> s = p @ r"
  by (induction p s rule: strip_prefix.induct) auto

lemma strip_prefix_None: "strip_prefix p s = None \<longleftrightarrow> \<not> prefix p s"
  by (induction p s rule: strip_prefix.induct) auto

definition HasPrefix :: "string \<Rightarrow> string \<Rightarrow> bool" where
  "HasPrefix s p = prefix p s"

definition HasSuffix :: "string \<Rightarrow> string \<Rightarrow> bool" where
  "HasSuffix s p = suffix p s"

fun Contains :: "string \<Rightarrow> string \<Rightarrow> bool" where
  "Contains [] sub = (sub = [])"
| "Contains (c # s) sub = (prefix sub (c # s) \<or> Contains s sub)"

lemma Contains_sublist: "Contains s sub \<longleftrightarrow> sublist sub s"
  by (induction s) (auto simp: sublist_Cons_right)

text \<open>Splitting at a separator \<open>x # xs\<close>, from the left, with the piece read so far.\<close>

function split_from :: "char \<Rightarrow> string \<Rightarrow> string \<Rightarrow> string \<Rightarrow> string list" where
  "split_from x xs acc [] = [acc]"
| "split_from x xs acc (c # s) =
     (case strip_prefix (x # xs) (c # s) of
        Some rest \<Rightarrow> acc # split_from x xs [] rest
      | None \<Rightarrow> split_from x xs (acc @ [c]) s)"
  by pat_completeness auto
termination
  by (relation "measure (\<lambda>(x, xs, acc, s). length s)") (auto simp: strip_prefix_Some split: if_splits)

definition Split :: "string \<Rightarrow> string \<Rightarrow> string list" where
  "Split s sep = (case sep of [] \<Rightarrow> map (\<lambda>c. [c]) s | x # xs \<Rightarrow> split_from x xs [] s)"

fun Join :: "string list \<Rightarrow> string \<Rightarrow> string" where
  "Join [] sep = []"
| "Join [p] sep = p"
| "Join (p # q # ps) sep = p @ sep @ Join (q # ps) sep"

lemma Join_Cons: "ps \<noteq> [] \<Longrightarrow> Join (p # ps) sep = p @ sep @ Join ps sep"
  by (cases ps) auto

lemma split_from_not_Nil [simp]: "split_from x xs acc s \<noteq> []"
  by (induction x xs acc s rule: split_from.induct) (auto split: option.split)

lemma Split_not_Nil [simp]: "sep \<noteq> [] \<Longrightarrow> Split s sep \<noteq> []"
  by (simp add: Split_def split: list.split)

lemma Join_split_from: "Join (split_from x xs acc s) (x # xs) = acc @ s"
proof (induction x xs acc s rule: split_from.induct)
  case (2 x xs acc c s)
  then show ?case
    by (cases "strip_prefix (x # xs) (c # s)")
      (auto simp: Join_Cons simp del: strip_prefix.simps dest: strip_prefix_Some [THEN iffD1])
qed simp

lemma Join_Split: "sep \<noteq> [] \<Longrightarrow> Join (Split s sep) sep = s"
  by (cases sep) (simp_all add: Split_def Join_split_from)

lemma Split_inject: "sep \<noteq> [] \<Longrightarrow> Split s sep = Split t sep \<longleftrightarrow> s = t"
  using Join_Split by metis

text \<open>For a separator of one character the pieces are free of it, and splitting inverts joining.\<close>

lemma strip_prefix_single: "strip_prefix [x] (c # s) = (if c = x then Some s else None)"
  by simp

lemma split_from_free: "x \<notin> set acc \<Longrightarrow> \<forall>p\<in>set (split_from x [] acc s). x \<notin> set p"
proof (induction s arbitrary: acc)
  case (Cons c s)
  from Cons.IH [of "[]"] Cons.IH [of "acc @ [c]"] Cons.prems show ?case by auto
qed simp

lemma Split_free: "p \<in> set (Split s [x]) \<Longrightarrow> x \<notin> set p"
  using split_from_free [of x "[]" s] by (simp add: Split_def)

lemma split_from_piece: "x \<notin> set p \<Longrightarrow> split_from x [] acc p = [acc @ p]"
  by (induction p arbitrary: acc) auto

lemma split_from_append: "x \<notin> set p \<Longrightarrow> split_from x [] acc (p @ x # s) = (acc @ p) # split_from x [] [] s"
  by (induction p arbitrary: acc) auto

lemma Split_Join:
  assumes "ps \<noteq> []" and "\<forall>p\<in>set ps. x \<notin> set p"
  shows "Split (Join ps [x]) [x] = ps"
  using assms
proof (induction ps)
  case (Cons p ps)
  then show ?case
    by (cases ps) (simp_all add: Split_def split_from_piece split_from_append)
qed simp

lemma Split_no_sep: "x \<notin> set s \<Longrightarrow> Split s [x] = [s]"
  by (simp add: Split_def split_from_piece)

end
