(* ===== verification/Trie.thy ===== *)
theory Trie
  imports Go_Strings "HOL-Library.AList"
begin

text \<open>
  The trie of \<^verbatim>\<open>server/utils/trie/trie.go\<close>: keys are split at a delimiter, each segment is a
  step to a child. A nil value is \<^const>\<open>None\<close>. The children of a node, a Go map, are an association
  list; maps that are results are functions to options. The walk over the parts of a key is a
  recursion on the list of parts. Locks are left out.
\<close>

section \<open>Trees\<close>

datatype 'v Tree = Tree (tree_value: "'v option") (tree_children: "(string \<times> 'v Tree) list")

record 'v Trie =
  root :: "'v Tree"
  delim :: string
  trie_length :: int

definition newTree :: "'v Tree" where
  "newTree = Tree None []"

definition New :: "string \<Rightarrow> 'v Trie" where
  "New d = \<lparr>root = newTree, delim = (if d = '''' then ''.'' else d), trie_length = 0\<rparr>"

definition trie_Len :: "'v Trie \<Rightarrow> int" where
  "trie_Len tr = trie_length tr"

text \<open>The loop of \<open>Put\<close>, with whether the length grows.\<close>

fun put_parts :: "'v option \<Rightarrow> string list \<Rightarrow> 'v Tree \<Rightarrow> 'v Tree \<times> bool" where
  "put_parts v [] t = (t, False)"
| "put_parts v (part # parts) (Tree w cs) =
     (let child = (case map_of cs part of None \<Rightarrow> newTree | Some c \<Rightarrow> c) in
      if parts = [] then
        (Tree w (AList.update part (Tree v (tree_children child)) cs), tree_value child = None)
      else
        (case put_parts v parts child of (child', grows) \<Rightarrow>
           (Tree w (AList.update part child' cs), grows)))"

definition Put :: "string \<Rightarrow> 'v option \<Rightarrow> 'v Trie \<Rightarrow> 'v Trie" where
  "Put key v tr =
     (case put_parts v (Split key (delim tr)) (root tr) of (t, grows) \<Rightarrow>
        tr\<lparr>root := t, trie_length := trie_length tr + (if grows then 1 else 0)\<rparr>)"

fun get_parts :: "string list \<Rightarrow> 'v Tree \<Rightarrow> 'v option" where
  "get_parts [] t = None"
| "get_parts (part # parts) (Tree w cs) =
     (case map_of cs part of
        None \<Rightarrow> None
      | Some child \<Rightarrow> if parts = [] then tree_value child else get_parts parts child)"

definition Get :: "string \<Rightarrow> 'v Trie \<Rightarrow> 'v option" where
  "Get key tr = get_parts (Split key (delim tr)) (root tr)"

definition Has :: "string \<Rightarrow> 'v Trie \<Rightarrow> bool" where
  "Has key tr \<longleftrightarrow> Get key tr \<noteq> None"

fun pop_parts :: "string list \<Rightarrow> 'v Tree \<Rightarrow> 'v Tree \<times> 'v option" where
  "pop_parts [] t = (t, None)"
| "pop_parts (part # parts) (Tree w cs) =
     (case map_of cs part of
        None \<Rightarrow> (Tree w cs, None)
      | Some child \<Rightarrow>
          if parts = [] then
            (Tree w (if tree_children child = [] then AList.delete part cs
                     else AList.update part (Tree None (tree_children child)) cs), tree_value child)
          else
            (case pop_parts parts child of (child', v) \<Rightarrow> (Tree w (AList.update part child' cs), v)))"

definition Pop :: "string \<Rightarrow> 'v Trie \<Rightarrow> 'v option \<times> 'v Trie" where
  "Pop key tr =
     (case pop_parts (Split key (delim tr)) (root tr) of (t, v) \<Rightarrow>
        (v, tr\<lparr>root := t, trie_length := trie_length tr - (if v \<noteq> None then 1 else 0)\<rparr>))"

definition trie_Clear :: "'v Trie \<Rightarrow> 'v Trie" where
  "trie_Clear tr = tr\<lparr>root := Tree (tree_value (root tr)) [], trie_length := 0\<rparr>"

section \<open>Searches\<close>

text \<open>Merging the result of a child into the map of results, for all children.\<close>

definition merge_results :: "(string \<times> (string \<Rightarrow> 'a option)) list \<Rightarrow> string \<Rightarrow> 'a option" where
  "merge_results rs = foldl (\<lambda>m r. m ++ snd r) (\<lambda>_. None) rs"

fun match_parts :: "string \<Rightarrow> string list \<Rightarrow> string list \<Rightarrow> 'v Tree \<Rightarrow> string \<Rightarrow> 'v option" where
  "match_parts d keys [] t =
     (case tree_value t of None \<Rightarrow> (\<lambda>_. None) | Some v \<Rightarrow> [Join keys d \<mapsto> v])"
| "match_parts d keys (part # parts) t =
     (if part = ''*'' then
        merge_results (map (\<lambda>(segment, child). (segment, match_parts d (keys @ [segment]) parts child))
          (tree_children t))
      else
        (case map_of (tree_children t) part of
           None \<Rightarrow> (\<lambda>_. None)
         | Some child \<Rightarrow> match_parts d (keys @ [part]) parts child))"

definition Match :: "string \<Rightarrow> 'v Trie \<Rightarrow> string \<Rightarrow> 'v option" where
  "Match pattern tr = match_parts (delim tr) [] (Split pattern (delim tr)) (root tr)"

text \<open>A result of \<open>Children\<close> is the map of the children of a node, or the value of a leaf.\<close>

datatype 'v child_result = Kids "(string \<times> 'v Tree) list" | Leaf "'v option"

definition child_value :: "'v Tree \<Rightarrow> 'v child_result" where
  "child_value t = (if tree_children t \<noteq> [] then Kids (tree_children t) else Leaf (tree_value t))"

fun children_parts :: "string \<Rightarrow> string list \<Rightarrow> string list \<Rightarrow> 'v Tree \<Rightarrow> string \<Rightarrow> 'v child_result option" where
  "children_parts d keys [] t = [Join keys d \<mapsto> child_value t]"
| "children_parts d keys (part # parts) t =
     (if part = ''*'' then
        merge_results (map (\<lambda>(segment, child). (segment, children_parts d (keys @ [segment]) parts child))
          (tree_children t))
      else
        (case map_of (tree_children t) part of
           None \<Rightarrow> (\<lambda>_. None)
         | Some child \<Rightarrow> children_parts d (keys @ [part]) parts child))"

definition Children :: "string \<Rightarrow> 'v Trie \<Rightarrow> string \<Rightarrow> 'v child_result option" where
  "Children pattern tr = children_parts (delim tr) [] (Split pattern (delim tr)) (root tr)"

text \<open>
  Flattening expands results that are maps of any values. \<open>Children\<close> gives maps of trees, another type, and the values
  kept here are no maps; so each result goes through under its own key.
\<close>

definition flat_childs :: "string \<Rightarrow> string \<Rightarrow> (string \<Rightarrow> 'a option) \<Rightarrow> string \<Rightarrow> 'a option" where
  "flat_childs d pre childs =
     (let base = (if pre \<noteq> [] then pre @ d else [])
      in (\<lambda>k. if HasPrefix k base then childs (drop (length base) k) else None))"

definition ChildrenFlat :: "string \<Rightarrow> 'v Trie \<Rightarrow> string \<Rightarrow> 'v child_result option" where
  "ChildrenFlat pattern tr = flat_childs (delim tr) [] (Children pattern tr)"

fun map_tree :: "string \<Rightarrow> string list \<Rightarrow> 'v Tree \<Rightarrow> string \<Rightarrow> 'v option" where
  "map_tree d keys (Tree v cs) =
     (case v of None \<Rightarrow> (\<lambda>_. None) | Some x \<Rightarrow> [Join keys d \<mapsto> x]) ++
     merge_results (map (\<lambda>(segment, child). (segment, map_tree d (keys @ [segment]) child)) cs)"

definition Map :: "'v Trie \<Rightarrow> string \<Rightarrow> 'v option" where
  "Map tr = map_tree (delim tr) [] (root tr)"

fun matched_parts :: "string \<Rightarrow> string list \<Rightarrow> string list \<Rightarrow> 'v Tree \<Rightarrow> string \<Rightarrow> 'v option" where
  "matched_parts d keys [] t =
     (case tree_value t of None \<Rightarrow> (\<lambda>_. None) | Some v \<Rightarrow> [Join keys d \<mapsto> v])"
| "matched_parts d keys (part # parts) t =
     (case map_of (tree_children t) ''*'' of
        None \<Rightarrow> (\<lambda>_. None)
      | Some child \<Rightarrow> matched_parts d (keys @ [''*'']) parts child) ++
     (case map_of (tree_children t) part of
        None \<Rightarrow> (\<lambda>_. None)
      | Some child \<Rightarrow> matched_parts d (keys @ [part]) parts child)"

definition Matched :: "string \<Rightarrow> 'v Trie \<Rightarrow> string \<Rightarrow> 'v option" where
  "Matched s tr = matched_parts (delim tr) [] (Split s (delim tr)) (root tr)"

end
