(* ===== verification/Trie_Laws.thy ===== *)
theory Trie_Laws
  imports Trie
begin

text \<open>
  The trie as a map from keys to values: the contract of a store of values under keys, its
  interpretation on the trie, and what the searches with wildcards return.
\<close>

section \<open>A store of values under keys\<close>

text \<open>What a client does to a store, and what this does to a plain map.\<close>

datatype ('k, 'v) store_op = Put_key 'k 'v | Pop_key 'k | Clear_all

fun map_op :: "('k, 'v) store_op \<Rightarrow> ('k \<Rightarrow> 'v option) \<Rightarrow> 'k \<Rightarrow> 'v option" where
  "map_op (Put_key k v) m = m(k \<mapsto> v)"
| "map_op (Pop_key k) m = m(k := None)"
| "map_op Clear_all m = (\<lambda>_. None)"

locale keyed_store =
  fixes get :: "'k \<Rightarrow> 's \<Rightarrow> 'v option"
    and put :: "'k \<Rightarrow> 'v \<Rightarrow> 's \<Rightarrow> 's"
    and pop :: "'k \<Rightarrow> 's \<Rightarrow> 'v option \<times> 's"
    and clear :: "'s \<Rightarrow> 's"
    and len :: "'s \<Rightarrow> int"
    and ok :: "'s \<Rightarrow> bool"
  assumes ok_put: "ok s \<Longrightarrow> ok (put k v s)"
    and ok_pop: "ok s \<Longrightarrow> ok (snd (pop k s))"
    and get_put: "ok s \<Longrightarrow> get j (put k v s) = (if j = k then Some v else get j s)"
    and pop_get: "ok s \<Longrightarrow> fst (pop k s) = get k s"
    and get_pop: "ok s \<Longrightarrow> get j (snd (pop k s)) = (if j = k then None else get j s)"
    and len_put: "ok s \<Longrightarrow> len (put k v s) = len s + (if get k s = None then 1 else 0)"
    and len_pop: "ok s \<Longrightarrow> len (snd (pop k s)) = len s - (if get k s = None then 0 else 1)"
    and ok_clear: "ok s \<Longrightarrow> ok (clear s)"
    and get_clear: "ok s \<Longrightarrow> get k (clear s) = None"
    and len_clear: "ok s \<Longrightarrow> len (clear s) = 0"
begin

definition contents :: "'s \<Rightarrow> 'k \<Rightarrow> 'v option" where
  "contents s = (\<lambda>k. get k s)"

definition counted :: "'s \<Rightarrow> bool" where
  "counted s \<longleftrightarrow> ok s \<and> finite (dom (contents s)) \<and> len s = int (card (dom (contents s)))"

fun run :: "('k, 'v) store_op list \<Rightarrow> 's \<Rightarrow> 's" where
  "run [] s = s"
| "run (Put_key k v # ops) s = run ops (put k v s)"
| "run (Pop_key k # ops) s = run ops (snd (pop k s))"
| "run (Clear_all # ops) s = run ops (clear s)"

lemma contents_put: "ok s \<Longrightarrow> contents (put k v s) = (contents s)(k \<mapsto> v)"
  by (auto simp: contents_def get_put)

lemma contents_pop: "ok s \<Longrightarrow> contents (snd (pop k s)) = (contents s)(k := None)"
  by (auto simp: contents_def get_pop)

lemma contents_clear: "ok s \<Longrightarrow> contents (clear s) = (\<lambda>_. None)"
  by (auto simp: contents_def get_clear)

lemma counted_clear: "counted s \<Longrightarrow> counted (clear s)"
  by (simp add: counted_def ok_clear contents_clear len_clear)

lemma counted_put:
  assumes "counted s"
  shows "counted (put k v s)"
proof -
  from assms have s: "ok s" "finite (dom (contents s))" "len s = int (card (dom (contents s)))"
    by (auto simp: counted_def)
  then show ?thesis
    by (auto simp: counted_def ok_put contents_put len_put card_insert_if)
      (auto simp: contents_def)
qed

lemma counted_pop:
  assumes "counted s"
  shows "counted (snd (pop k s))"
proof -
  from assms have s: "ok s" "finite (dom (contents s))" "len s = int (card (dom (contents s)))"
    by (auto simp: counted_def)
  have "int (card (dom (contents s) - {k})) =
      int (card (dom (contents s))) - (if get k s = None then 0 else 1)"
  proof (cases "k \<in> dom (contents s)")
    case True
    then have "0 < card (dom (contents s))" using s(2) by (metis card_gt_0_iff empty_iff)
    then show ?thesis using True s(2) by (auto simp: card_Diff_singleton contents_def)
  qed (auto simp: contents_def domIff)
  then show ?thesis using s by (simp add: counted_def ok_pop contents_pop len_pop)
qed

lemma run_counted: "counted s \<Longrightarrow> counted (run ops s)"
  by (induction ops s rule: run.induct) (simp_all add: counted_put counted_pop counted_clear)

lemma run_contents:
  "counted s \<Longrightarrow> contents (run ops s) = fold map_op ops (contents s)"
  by (induction ops s rule: run.induct)
    (simp_all add: counted_put counted_pop counted_clear contents_put contents_pop contents_clear
      counted_def [THEN iffD1, THEN conjunct1])

end

section \<open>The trie is such a store\<close>

lemma newTree_simps [simp]: "tree_value newTree = None" "tree_children newTree = []" "get_parts ps newTree = None"
  by (cases ps; simp add: newTree_def)+

lemma get_parts_Cons:
  "get_parts (p # ps) t =
    (case map_of (tree_children t) p of None \<Rightarrow> None | Some c \<Rightarrow> if ps = [] then tree_value c else get_parts ps c)"
  by (cases t) simp

lemma put_parts_value [simp]: "tree_value (fst (put_parts v ps t)) = tree_value t"
  by (cases t; cases ps) (auto simp: Let_def split: prod.splits)

lemma pop_parts_value [simp]: "tree_value (fst (pop_parts ps t)) = tree_value t"
  by (cases t; cases ps) (auto split: prod.splits option.splits)

lemma put_parts_Cons:
  "put_parts v (p # ps) t =
     (let child = (case map_of (tree_children t) p of None \<Rightarrow> newTree | Some c \<Rightarrow> c) in
      if ps = [] then
        (Tree (tree_value t) (AList.update p (Tree v (tree_children child)) (tree_children t)), tree_value child = None)
      else (Tree (tree_value t) (AList.update p (fst (put_parts v ps child)) (tree_children t)), snd (put_parts v ps child)))"
  by (cases t) (simp add: Let_def split: prod.split)

lemma pop_parts_Cons:
  "pop_parts (p # ps) t =
     (case map_of (tree_children t) p of
        None \<Rightarrow> (t, None)
      | Some c \<Rightarrow>
          if ps = [] then
            (Tree (tree_value t) (if tree_children c = [] then AList.delete p (tree_children t)
                     else AList.update p (Tree None (tree_children c)) (tree_children t)), tree_value c)
          else (Tree (tree_value t) (AList.update p (fst (pop_parts ps c)) (tree_children t)), snd (pop_parts ps c)))"
  by (cases t) (simp split: prod.split option.split)

lemma get_put_parts:
  "ps \<noteq> [] \<Longrightarrow> get_parts qs (fst (put_parts v ps t)) = (if qs = ps then v else get_parts qs t)"
proof (induction ps arbitrary: qs t)
  case (Cons p ps)
  show ?case
  proof (cases qs)
    case (Cons q rest)
    show ?thesis
    proof (cases "map_of (tree_children t) p")
      case None
      with Cons Cons.IH [of rest newTree] show ?thesis
        by (cases "ps = []"; cases rest) (auto simp: put_parts_Cons get_parts_Cons AList.update_conv' Let_def)
    next
      case (Some c)
      with Cons Cons.IH [of rest c] show ?thesis
        by (cases "ps = []"; cases rest) (auto simp: put_parts_Cons get_parts_Cons AList.update_conv' Let_def)
    qed
  qed simp
qed simp

lemma put_parts_grows: "ps \<noteq> [] \<Longrightarrow> snd (put_parts v ps t) \<longleftrightarrow> get_parts ps t = None"
proof (induction ps arbitrary: t)
  case (Cons p ps)
  then show ?case
    by (cases "map_of (tree_children t) p") (auto simp: put_parts_Cons get_parts_Cons Let_def)
qed simp

lemma pop_parts_get: "snd (pop_parts ps t) = get_parts ps t"
  by (induction ps arbitrary: t) (auto simp: pop_parts_Cons get_parts_Cons split: option.splits)

lemma get_pop_parts: "get_parts qs (fst (pop_parts ps t)) = (if qs = ps then None else get_parts qs t)"
proof (induction ps arbitrary: qs t)
  case (Cons p ps)
  show ?case
  proof (cases qs)
    case (Cons q rest)
    show ?thesis
    proof (cases "map_of (tree_children t) p")
      case None
      with Cons show ?thesis by (auto simp: pop_parts_Cons get_parts_Cons)
    next
      case (Some c)
      with Cons Cons.IH [of rest c] show ?thesis
        by (cases "ps = []"; cases rest)
          (auto simp: pop_parts_Cons get_parts_Cons AList.update_conv' AList.delete_conv')
    qed
  qed simp
qed (cases qs, simp_all)

lemma Put_fields [simp]:
  "delim (Put k v tr) = delim tr"
  "root (Put k v tr) = fst (put_parts v (Split k (delim tr)) (root tr))"
  "trie_length (Put k v tr) =
     trie_length tr + (if snd (put_parts v (Split k (delim tr)) (root tr)) then 1 else 0)"
  by (simp_all add: Put_def split_beta)

lemma Pop_fields [simp]:
  "delim (snd (Pop k tr)) = delim tr" "fst (Pop k tr) = Get k tr"
  "root (snd (Pop k tr)) = fst (pop_parts (Split k (delim tr)) (root tr))"
  "trie_length (snd (Pop k tr)) = trie_length tr - (if Get k tr = None then 0 else 1)"
  by (simp_all add: Pop_def Get_def pop_parts_get split_beta)

definition trie_ok :: "'v Trie \<Rightarrow> bool" where
  "trie_ok tr \<longleftrightarrow> delim tr \<noteq> []"

lemma Get_Put:
  "trie_ok tr \<Longrightarrow> Get j (Put k v tr) = (if j = k then v else Get j tr)"
  by (simp add: Get_def trie_ok_def get_put_parts Split_inject)

lemma Clear_fields [simp]:
  "delim (trie_Clear tr) = delim tr" "trie_length (trie_Clear tr) = 0"
  "get_parts ps (root (trie_Clear tr)) = None"
  by (cases ps; simp add: trie_Clear_def)+

interpretation trie: keyed_store Get "\<lambda>k v. Put k (Some v)" Pop trie_Clear trie_Len trie_ok
  by unfold_locales
    (simp_all add: Get_def trie_ok_def get_put_parts get_pop_parts put_parts_grows trie_Len_def Split_inject)

text \<open>A client that puts values, pops keys and clears the trie.\<close>

fun trie_run :: "(string, 'v) store_op list \<Rightarrow> 'v Trie \<Rightarrow> 'v Trie" where
  "trie_run [] tr = tr"
| "trie_run (Put_key k v # ops) tr = trie_run ops (Put k (Some v) tr)"
| "trie_run (Pop_key k # ops) tr = trie_run ops (snd (Pop k tr))"
| "trie_run (Clear_all # ops) tr = trie_run ops (trie_Clear tr)"

lemma trie_run: "trie_run ops tr = trie.run ops tr"
  by (induction ops tr rule: trie_run.induct) simp_all

lemma Get_New [simp]: "Get k (New d) = None"
  by (cases "Split k (delim (New d :: 'v Trie))") (simp_all add: Get_def New_def newTree_def)

lemma New_counted: "trie.counted (New d)"
  by (simp add: trie.counted_def trie.contents_def dom_def) (simp add: trie_ok_def New_def trie_Len_def)

text \<open>
  C9. The trie is a map from whole keys to values. After any sequence of \<open>Put\<close> (of values that are
  not nil), \<open>Pop\<close> and \<open>Clear\<close> on a new trie, whatever its delimiter, \<open>Get\<close> gives for every key what the
  last operation on this very key (or clearing all) left, keys that are prefixes of other keys do not disturb each
  other, and \<open>Len\<close> is the number of keys that have a value.
\<close>

theorem trie_is_map:
  "(\<forall>k. Get k (trie_run ops (New d)) = fold map_op ops (\<lambda>_. None) k)
    \<and> trie_Len (trie_run ops (New d)) = int (card {k. Has k (trie_run ops (New d))})"
proof -
  have "trie.contents (trie_run ops (New d)) = fold map_op ops (\<lambda>_. None)"
    unfolding trie_run trie.run_contents [OF New_counted] by (simp add: trie.contents_def)
  moreover have "trie.counted (trie_run ops (New d))"
    unfolding trie_run by (rule trie.run_counted [OF New_counted])
  ultimately show ?thesis
    by (simp add: trie.counted_def trie.contents_def dom_def Has_def fun_eq_iff)
qed

section \<open>Searches\<close>

fun node :: "string list \<Rightarrow> 'v Tree \<Rightarrow> 'v Tree option" where
  "node [] t = Some t"
| "node (p # ps) t = (case map_of (tree_children t) p of None \<Rightarrow> None | Some c \<Rightarrow> node ps c)"

lemma get_parts_node: "ps \<noteq> [] \<Longrightarrow> get_parts ps t = Option.bind (node ps t) tree_value"
proof (induction ps arbitrary: t)
  case (Cons p ps)
  then show ?case by (cases "map_of (tree_children t) p") (auto simp: get_parts_Cons)
qed simp

text \<open>
  Trees as \<open>Put\<close> and \<open>Pop\<close> make them: the segments of the children of a node are different, and
  free of the delimiter.
\<close>

fun wf_tree :: "char \<Rightarrow> 'v Tree \<Rightarrow> bool" where
  "wf_tree x (Tree v cs) \<longleftrightarrow> distinct (map fst cs) \<and> (\<forall>(s, c)\<in>set cs. x \<notin> set s \<and> wf_tree x c)"

lemma wf_tree_child: "wf_tree x t \<Longrightarrow> map_of (tree_children t) p = Some c \<Longrightarrow> x \<notin> set p \<and> wf_tree x c"
  by (cases t) (auto dest: map_of_SomeD)

lemma wf_tree_children:
  "wf_tree x t \<Longrightarrow> distinct (map fst (tree_children t)) \<and> (\<forall>(s, c)\<in>set (tree_children t). x \<notin> set s \<and> wf_tree x c)"
  by (cases t) simp

lemma set_update: "y \<in> set (AList.update k v al) \<Longrightarrow> y = (k, v) \<or> y \<in> set al"
  by (induction al) (auto split: if_splits)

lemma wf_tree_update:
  "wf_tree x t \<Longrightarrow> x \<notin> set p \<Longrightarrow> wf_tree x c \<Longrightarrow> wf_tree x (Tree v (AList.update p c (tree_children t)))"
  by (cases t) (auto simp: distinct_update dest!: set_update)

lemma wf_newTree [simp]: "wf_tree x newTree"
  by (simp add: newTree_def)

lemma wf_tree_Tree: "wf_tree x (Tree v (tree_children t)) \<longleftrightarrow> wf_tree x t"
  by (cases t) simp

lemma wf_put_parts: "wf_tree x t \<Longrightarrow> \<forall>p\<in>set ps. x \<notin> set p \<Longrightarrow> wf_tree x (fst (put_parts v ps t))"
proof (induction ps arbitrary: t)
  case (Cons p ps)
  let ?c = "case map_of (tree_children t) p of None \<Rightarrow> newTree | Some c \<Rightarrow> c"
  have c: "wf_tree x ?c" using wf_tree_child [OF Cons.prems(1)] by (simp split: option.split)
  have p: "x \<notin> set p" using Cons.prems(2) by simp
  note upd = wf_tree_update [OF Cons.prems(1) p]
  from upd [of "Tree v (tree_children ?c)"] upd [OF Cons.IH [OF c]] c Cons.prems(2) show ?case
    by (simp add: put_parts_Cons Let_def wf_tree_Tree del: wf_tree.simps)
qed simp

lemma wf_pop_parts: "wf_tree x t \<Longrightarrow> wf_tree x (fst (pop_parts ps t))"
proof (induction ps arbitrary: t)
  case (Cons p ps)
  show ?case
  proof (cases "map_of (tree_children t) p")
    case (Some c)
    have "wf_tree x (Tree v (AList.delete p (tree_children t)))" for v
      using Cons.prems by (cases t) (auto simp: AList.delete_eq distinct_map_filter)
    moreover from wf_tree_child [OF Cons.prems Some] have c: "x \<notin> set p" "wf_tree x c" by auto
    note upd = wf_tree_update [OF Cons.prems c(1)]
    from upd [of "Tree None (tree_children c)"] upd [OF Cons.IH [OF c(2)]] c(2) calculation Some show ?thesis
      by (simp add: pop_parts_Cons wf_tree_Tree del: wf_tree.simps)
  qed (use Cons in \<open>simp add: pop_parts_Cons\<close>)
qed simp

definition trie_wf :: "char \<Rightarrow> 'v Trie \<Rightarrow> bool" where
  "trie_wf x tr \<longleftrightarrow> delim tr = [x] \<and> wf_tree x (root tr) \<and> tree_value (root tr) = None"

lemma trie_wf_run: "trie_wf x tr \<Longrightarrow> trie_wf x (trie_run ops tr)"
proof (induction ops tr rule: trie_run.induct)
  case (2 k v ops tr)
  then show ?case by (simp add: trie_wf_def wf_put_parts Split_free)
next
  case (3 k ops tr)
  then show ?case by (simp add: trie_wf_def wf_pop_parts)
next
  case (4 ops tr)
  then show ?case by (simp add: trie_wf_def trie_Clear_def)
qed simp

lemma trie_wf_New: "trie_wf x (New [x])"
  by (simp add: trie_wf_def New_def newTree_def)

text \<open>What merging gives when the results agree where they overlap.\<close>

lemma merge_results_snoc: "merge_results (rs @ [r]) = merge_results rs ++ snd r"
  by (simp add: merge_results_def)

lemma merge_results_Some:
  assumes "\<And>r r' a b. r \<in> set rs \<Longrightarrow> r' \<in> set rs \<Longrightarrow> snd r k = Some a \<Longrightarrow> snd r' k = Some b \<Longrightarrow> a = b"
  shows "merge_results rs k = Some v \<longleftrightarrow> (\<exists>r\<in>set rs. snd r k = Some v)"
  using assms
proof (induction rs rule: rev_induct)
  case (snoc r rs)
  have "merge_results rs k = Some v \<longleftrightarrow> (\<exists>r\<in>set rs. snd r k = Some v)"
    by (rule snoc.IH, rule snoc.prems) auto
  note IH = this
  show ?case
  proof (cases "snd r k")
    case None
    with IH show ?thesis by (auto simp: merge_results_snoc map_add_Some_iff)
  next
    case (Some b)
    have "b = a" if "r' \<in> set rs" "snd r' k = Some a" for r' a
      using snoc.prems [of r r' b a] that Some by simp
    with Some show ?thesis by (auto simp: merge_results_snoc map_add_Some_iff)
  qed
qed (simp add: merge_results_def)

lemma option_ext: "(\<And>v. a = Some v \<longleftrightarrow> b = Some v) \<Longrightarrow> a = b"
  by (cases a; cases b) auto

lemma node_free: "wf_tree x t \<Longrightarrow> node path t = Some c \<Longrightarrow> \<forall>p\<in>set path. x \<notin> set p"
proof (induction path arbitrary: t)
  case (Cons p path)
  then obtain d where "map_of (tree_children t) p = Some d" "node path d = Some c"
    by (auto split: option.splits)
  with wf_tree_child [OF Cons.prems(1)] Cons.IH show ?case by auto
qed simp

lemma Join_inject:
  assumes "Join ps [x] = Join qs [x]" and "ps \<noteq> []" "qs \<noteq> []"
    and "\<forall>p\<in>set ps. x \<notin> set p" "\<forall>p\<in>set qs. x \<notin> set p"
  shows "ps = qs"
  by (metis Split_Join assms)

lemma merge_children:
  assumes "wf_tree x t" and "\<forall>p\<in>set keys. x \<notin> set p"
    and "\<And>s c v. (s, c) \<in> set (tree_children t) \<Longrightarrow> f s c k = Some v \<longleftrightarrow>
      (\<exists>path d. P path \<and> node path c = Some d \<and> val d = Some v \<and> k = Join (keys @ s # path) [x])"
  shows "merge_results (map (\<lambda>(s, c). (s, f s c)) (tree_children t)) k = Some v \<longleftrightarrow>
    (\<exists>s path d. P path \<and> node (s # path) t = Some d \<and> val d = Some v \<and> k = Join (keys @ s # path) [x])"
proof -
  note wf = wf_tree_children [OF assms(1)]
  have child: "(s, c) \<in> set (tree_children t) \<longleftrightarrow> map_of (tree_children t) s = Some c" for s c
    using wf by (simp add: map_of_eq_Some_iff)
  have agree: "a = b" if r: "(s, c) \<in> set (tree_children t)" "(s', c') \<in> set (tree_children t)"
    "f s c k = Some a" "f s' c' k = Some b" for s c s' c' a b
  proof -
    from r(3) assms(3) [OF r(1)] obtain path d where
      d: "node path c = Some d" "k = Join (keys @ s # path) [x]" by auto
    from r(4) assms(3) [OF r(2)] obtain path' d' where
      d': "node path' c' = Some d'" "k = Join (keys @ s' # path') [x]" by auto
    have "wf_tree x c" "x \<notin> set s" "wf_tree x c'" "x \<notin> set s'" using r(1,2) wf by auto
    then have "\<forall>p\<in>set (keys @ s # path). x \<notin> set p" "\<forall>p\<in>set (keys @ s' # path'). x \<notin> set p"
      using assms(2) node_free [OF _ d(1)] node_free [OF _ d'(1)] by auto
    with Join_inject [of "keys @ s # path" x "keys @ s' # path'"] d(2) d'(2) have "s = s'" by auto
    moreover from this r(1,2) have "c = c'" by (simp add: child)
    ultimately show "a = b" using r(3,4) by simp
  qed
  let ?rs = "map (\<lambda>(s, c). (s, f s c)) (tree_children t)"
  have "merge_results ?rs k = Some v \<longleftrightarrow> (\<exists>r\<in>set ?rs. snd r k = Some v)"
  proof (rule merge_results_Some)
    fix r r' a b
    assume r: "r \<in> set ?rs" "r' \<in> set ?rs" "snd r k = Some a" "snd r' k = Some b"
    then obtain s c s' c' where "(s, c) \<in> set (tree_children t)" "(s', c') \<in> set (tree_children t)"
      "r = (s, f s c)" "r' = (s', f s' c')" by auto
    with agree [of s c s' c' a b] r(3,4) show "a = b" by simp
  qed
  also have "\<dots> \<longleftrightarrow> (\<exists>s c. (s, c) \<in> set (tree_children t) \<and> f s c k = Some v)" by force
  also have "\<dots> \<longleftrightarrow> (\<exists>s c. (s, c) \<in> set (tree_children t) \<and>
      (\<exists>path d. P path \<and> node path c = Some d \<and> val d = Some v \<and> k = Join (keys @ s # path) [x]))"
    by (intro ex_cong1 conj_cong refl) (rule assms(3))
  also have "\<dots> \<longleftrightarrow> (\<exists>s path d. P path \<and> node (s # path) t = Some d \<and> val d = Some v
      \<and> k = Join (keys @ s # path) [x])"
  proof -
    have "node (s # path) t = Some d \<longleftrightarrow> (\<exists>c. (s, c) \<in> set (tree_children t) \<and> node path c = Some d)"
      for s path d by (simp add: child split: option.splits)
    then show ?thesis by (auto simp del: node.simps)
  qed
  finally show ?thesis .
qed

text \<open>A pattern is a list of parts, of which \<open>''*''\<close> stands for any one segment.\<close>

definition seg_match :: "string \<Rightarrow> string \<Rightarrow> bool" where
  "seg_match p s \<longleftrightarrow> p = ''*'' \<or> p = s"

lemma seg_match_star [simp]: "seg_match ''*'' s"
  by (simp add: seg_match_def)

lemma match_parts_Some:
  "wf_tree x t \<Longrightarrow> \<forall>p\<in>set keys. x \<notin> set p \<Longrightarrow> match_parts [x] keys parts t k = Some v \<longleftrightarrow>
    (\<exists>path d. list_all2 seg_match parts path \<and> node path t = Some d \<and> tree_value d = Some v
      \<and> k = Join (keys @ path) [x])"
proof (induction parts arbitrary: keys t v)
  case Nil
  then show ?case by (auto split: option.splits if_splits)
next
  case (Cons part parts)
  show ?case
  proof (cases "part = ''*''")
    case True
    have "match_parts [x] (keys @ [s]) parts c k = Some v \<longleftrightarrow> (\<exists>path d. list_all2 seg_match parts path
        \<and> node path c = Some d \<and> tree_value d = Some v \<and> k = Join (keys @ s # path) [x])"
      if "(s, c) \<in> set (tree_children t)" for s c v
    proof -
      have "wf_tree x c" "\<forall>p\<in>set (keys @ [s]). x \<notin> set p"
        using that wf_tree_children [OF Cons.prems(1)] Cons.prems(2) by auto
      from Cons.IH [OF this] show ?thesis by simp
    qed
    from merge_children [where f = "\<lambda>s. match_parts [x] (keys @ [s]) parts" and val = tree_value
        and P = "list_all2 seg_match parts", OF Cons.prems this, of v] True show ?thesis
      by (auto simp: list_all2_Cons1 seg_match_star simp del: node.simps)
  next
    case False
    show ?thesis
    proof (cases "map_of (tree_children t) part")
      case (Some c)
      have "wf_tree x c" "\<forall>p\<in>set (keys @ [part]). x \<notin> set p"
        using wf_tree_child [OF Cons.prems(1) Some] Cons.prems(2) by auto
      from Cons.IH [OF this] Some False show ?thesis by (simp add: list_all2_Cons1 seg_match_def) auto
    qed (use False in \<open>auto simp: list_all2_Cons1 seg_match_def\<close>)
  qed
qed

text \<open>The one path that spells a key.\<close>

lemma path_of_key:
  assumes "trie_wf x tr" and "\<not> P []"
  shows "(\<exists>path d. P path \<and> node path (root tr) = Some d \<and> tree_value d = Some v \<and> k = Join path [x])
    \<longleftrightarrow> P (Split k [x]) \<and> Get k tr = Some v"
proof -
  have wf: "delim tr = [x]" "wf_tree x (root tr)" using assms(1) by (auto simp: trie_wf_def)
  have key: "path = Split k [x] \<longleftrightarrow> k = Join path [x]" if "P path" "node path (root tr) = Some d" for path d
  proof -
    have "path \<noteq> []" using that(1) assms(2) by auto
    with Split_Join [OF this] node_free [OF wf(2) that(2)] Join_Split [of "[x]" k] show ?thesis by auto
  qed
  have "(\<exists>path d. P path \<and> node path (root tr) = Some d \<and> tree_value d = Some v \<and> k = Join path [x])
      \<longleftrightarrow> (\<exists>path d. P path \<and> node path (root tr) = Some d \<and> tree_value d = Some v \<and> path = Split k [x])"
    by (intro ex_cong1 conj_cong refl) (simp add: key)
  also have "\<dots> \<longleftrightarrow> P (Split k [x]) \<and> Get k tr = Some v"
    using wf(1) by (auto simp: Get_def get_parts_node bind_eq_Some_conv)
  finally show ?thesis .
qed

text \<open>
  C10. \<open>Match\<close> finds exactly the keys that fit a pattern: in a trie that was filled by puts and
  pops, and cleared any number of times (with a delimiter of one character), a key is in the result if and only if it has a value, has as
  many segments as the pattern, and agrees with the pattern in every part that is not a star; it is
  there with its value.
\<close>

theorem match_spec:
  "Match pattern (trie_run ops (New [x])) k =
    (if list_all2 seg_match (Split pattern [x]) (Split k [x]) then Get k (trie_run ops (New [x])) else None)"
proof -
  let ?tr = "trie_run ops (New [x])"
  have wf: "trie_wf x ?tr" by (rule trie_wf_run [OF trie_wf_New])
  have "Match pattern ?tr k = Some v \<longleftrightarrow> (\<exists>path d. list_all2 seg_match (Split pattern [x]) path
      \<and> node path (root ?tr) = Some d \<and> tree_value d = Some v \<and> k = Join path [x])" for v
    using match_parts_Some [of x "root ?tr" "[]"] wf by (simp add: Match_def trie_wf_def)
  then have "Match pattern ?tr k = Some v \<longleftrightarrow>
      list_all2 seg_match (Split pattern [x]) (Split k [x]) \<and> Get k ?tr = Some v" for v
    using path_of_key [OF wf, of "list_all2 seg_match (Split pattern [x])"] by auto
  then show ?thesis by (intro option_ext) simp
qed

lemma matched_parts_Some:
  "wf_tree x t \<Longrightarrow> \<forall>p\<in>set keys. x \<notin> set p \<Longrightarrow> matched_parts [x] keys parts t k = Some v \<longleftrightarrow>
    (\<exists>path d. list_all2 (\<lambda>s p. seg_match p s) parts path \<and> node path t = Some d \<and> tree_value d = Some v
      \<and> k = Join (keys @ path) [x])"
proof (induction parts arbitrary: keys t v)
  case Nil
  then show ?case by (auto split: option.splits if_splits)
next
  case (Cons part parts)
  define via where "via s = (case map_of (tree_children t) s of
      None \<Rightarrow> (\<lambda>_. None) | Some child \<Rightarrow> matched_parts [x] (keys @ [s]) parts child)" for s
  have via: "via s k = Some v \<longleftrightarrow> (\<exists>path d. list_all2 (\<lambda>s p. seg_match p s) parts path \<and> node (s # path) t = Some d
      \<and> tree_value d = Some v \<and> k = Join (keys @ s # path) [x])" for s v
  proof (cases "map_of (tree_children t) s")
    case (Some c)
    have "wf_tree x c" "\<forall>p\<in>set (keys @ [s]). x \<notin> set p"
      using wf_tree_child [OF Cons.prems(1) Some] Cons.prems(2) by auto
    from Cons.IH [OF this] Some show ?thesis by (simp add: via_def)
  qed (simp add: via_def)
  have same: "s = s'" if "via s k = Some a" "via s' k = Some b" for s s' a b
  proof -
    from that obtain path d path' d' where
      d: "node (s # path) t = Some d" "k = Join (keys @ s # path) [x]"
        "node (s' # path') t = Some d'" "k = Join (keys @ s' # path') [x]" by (auto simp: via simp del: node.simps)
    with node_free [OF Cons.prems(1) d(1)] node_free [OF Cons.prems(1) d(3)] Cons.prems(2)
      Join_inject [of "keys @ s # path" x "keys @ s' # path'"] show ?thesis by auto
  qed
  have "matched_parts [x] keys (part # parts) t k = (via ''*'' ++ via part) k" by (simp add: via_def)
  then have "matched_parts [x] keys (part # parts) t k = Some v \<longleftrightarrow> via ''*'' k = Some v \<or> via part k = Some v"
    using same [of "''*''" _ part]
    by (cases "via part k"; cases "via ''*'' k") (auto simp: map_add_def simp del: matched_parts.simps)
  also have "\<dots> \<longleftrightarrow> (\<exists>s. seg_match s part \<and> via s k = Some v)" by (auto simp: seg_match_def)
  finally show ?case unfolding via by (auto simp: list_all2_Cons1 simp del: node.simps)
qed

lemma map_tree_Some:
  "wf_tree x t \<Longrightarrow> \<forall>p\<in>set keys. x \<notin> set p \<Longrightarrow> keys \<noteq> [] \<or> tree_value t = None \<Longrightarrow>
    map_tree [x] keys t k = Some v \<longleftrightarrow>
      (\<exists>path d. node path t = Some d \<and> tree_value d = Some v \<and> k = Join (keys @ path) [x])"
proof (induction t arbitrary: keys v)
  case (Tree w cs)
  have kids: "map_tree [x] (keys @ [s]) c k = Some v \<longleftrightarrow>
      (\<exists>path d. True \<and> node path c = Some d \<and> tree_value d = Some v \<and> k = Join (keys @ s # path) [x])"
    if "(s, c) \<in> set (tree_children (Tree w cs))" for s c v
  proof -
    have "(s, c) \<in> set cs" "c \<in> Basic_BNFs.snds (s, c)" "wf_tree x c" "\<forall>p\<in>set (keys @ [s]). x \<notin> set p"
      using that Tree.prems(1,2) by auto
    from Tree.IH [OF this] show ?thesis by simp
  qed
  let ?rest = "merge_results (map (\<lambda>(s, c). (s, map_tree [x] (keys @ [s]) c)) cs)"
  have rest: "?rest k = Some v \<longleftrightarrow> (\<exists>s path d. node (s # path) (Tree w cs) = Some d \<and> tree_value d = Some v
      \<and> k = Join (keys @ s # path) [x])" for v
    using merge_children [where f = "\<lambda>s. map_tree [x] (keys @ [s])" and P = "\<lambda>_. True" and val = tree_value,
        OF Tree.prems(1,2) kids, of v] by (simp del: node.simps)
  have own: "?rest k = None" if "w = Some u" "k = Join keys [x]" for u
  proof (rule ccontr)
    assume "?rest k \<noteq> None"
    then obtain s path d where "node (s # path) (Tree w cs) = Some d" "k = Join (keys @ s # path) [x]"
      using rest by blast
    with node_free [OF Tree.prems(1) this(1)] Tree.prems that
      Join_inject [of "keys @ s # path" x keys] show False by auto
  qed
  have "map_tree [x] keys (Tree w cs) k = Some v \<longleftrightarrow> w = Some v \<and> k = Join keys [x] \<or> ?rest k = Some v"
    using own by (cases w) (auto simp: map_add_Some_iff split: if_splits)
  also have "\<dots> \<longleftrightarrow> (\<exists>path d. node path (Tree w cs) = Some d \<and> tree_value d = Some v \<and> k = Join (keys @ path) [x])"
    unfolding rest
  proof (intro iffI; elim disjE exE conjE)
    fix path d
    assume "node path (Tree w cs) = Some d" "tree_value d = Some v" "k = Join (keys @ path) [x]"
    then show "w = Some v \<and> k = Join keys [x] \<or> (\<exists>s path d. node (s # path) (Tree w cs) = Some d
        \<and> tree_value d = Some v \<and> k = Join (keys @ s # path) [x])"
      by (cases path) (auto simp del: node.simps(2))
  qed (auto simp del: node.simps(2) intro: exI [of _ "[]"])
  finally show ?case .
qed


text \<open>
  C11. \<open>Matched\<close> is the search the other way round: the keys of the trie are taken as patterns, and
  it returns those that fit the given string, with their values.
\<close>

theorem matched_spec:
  "Matched s (trie_run ops (New [x])) k =
    (if list_all2 seg_match (Split k [x]) (Split s [x]) then Get k (trie_run ops (New [x])) else None)"
proof -
  let ?tr = "trie_run ops (New [x])"
  have wf: "trie_wf x ?tr" by (rule trie_wf_run [OF trie_wf_New])
  have "Matched s ?tr k = Some v \<longleftrightarrow> (\<exists>path d. list_all2 (\<lambda>s p. seg_match p s) (Split s [x]) path
      \<and> node path (root ?tr) = Some d \<and> tree_value d = Some v \<and> k = Join path [x])" for v
    using matched_parts_Some [of x "root ?tr" "[]"] wf by (simp add: Matched_def trie_wf_def)
  then have "Matched s ?tr k = Some v \<longleftrightarrow>
      list_all2 (\<lambda>s p. seg_match p s) (Split s [x]) (Split k [x]) \<and> Get k ?tr = Some v" for v
    using path_of_key [OF wf, of "list_all2 (\<lambda>s p. seg_match p s) (Split s [x])"] by auto
  then show ?thesis
    by (intro option_ext) (auto simp: list_all2_conv_all_nth)
qed

text \<open>
  \<open>Map\<close> lists the whole trie: it has exactly the keys that have a value, with these values.
\<close>

theorem map_spec: "Map (trie_run ops (New [x])) k = Get k (trie_run ops (New [x]))"
proof -
  let ?tr = "trie_run ops (New [x])"
  have wf: "trie_wf x ?tr" by (rule trie_wf_run [OF trie_wf_New])
  have "Map ?tr k = Some v \<longleftrightarrow> (\<exists>path d. path \<noteq> [] \<and> node path (root ?tr) = Some d
      \<and> tree_value d = Some v \<and> k = Join path [x])" for v
  proof -
    have "Map ?tr k = Some v \<longleftrightarrow> (\<exists>path d. node path (root ?tr) = Some d \<and> tree_value d = Some v
        \<and> k = Join path [x])"
      using map_tree_Some [of x "root ?tr" "[]"] wf by (simp add: Map_def trie_wf_def)
    moreover have "path \<noteq> []" if "node path (root ?tr) = Some d" "tree_value d = Some v" for path d
      using that wf by (auto simp: trie_wf_def)
    ultimately show ?thesis by blast
  qed
  then have "Map ?tr k = Some v \<longleftrightarrow> Get k ?tr = Some v" for v
    using path_of_key [OF wf, of "\<lambda>path. path \<noteq> []"] by auto
  then show ?thesis by (intro option_ext)
qed

end
