(* ===== verification/Tags.thy ===== *)
theory Tags
  imports Go_Strings "HOL-Library.Char_ord" "HOL-Library.List_Lexorder"
begin

text \<open>
  Tags of metrics: \<^verbatim>\<open>server/schemas/repr/tags.go\<close> and \<^verbatim>\<open>metric2.go\<close>. A list of tags is a list
  of records. A method on \<^verbatim>\<open>*SortingTags\<close> that changes its receiver gives the list the receiver
  holds afterwards with the list it returns; a nil receiver is \<^const>\<open>None\<close>. That two lists may
  share tag objects is not modelled: every list has its own tags.
\<close>

section \<open>Tags\<close>

record Tag =
  Name :: string
  Value :: string

type_synonym SortingTags = "Tag list"

definition DOT_SEPARATOR :: string where "DOT_SEPARATOR = ''.''"
definition COMMA_SEPARATOR :: string where "COMMA_SEPARATOR = '',''"
definition EQUAL_SEPARATOR :: string where "EQUAL_SEPARATOR = ''=''"
definition SPACE_SEPARATOR :: string where "SPACE_SEPARATOR = '' ''"
definition COLON_SEPARATOR :: string where "COLON_SEPARATOR = '':''"
definition IS_SEPARATOR :: string where "IS_SEPARATOR = ''_is_''"

definition tag_Join :: "Tag \<Rightarrow> string \<Rightarrow> string" where
  "tag_Join t sep = Name t @ sep @ Value t"

definition tag_of_string :: "string \<Rightarrow> Tag option" where
  "tag_of_string tgs =
     (let spls = Split tgs EQUAL_SEPARATOR;
          spls = (if length spls < 2 then Split tgs IS_SEPARATOR else spls);
          spls = (if length spls < 2 then Split tgs COLON_SEPARATOR else spls)
      in if length spls < 2 then None else Some \<lparr>Name = spls ! 0, Value = spls ! 1\<rparr>)"

fun SortingTagsFromArray :: "string list \<Rightarrow> SortingTags" where
  "SortingTagsFromArray [] = []"
| "SortingTagsFromArray (tgs # keys) =
     (case tag_of_string tgs of
        None \<Rightarrow> SortingTagsFromArray keys
      | Some t \<Rightarrow> t # SortingTagsFromArray keys)"

definition SortingTagsFromString :: "string \<Rightarrow> SortingTags" where
  "SortingTagsFromString key =
     SortingTagsFromArray
       (if Contains key COMMA_SEPARATOR then Split key COMMA_SEPARATOR
        else if Contains key DOT_SEPARATOR then Split key DOT_SEPARATOR
        else Split key SPACE_SEPARATOR)"

definition IsEmpty :: "SortingTags \<Rightarrow> bool" where
  "IsEmpty s \<longleftrightarrow> length s = 0"

text \<open>\<open>SetTags\<close> converts its argument and returns it; the receiver stays as it is.\<close>

definition SetTags :: "SortingTags \<Rightarrow> Tag list \<Rightarrow> SortingTags \<times> SortingTags" where
  "SetTags s tgs = (s, tgs)"

text \<open>The inner loop of the merges: the first tag of the name gets the value.\<close>

fun set_first :: "string \<Rightarrow> string \<Rightarrow> SortingTags \<Rightarrow> SortingTags option" where
  "set_first n v [] = None"
| "set_first n v (t # s) =
     (if n = Name t then Some (t\<lparr>Value := v\<rparr> # s) else map_option ((#) t) (set_first n v s))"

definition merge_one :: "Tag \<Rightarrow> SortingTags \<Rightarrow> SortingTags" where
  "merge_one tag s =
     (case set_first (Name tag) (Value tag) s of
        Some s' \<Rightarrow> s'
      | None \<Rightarrow> s @ [\<lparr>Name = Name tag, Value = Value tag\<rparr>])"

definition Merge :: "SortingTags \<Rightarrow> SortingTags option \<Rightarrow> SortingTags \<times> SortingTags" where
  "Merge s tags =
     (case tags of
        None \<Rightarrow> (s, s)
      | Some ts \<Rightarrow>
          if length ts = 0 then (s, s)
          else if length s = 0 then (s, ts)
          else let s' = fold merge_one ts s in (s', s'))"

definition MergeList :: "SortingTags \<Rightarrow> Tag list \<Rightarrow> SortingTags \<times> SortingTags" where
  "MergeList s tags =
     (if length tags = 0 then (s, s)
      else if length s = 0 then let s' = fst (SetTags s tags) in (s', s')
      else let s' = fold merge_one tags s in (s', s'))"

definition MergeTagLists :: "Tag list \<Rightarrow> Tag list \<Rightarrow> Tag list" where
  "MergeTagLists ina inb =
     (if length ina = 0 \<and> length inb = 0 then ina
      else if length ina = 0 then inb
      else if length inb = 0 then ina
      else let tgs = fst (SetTags [] ina) in snd (MergeList tgs inb))"

definition FromTagList :: "Tag list \<Rightarrow> SortingTags" where
  "FromTagList ina = ina"

definition tags_Len :: "SortingTags \<Rightarrow> int" where
  "tags_Len p = int (length p)"

definition tags_Less :: "SortingTags \<Rightarrow> nat \<Rightarrow> nat \<Rightarrow> bool option" where
  "tags_Less p i j = do { a \<leftarrow> slice_get p i; b \<leftarrow> slice_get p j; Some (Name a < Name b) }"

definition tags_Swap :: "SortingTags \<Rightarrow> nat \<Rightarrow> nat \<Rightarrow> SortingTags option" where
  "tags_Swap p i j = do { a \<leftarrow> slice_get p i; b \<leftarrow> slice_get p j; Some (p[i := b, j := a]) }"

definition StringList :: "SortingTags \<Rightarrow> string list" where
  "StringList s = map (\<lambda>t. Name t @ ''='' @ Value t) s"

fun has_count :: "Tag \<Rightarrow> SortingTags \<Rightarrow> nat" where
  "has_count tag [] = 0"
| "has_count tag (oTag # s) =
     (if Name tag = Name oTag \<and> Value tag = Value oTag then 1 else 0) + has_count tag s"

definition HasAllTags :: "SortingTags \<Rightarrow> SortingTags \<Rightarrow> bool" where
  "HasAllTags s tags =
     (if length tags = 0 then True
      else if length s = 0 \<and> length tags > 0 then False
      else sum_list (map (\<lambda>tag. has_count tag s) tags) = length tags)"

definition ToStringSep :: "SortingTags \<Rightarrow> string \<Rightarrow> string \<Rightarrow> string" where
  "ToStringSep s wordsep tagsep = Join (map (\<lambda>tag. tag_Join tag wordsep) s) tagsep"

definition BaseString :: "SortingTags \<Rightarrow> string" where
  "BaseString s = ToStringSep s EQUAL_SEPARATOR SPACE_SEPARATOR"

definition tags_String :: "SortingTags \<Rightarrow> string" where
  "tags_String s = BaseString s"

text \<open>\<open>WriteBytes\<close> appends to a buffer; the index tells the last tag.\<close>

fun write_tags :: "string \<Rightarrow> string \<Rightarrow> nat \<Rightarrow> nat \<Rightarrow> SortingTags \<Rightarrow> string \<Rightarrow> string" where
  "write_tags wordsep tagsep l idx [] buf = buf"
| "write_tags wordsep tagsep l idx (tag # s) buf =
     write_tags wordsep tagsep l (Suc idx) s
       (buf @ Name tag @ wordsep @ Value tag @ (if int idx < int l - 1 then tagsep else []))"

definition tags_WriteBytes :: "SortingTags \<Rightarrow> string \<Rightarrow> string \<Rightarrow> string \<Rightarrow> string" where
  "tags_WriteBytes s wordsep tagsep buf = write_tags wordsep tagsep (length s) 0 s buf"

fun Find :: "SortingTags \<Rightarrow> string \<Rightarrow> string" where
  "Find [] name = ''''"
| "Find (tag # s) name = (if Name tag = name then Value tag else Find s name)"

definition tags_Set :: "SortingTags \<Rightarrow> string \<Rightarrow> string \<Rightarrow> SortingTags" where
  "tags_Set s name val =
     (case set_first name val s of Some s' \<Rightarrow> s' | None \<Rightarrow> s @ [\<lparr>Name = name, Value = val\<rparr>])"

definition Unit :: "SortingTags \<Rightarrow> string" where
  "Unit s = Find s ''unit''"

definition Mtype :: "SortingTags \<Rightarrow> string" where
  "Mtype s = (let got = Find s ''mtype'' in if got = '''' then Find s ''target_type'' else got)"

definition Stat :: "SortingTags \<Rightarrow> string" where
  "Stat s = Find s ''stat''"

section \<open>Metrics 2.0\<close>

definition METRICS2_ID_TAGS :: "string list" where
  "METRICS2_ID_TAGS =
     [''host'', ''http_method'', ''http_code'', ''device'', ''unit'', ''what'', ''type'', ''result'',
      ''stat'', ''bin_max'', ''direction'', ''mtype'', ''unit'', ''file'', ''line'', ''env'', ''dc'', ''zone'']"

definition IsMetric2Tag :: "string \<Rightarrow> bool" where
  "IsMetric2Tag name \<longleftrightarrow> list_ex (\<lambda>t. name = t) METRICS2_ID_TAGS"

text \<open>\<open>Set\<close> on a nil list panics when it ranges over the list.\<close>

definition ptr_Set :: "SortingTags option \<Rightarrow> string \<Rightarrow> string \<Rightarrow> SortingTags option" where
  "ptr_Set s name val = map_option (\<lambda>s. tags_Set s name val) s"

fun metric2_from :: "(string \<times> string) list \<Rightarrow> SortingTags option \<Rightarrow> SortingTags option \<Rightarrow>
    (SortingTags option \<times> SortingTags option) option" where
  "metric2_from [] nTag nMeta = Some (nTag, nMeta)"
| "metric2_from ((nkey, nval) # intag) nTag nMeta =
     (if IsMetric2Tag nkey then do {
        t \<leftarrow> ptr_Set nTag nkey nval; metric2_from intag (Some t) nMeta }
      else do { t \<leftarrow> ptr_Set nMeta nkey nval; metric2_from intag nTag (Some t) })"

definition Metric2FromMap :: "(string \<times> string) list \<Rightarrow> (SortingTags option \<times> SortingTags option) option" where
  "Metric2FromMap intag = metric2_from intag None None"

definition sort_tag :: "Tag \<Rightarrow> SortingTags \<times> SortingTags \<Rightarrow> SortingTags \<times> SortingTags" where
  "sort_tag ntag r = (case r of (nTag, nMeta) \<Rightarrow>
     if IsMetric2Tag (Name ntag) then (tags_Set nTag (Name ntag) (Value ntag), nMeta)
     else (nTag, tags_Set nMeta (Name ntag) (Value ntag)))"

definition SplitIntoMetric2Tags :: "SortingTags \<Rightarrow> SortingTags \<Rightarrow> SortingTags \<times> SortingTags" where
  "SplitIntoMetric2Tags intag inmeta =
     (if IsEmpty inmeta \<and> IsEmpty intag then (intag, inmeta)
      else fold sort_tag intag (fold sort_tag inmeta ([], [])))"

definition MergeMetric2Tags :: "SortingTags \<Rightarrow> SortingTags \<Rightarrow> SortingTags \<Rightarrow> SortingTags \<times> SortingTags" where
  "MergeMetric2Tags newtags intag inmeta =
     (if IsEmpty newtags then (intag, inmeta) else fold sort_tag newtags (intag, inmeta))"

end
