(* ===== verification/Tag_Laws.thy ===== *)
theory Tag_Laws
  imports Tags
begin

text \<open>
  Laws of the tag lists: setting and finding by name, merging, splitting into identity and meta
  tags, and the string forms.
\<close>

section \<open>Stores that overwrite\<close>

lemma map_of_rev_distinct: "distinct (map fst xs) \<Longrightarrow> map_of (rev xs) = map_of xs"
  by (simp add: map_of_inject_set rev_map [symmetric])

locale overwriting_store =
  fixes look :: "'s \<Rightarrow> 'k \<Rightarrow> 'v option"
    and set_key :: "'s \<Rightarrow> 'k \<Rightarrow> 'v \<Rightarrow> 's"
  assumes look_set: "look (set_key s k v) = (look s)(k \<mapsto> v)"
begin

lemma look_fold: "look (fold (\<lambda>(k, v) s. set_key s k v) kvs s) = look s ++ map_of (rev kvs)"
  by (induction kvs arbitrary: s) (auto simp: look_set map_add_def fun_eq_iff split: option.splits)

lemma look_fold_distinct:
  "distinct (map fst kvs) \<Longrightarrow> look (fold (\<lambda>(k, v) s. set_key s k v) kvs s) = look s ++ map_of kvs"
  by (simp add: look_fold map_of_rev_distinct)

end

definition pairs :: "SortingTags \<Rightarrow> (string \<times> string) list" where
  "pairs s = map (\<lambda>t. (Name t, Value t)) s"

definition lookup :: "SortingTags \<Rightarrow> string \<Rightarrow> string option" where
  "lookup s = map_of (pairs s)"

abbreviation names :: "SortingTags \<Rightarrow> string list" where
  "names s \<equiv> map Name s"

lemma map_fst_pairs [simp]: "map fst (pairs s) = names s"
  by (simp add: pairs_def)

lemma Find_lookup: "Find s n = (case lookup s n of None \<Rightarrow> '''' | Some v \<Rightarrow> v)"
  by (induction s) (auto simp: lookup_def pairs_def)

lemma set_first_cases:
  "case set_first n v s of
     None \<Rightarrow> n \<notin> set (names s)
   | Some s' \<Rightarrow> n \<in> set (names s) \<and> names s' = names s \<and> lookup s' = (lookup s)(n \<mapsto> v)"
  by (induction s) (auto simp: lookup_def pairs_def split: option.splits)

lemma lookup_append_new: "n \<notin> set (names s) \<Longrightarrow> lookup (s @ [\<lparr>Name = n, Value = v\<rparr>]) = (lookup s)(n \<mapsto> v)"
  by (induction s) (auto simp: lookup_def pairs_def)

lemma lookup_Set: "lookup (tags_Set s n v) = (lookup s)(n \<mapsto> v)"
  using set_first_cases [of n s v] by (auto simp: tags_Set_def lookup_append_new split: option.splits)

lemma names_Set: "names (tags_Set s n v) = (if n \<in> set (names s) then names s else names s @ [n])"
  using set_first_cases [of n s v] by (auto simp: tags_Set_def split: option.splits)

interpretation tags: overwriting_store lookup tags_Set
  by unfold_locales (rule lookup_Set)

lemma fold_Set_pairs: "fold (\<lambda>t s. tags_Set s (Name t) (Value t)) ts s = fold (\<lambda>(n, v) s. tags_Set s n v) (pairs ts) s"
  by (induction ts arbitrary: s) (simp_all add: pairs_def)

lemma lookup_fold_Set:
  "distinct (names ts) \<Longrightarrow> lookup (fold (\<lambda>t s. tags_Set s (Name t) (Value t)) ts s) = lookup s ++ lookup ts"
  unfolding fold_Set_pairs by (simp add: tags.look_fold_distinct lookup_def [of ts])

lemma distinct_fold_Set:
  "distinct (names s) \<Longrightarrow> distinct (names (fold (\<lambda>t s. tags_Set s (Name t) (Value t)) ts s))"
  by (induction ts arbitrary: s) (simp_all add: names_Set)

lemma merge_one_Set: "merge_one t s = tags_Set s (Name t) (Value t)"
  by (simp add: merge_one_def tags_Set_def)

text \<open>
  Setting a tag and finding it. \<open>Find\<close> after \<open>Set\<close> of a name gives the value that was set, for
  every other name it gives what it gave before, and no name comes to stand in the list twice.
\<close>

theorem find_set:
  "Find (tags_Set s n v) m = (if m = n then v else Find s m)
    \<and> (distinct (names (tags_Set s n v)) \<longleftrightarrow> distinct (names s))"
  by (simp add: Find_lookup lookup_Set names_Set)

text \<open>
  Merging prefers the incoming tags. For an incoming list without a repeated name, the list that
  \<open>Merge\<close> returns has for every name the incoming value if there is one and its own otherwise.
\<close>

theorem merge_overwrites:
  assumes "distinct (names ts)"
  shows "lookup (snd (Merge s (Some ts))) = lookup s ++ lookup ts"
proof -
  have "merge_one = (\<lambda>t s. tags_Set s (Name t) (Value t))" by (intro ext) (rule merge_one_Set)
  with lookup_fold_Set [OF assms, of s] show ?thesis
    by (auto simp: Merge_def Let_def lookup_def pairs_def)
qed

theorem merge_overwrites_witness:
  "lookup (snd (Merge [\<lparr>Name = ''env'', Value = ''dev''\<rparr>, \<lparr>Name = ''dc'', Value = ''a''\<rparr>]
      (Some [\<lparr>Name = ''env'', Value = ''prod''\<rparr>]))) ''env'' = Some ''prod''"
  using merge_overwrites [of "[\<lparr>Name = ''env'', Value = ''prod''\<rparr>]"
      "[\<lparr>Name = ''env'', Value = ''dev''\<rparr>, \<lparr>Name = ''dc'', Value = ''a''\<rparr>]"]
  by (simp add: lookup_def pairs_def)

text \<open>
  \<open>MergeTagLists\<close> loses every tag when both lists have tags: \<open>SetTags\<close> does not change its
  receiver, so the merge starts from an empty list and ends with one.
\<close>

theorem merge_tag_lists_empty:
  assumes "ina \<noteq> []" and "inb \<noteq> []"
  shows "MergeTagLists ina inb = []"
  using assms by (simp add: MergeTagLists_def MergeList_def SetTags_def)

theorem merge_tag_lists_empty_witness:
  "MergeTagLists [\<lparr>Name = ''env'', Value = ''dev''\<rparr>] [\<lparr>Name = ''dc'', Value = ''a''\<rparr>] = []"
  by (rule merge_tag_lists_empty) simp_all

section \<open>Identity tags and meta tags\<close>

lemma fold_sort_tag:
  "fold sort_tag ts (a, b) =
    (fold (\<lambda>t s. tags_Set s (Name t) (Value t)) (filter (\<lambda>t. IsMetric2Tag (Name t)) ts) a,
     fold (\<lambda>t s. tags_Set s (Name t) (Value t)) (filter (\<lambda>t. \<not> IsMetric2Tag (Name t)) ts) b)"
  by (induction ts arbitrary: a b) (auto simp: sort_tag_def)

lemma lookup_filter: "lookup (filter (\<lambda>t. P (Name t)) ts) n = (if P n then lookup ts n else None)"
  by (induction ts) (auto simp: lookup_def pairs_def)

lemma lookup_Nil [simp]: "lookup [] = (\<lambda>_. None)"
  by (simp add: lookup_def pairs_def)

lemma distinct_names_filter: "distinct (names ts) \<Longrightarrow> distinct (names (filter P ts))"
  by (rule distinct_map_filter)

text \<open>
  C12. \<open>SplitIntoMetric2Tags\<close> sorts the tags of two lists without repeated names: the identity tags
  of both come first, everything else second, no tag is lost or made up, and where both lists have
  a name the value of the first list counts.
\<close>

theorem split_into_metric2_tags:
  assumes "distinct (names intag)" and "distinct (names inmeta)"
    and "SplitIntoMetric2Tags intag inmeta = (nTag, nMeta)"
  shows "lookup nTag = (\<lambda>n. if IsMetric2Tag n then (lookup inmeta ++ lookup intag) n else None)
    \<and> lookup nMeta = (\<lambda>n. if IsMetric2Tag n then None else (lookup inmeta ++ lookup intag) n)
    \<and> distinct (names nTag) \<and> distinct (names nMeta)"
proof (cases "inmeta = [] \<and> intag = []")
  case True
  with assms(3) show ?thesis by (auto simp: SplitIntoMetric2Tags_def IsEmpty_def map_add_def)
next
  case False
  let ?set = "fold (\<lambda>t s. tags_Set s (Name t) (Value t))"
  let ?yes = "filter (\<lambda>t. IsMetric2Tag (Name t))" and ?no = "filter (\<lambda>t. \<not> IsMetric2Tag (Name t))"
  have n: "nTag = ?set (?yes intag) (?set (?yes inmeta) [])" "nMeta = ?set (?no intag) (?set (?no inmeta) [])"
    using False assms(3) by (auto simp: SplitIntoMetric2Tags_def IsEmpty_def fold_sort_tag)
  have "lookup (?set (filter P intag) (?set (filter P inmeta) [])) = lookup (filter P inmeta) ++ lookup (filter P intag)"
    for P using assms(1,2) by (simp add: lookup_fold_Set distinct_names_filter)
  then show ?thesis
    unfolding n by (simp add: distinct_fold_Set fun_eq_iff map_add_def lookup_filter
      lookup_filter [where P = "\<lambda>n. \<not> IsMetric2Tag n"] split: option.splits)
qed

theorem split_into_metric2_tags_witness:
  "\<exists>nTag nMeta. SplitIntoMetric2Tags [\<lparr>Name = ''host'', Value = ''a''\<rparr>, \<lparr>Name = ''x'', Value = ''1''\<rparr>]
      [\<lparr>Name = ''host'', Value = ''b''\<rparr>] = (nTag, nMeta)
    \<and> lookup nTag ''host'' = Some ''a'' \<and> lookup nMeta ''host'' = None"
proof -
  let ?i = "[\<lparr>Name = ''host'', Value = ''a''\<rparr>, \<lparr>Name = ''x'', Value = ''1''\<rparr>]"
  let ?m = "[\<lparr>Name = ''host'', Value = ''b''\<rparr>]"
  obtain nTag nMeta where s: "SplitIntoMetric2Tags ?i ?m = (nTag, nMeta)" by fastforce
  have "IsMetric2Tag ''host''" by code_simp
  with split_into_metric2_tags [OF _ _ s] s show ?thesis by (simp add: lookup_def pairs_def)
qed

section \<open>Inclusion\<close>

lemma has_count_distinct: "distinct s \<Longrightarrow> has_count tag s = (if tag \<in> set s then 1 else 0)"
proof (induction s)
  case (Cons t s)
  have "Name tag = Name t \<and> Value tag = Value t \<longleftrightarrow> tag = t" by (auto intro: Tag.equality)
  with Cons show ?case by auto
qed simp

text \<open>
  \<open>HasAllTags\<close> counts pairs of equal tags and compares the count with the number of tags asked
  for. On a list without repetitions this is inclusion: the answer is yes exactly if every tag
  asked for is in the list with its value.
\<close>

theorem has_all_tags:
  assumes "distinct s"
  shows "HasAllTags s tags \<longleftrightarrow> set tags \<subseteq> set s"
proof -
  have le: "sum_list (map (\<lambda>tag. has_count tag s) ts) \<le> length ts" for ts
    by (induction ts) (auto simp: has_count_distinct [OF assms])
  have "sum_list (map (\<lambda>tag. has_count tag s) ts) = length ts \<longleftrightarrow> set ts \<subseteq> set s" for ts
  proof (induction ts)
    case (Cons t ts)
    with le [of ts] show ?case by (auto simp: has_count_distinct [OF assms])
  qed simp
  then show ?thesis by (auto simp: HasAllTags_def)
qed

theorem has_all_tags_witness:
  "HasAllTags [\<lparr>Name = ''a'', Value = ''1''\<rparr>, \<lparr>Name = ''b'', Value = ''2''\<rparr>] [\<lparr>Name = ''b'', Value = ''2''\<rparr>]"
  using has_all_tags [of "[\<lparr>Name = ''a'', Value = ''1''\<rparr>, \<lparr>Name = ''b'', Value = ''2''\<rparr>]"
      "[\<lparr>Name = ''b'', Value = ''2''\<rparr>]"] by simp

section \<open>String forms\<close>

lemma write_tags_Join:
  "l = idx + length s \<Longrightarrow> write_tags w t l idx s buf = buf @ Join (map (\<lambda>tag. tag_Join tag w) s) t"
proof (induction s arbitrary: idx buf)
  case (Cons tag s)
  have "write_tags w t l (Suc idx) s b = b @ Join (map (\<lambda>tag. tag_Join tag w) s) t" for b
    by (rule Cons.IH) (use Cons.prems in simp)
  with Cons.prems show ?case by (cases "s = []") (auto simp: tag_Join_def Join_Cons)
qed simp

text \<open>
  The streaming writer and the string builder agree: \<open>WriteBytes\<close> appends to the buffer exactly
  the string that \<open>ToStringSep\<close> builds, for every pair of separators.
\<close>

theorem write_bytes_is_string: "tags_WriteBytes s w t buf = buf @ ToStringSep s w t"
  by (simp add: tags_WriteBytes_def ToStringSep_def write_tags_Join)

definition plain :: "string \<Rightarrow> bool" where
  "plain s \<longleftrightarrow> set s \<inter> {CHR ''='', CHR '' '', CHR '','', CHR ''.''} = {}"

lemma tag_of_string_Join:
  assumes "plain (Name t)" and "plain (Value t)"
  shows "tag_of_string (tag_Join t ''='') = Some t"
proof -
  have "Split (Join [Name t, Value t] ''='') ''='' = [Name t, Value t]"
    using assms by (intro Split_Join) (auto simp: plain_def)
  then show ?thesis by (simp add: tag_of_string_def EQUAL_SEPARATOR_def tag_Join_def)
qed

lemma SortingTagsFromArray_map:
  "\<forall>t\<in>set s. plain (Name t) \<and> plain (Value t) \<Longrightarrow>
    SortingTagsFromArray (map (\<lambda>t. tag_Join t ''='') s) = s"
  by (induction s) (auto simp: tag_of_string_Join)

lemma set_Join: "set (Join ps sep) \<subseteq> (\<Union>p\<in>set ps. set p) \<union> set sep"
  by (induction ps sep rule: Join.induct) auto

lemma Contains_char: "Contains s [c] \<longleftrightarrow> c \<in> set s"
  by (induction s) auto

text \<open>
  C13. Tags survive printing and parsing: for tags whose names and values have no equal sign, space,
  comma or dot, parsing the printed list with \<open>SortingTagsFromString\<close> gives the list back.
\<close>

theorem tags_round_trip:
  assumes "\<forall>t\<in>set s. plain (Name t) \<and> plain (Value t)"
  shows "SortingTagsFromString (tags_String s) = s"
proof (cases "s = []")
  case True
  moreover have "SortingTagsFromString (tags_String []) = []" by code_simp
  ultimately show ?thesis by simp
next
  case False
  let ?ps = "map (\<lambda>t. tag_Join t ''='') s"
  have str: "tags_String s = Join ?ps '' ''"
    by (simp add: tags_String_def BaseString_def ToStringSep_def EQUAL_SEPARATOR_def SPACE_SEPARATOR_def)
  have chars: "set (tag_Join t ''='') \<inter> {CHR '' '', CHR '','', CHR ''.''} = {}" if "t \<in> set s" for t
    using assms that by (auto simp: plain_def tag_Join_def)
  have "CHR '','' \<notin> set (Join ?ps '' '')" "CHR ''.'' \<notin> set (Join ?ps '' '')"
    using set_Join [of ?ps "'' ''"] chars by auto
  moreover have "Split (Join ?ps '' '') '' '' = ?ps"
    using False chars by (intro Split_Join) auto
  ultimately show ?thesis
    using SortingTagsFromArray_map [OF assms]
    by (simp add: str SortingTagsFromString_def COMMA_SEPARATOR_def DOT_SEPARATOR_def SPACE_SEPARATOR_def
        Contains_char)
qed

theorem tags_round_trip_witness:
  "SortingTagsFromString (tags_String [\<lparr>Name = ''host'', Value = ''a-1''\<rparr>, \<lparr>Name = ''dc'', Value = ''x''\<rparr>]) =
    [\<lparr>Name = ''host'', Value = ''a-1''\<rparr>, \<lparr>Name = ''dc'', Value = ''x''\<rparr>]"
  by (rule tags_round_trip) (simp add: plain_def)

text \<open>
  \<open>Metric2FromMap\<close> panics on every map that is not empty: its two lists start as nil pointers,
  and the first \<open>Set\<close> goes through one of them.
\<close>

theorem metric2_from_map_panics:
  assumes "intag \<noteq> []"
  shows "Metric2FromMap intag = None"
  using assms by (cases intag) (auto simp: Metric2FromMap_def ptr_Set_def)

theorem metric2_from_map_panics_witness: "Metric2FromMap [(''host'', ''a'')] = None"
  by (rule metric2_from_map_panics) simp

end
