(* ===== verification/Go_Strconv.thy ===== *)
theory Go_Strconv
  imports Go_Prelude
begin

text \<open>
  Numbers as strings, as the Go package \<^verbatim>\<open>strconv\<close> has them: \<open>FormatUint\<close> and \<open>ParseUint\<close> in a
  base from 2 to 36 and \<open>FormatInt\<close> in base 10 (the verb \<^verbatim>\<open>%d\<close>), and ASCII lower case.
\<close>

text \<open>The digits \<open>0\<close> to \<open>9\<close>, then the letters from \<open>a\<close>.\<close>

definition digit_char :: "nat \<Rightarrow> char" where
  "digit_char d = char_of (if d < 10 then 48 + d else 87 + d)"

text \<open>The value of a digit; upper case letters count as lower case ones.\<close>

definition digit_val :: "char \<Rightarrow> nat option" where
  "digit_val c =
     (let n = (of_char c :: nat) in
      if 48 \<le> n \<and> n \<le> 57 then Some (n - 48)
      else if 97 \<le> n \<and> n \<le> 122 then Some (n - 87)
      else if 65 \<le> n \<and> n \<le> 90 then Some (n - 55)
      else None)"

function digits_of :: "nat \<Rightarrow> nat \<Rightarrow> string" where
  "digits_of b n =
     (if b < 2 then [] else if n < b then [digit_char n] else digits_of b (n div b) @ [digit_char (n mod b)])"
  by pat_completeness auto
termination
  by (relation "measure snd") auto

declare digits_of.simps [simp del]

definition FormatUint :: "u64 \<Rightarrow> nat \<Rightarrow> string" where
  "FormatUint n b = digits_of b (unat n)"

definition FormatInt :: "int \<Rightarrow> string" where
  "FormatInt n = (if n < 0 then CHR ''-'' # digits_of 10 (nat (- n)) else digits_of 10 (nat n))"

fun parse_digits :: "nat \<Rightarrow> nat \<Rightarrow> string \<Rightarrow> nat option" where
  "parse_digits b acc [] = Some acc"
| "parse_digits b acc (c # s) =
     (case digit_val c of
        None \<Rightarrow> None
      | Some d \<Rightarrow> if b \<le> d then None else if 2 ^ 64 \<le> acc * b + d then None
          else parse_digits b (acc * b + d) s)"

definition ParseUint :: "string \<Rightarrow> nat \<Rightarrow> u64 option" where
  "ParseUint s b = (if s = [] then None else map_option of_nat (parse_digits b 0 s))"

text \<open>Only ASCII letters change case here; Go also maps the other letters of Unicode.\<close>

definition ToLower :: "string \<Rightarrow> string" where
  "ToLower s = map (\<lambda>c. let n = (of_char c :: nat) in
     if 65 \<le> n \<and> n \<le> 90 then char_of (n + 32) else c) s"

lemma digit_char_val: "d < 36 \<Longrightarrow> digit_val (digit_char d) = Some d"
  by (simp add: digit_char_def digit_val_def Let_def)

lemma digits_of_not_Nil [simp]: "2 \<le> b \<Longrightarrow> digits_of b n \<noteq> []"
  by (subst digits_of.simps) simp

lemma parse_digits_append:
  "parse_digits b acc (s @ t) = Option.bind (parse_digits b acc s) (\<lambda>m. parse_digits b m t)"
  by (induction b acc s rule: parse_digits.induct) (auto split: option.split)

lemma parse_digits_of:
  "2 \<le> b \<Longrightarrow> b \<le> 36 \<Longrightarrow> n < 2 ^ 64 \<Longrightarrow> parse_digits b 0 (digits_of b n) = Some n"
proof (induction b n rule: digits_of.induct)
  case (1 b n)
  show ?case
  proof (cases "n < b")
    case True
    with 1 show ?thesis by (subst digits_of.simps) (simp add: digit_char_val)
  next
    case False
    have "n div b < 2 ^ 64" using 1 by (meson div_le_dividend le_less_trans)
    with False 1 have "parse_digits b 0 (digits_of b (n div b)) = Some (n div b)" by simp
    moreover have "n mod b < b" using 1 by simp
    moreover have "digit_val (digit_char (n mod b)) = Some (n mod b)"
      using \<open>n mod b < b\<close> "1.prems"(2) by (intro digit_char_val) linarith
    ultimately show ?thesis
      using False 1 by (subst digits_of.simps) (simp add: parse_digits_append div_mult_mod_eq not_le)
  qed
qed

lemma ParseUint_FormatUint: "2 \<le> b \<Longrightarrow> b \<le> 36 \<Longrightarrow> ParseUint (FormatUint n b) b = Some n"
  using unsigned_less [where ?'a = nat and w = n] by (simp add: ParseUint_def FormatUint_def parse_digits_of)

lemma digits_of_inject: "2 \<le> b \<Longrightarrow> b \<le> 36 \<Longrightarrow> m < 2 ^ 64 \<Longrightarrow> n < 2 ^ 64 \<Longrightarrow> digits_of b m = digits_of b n \<longleftrightarrow> m = n"
  using parse_digits_of by (metis option.inject)

lemma digits_of_no_minus: "2 \<le> b \<Longrightarrow> b \<le> 36 \<Longrightarrow> CHR ''-'' \<notin> set (digits_of b n)"
proof (induction b n rule: digits_of.induct)
  case (1 b n)
  have "digit_char d \<noteq> CHR ''-''" if "d < 36" for d
    using digit_char_val [OF that] by (auto simp: digit_val_def)
  moreover have "n mod b < 36" "n < b \<Longrightarrow> n < 36"
    using 1 by (auto intro: less_le_trans [OF mod_less_divisor])
  ultimately show ?case using 1 by (subst digits_of.simps) (auto simp: eq_commute [of "CHR ''-''"])
qed

lemma FormatInt_inject:
  "\<bar>m\<bar> < 2 ^ 64 \<Longrightarrow> \<bar>n\<bar> < 2 ^ 64 \<Longrightarrow> FormatInt m = FormatInt n \<longleftrightarrow> m = n"
  using digits_of_no_minus [of 10]
  by (auto simp: FormatInt_def digits_of_inject nat_less_iff) (metis list.set_intros(1))+

end
