(* ===== verification/Repr.thy ===== *)
theory Repr
  imports Tags Float64 Go_Strconv
begin

text \<open>
  Metric names and aggregated stats: \<^verbatim>\<open>server/schemas/repr/repr.go\<close> with the structures of
  \<^verbatim>\<open>repr.proto\<close>. A nil name of a stat is \<^const>\<open>None\<close>, and so is the result of a method that
  goes through it. Methods that sort the tags of a name in place or keep a computed id give the
  changed name with their result. The farm hash, a third-party function, is a parameter; the FNV-1a
  hash of the standard library is written out. A time is an instant in nanoseconds since 1970.
\<close>

section \<open>Floats in results\<close>

definition min_int64_float :: f64 where
  "min_int64_float = 0xC3E0000000000000"

definition CheckFloat :: "f64 \<Rightarrow> f64" where
  "CheckFloat fl = (if IsNaN fl \<or> IsInf fl \<or> f64_eq fl min_int64_float then 0 else fl)"

section \<open>Names\<close>

datatype TagMode = TAG_METRICS2 | TAG_ALLTAGS

datatype HashMode = HASH_FNV | HASH_FARM

record StatName =
  Key :: string
  XXX_uniqueId :: u64
  XXX_uniqueIdstr :: string
  nm_Resolution :: u32
  Ttl :: u32
  nm_TagMode :: TagMode
  nm_HashMode :: HashMode
  nm_Tags :: SortingTags
  MetaTags :: SortingTags

definition SetTagMode :: "string \<Rightarrow> StatName \<Rightarrow> StatName" where
  "SetTagMode mode s =
     (let newM = (if mode = ''all'' then TAG_ALLTAGS else TAG_METRICS2) in
      if nm_TagMode s \<noteq> newM
      then s\<lparr>XXX_uniqueId := 0, XXX_uniqueIdstr := '''', nm_TagMode := newM\<rparr> else s)"

definition SetHashMode :: "string \<Rightarrow> StatName \<Rightarrow> StatName" where
  "SetHashMode mode s =
     (let newM = (if mode = ''farm'' then HASH_FARM else HASH_FNV) in
      if nm_HashMode s \<noteq> newM
      then s\<lparr>XXX_uniqueId := 0, XXX_uniqueIdstr := '''', nm_HashMode := newM\<rparr> else s)"

definition SetKey :: "string \<Rightarrow> StatName \<Rightarrow> StatName" where
  "SetKey name s =
     (let s1 = (if name \<noteq> Key s then s\<lparr>XXX_uniqueId := 0, XXX_uniqueIdstr := ''''\<rparr> else s)
      in s1\<lparr>Key := name\<rparr>)"

definition SetUid :: "u64 \<Rightarrow> StatName \<Rightarrow> StatName" where
  "SetUid uid s = s\<lparr>XXX_uniqueId := uid, XXX_uniqueIdstr := ''''\<rparr>"

definition StringToUniqueId :: "string \<Rightarrow> u64" where
  "StringToUniqueId inid = (case ParseUint inid 36 of None \<Rightarrow> 0 | Some t \<Rightarrow> t)"

definition SetUidString :: "string \<Rightarrow> StatName \<Rightarrow> StatName" where
  "SetUidString uid s = s\<lparr>XXX_uniqueId := StringToUniqueId uid, XXX_uniqueIdstr := uid\<rparr>"

text \<open>
  The copy holds the same tag objects as the original. Tags are values here, so a later change of a
  tag in place through one of the two names does not show in the other one.
\<close>

definition name_Copy :: "StatName \<Rightarrow> StatName" where
  "name_Copy s = \<lparr>Key = Key s, XXX_uniqueId = XXX_uniqueId s, XXX_uniqueIdstr = XXX_uniqueIdstr s,
     nm_Resolution = nm_Resolution s, Ttl = Ttl s, nm_TagMode = nm_TagMode s,
     nm_HashMode = nm_HashMode s, nm_Tags = nm_Tags s, MetaTags = MetaTags s\<rparr>"

definition fnv64a :: "string \<Rightarrow> u64" where
  "fnv64a data = fold (\<lambda>c h. (h XOR of_char c) * 1099511628211) data 14695981039346656037"

definition hashIt :: "(string \<Rightarrow> u64) \<Rightarrow> string \<Rightarrow> StatName \<Rightarrow> u64" where
  "hashIt farm data s = (case nm_HashMode s of HASH_FNV \<Rightarrow> fnv64a data | HASH_FARM \<Rightarrow> farm data)"

text \<open>
  \<open>sort.Sort\<close> orders by name and is not stable; the stable sort here gives one of the orders it may
  give, the only one when the names of the tags differ.
\<close>

definition SortedTags :: "StatName \<Rightarrow> StatName" where
  "SortedTags s = (if length (nm_Tags s) > 0 then s\<lparr>nm_Tags := sort_key Name (nm_Tags s)\<rparr> else s)"

definition SortedMetaTags :: "StatName \<Rightarrow> StatName" where
  "SortedMetaTags s = (if length (MetaTags s) > 0 then s\<lparr>MetaTags := sort_key Name (MetaTags s)\<rparr> else s)"

definition UniqueIdAllTagsString :: "StatName \<Rightarrow> string \<times> StatName" where
  "UniqueIdAllTagsString s =
     (let s1 = SortedMetaTags (SortedTags s) in
      (Key s @ '':'' @ BaseString (nm_Tags s1) @ '':'' @ BaseString (MetaTags s1), s1))"

definition UniqueId :: "(string \<Rightarrow> u64) \<Rightarrow> StatName \<Rightarrow> u64 \<times> StatName" where
  "UniqueId farm s =
     (if XXX_uniqueId s > 0 then (XXX_uniqueId s, s)
      else
        let (str, s1) = (if nm_TagMode s = TAG_ALLTAGS \<and> length (MetaTags s) > 0
              then UniqueIdAllTagsString s
              else let s1 = SortedTags s in (Key s @ '':'' @ BaseString (nm_Tags s1), s1));
            uid = hashIt farm str s
        in (uid, s1\<lparr>XXX_uniqueId := uid\<rparr>))"

definition UniqueIdAllTags :: "(string \<Rightarrow> u64) \<Rightarrow> StatName \<Rightarrow> u64 \<times> StatName" where
  "UniqueIdAllTags farm s = (case UniqueIdAllTagsString s of (str, s1) \<Rightarrow> (hashIt farm str s, s1))"

definition UniqueIdString :: "(string \<Rightarrow> u64) \<Rightarrow> StatName \<Rightarrow> string \<times> StatName" where
  "UniqueIdString farm s =
     (if XXX_uniqueIdstr s = '''' then
        (case UniqueId farm s of (uid, s1) \<Rightarrow>
           let str = FormatUint uid 36 in (str, s1\<lparr>XXX_uniqueIdstr := str\<rparr>))
      else (XXX_uniqueIdstr s, s))"

fun merge_tags_loop :: "SortingTags \<Rightarrow> SortingTags \<Rightarrow> SortingTags" where
  "merge_tags_loop [] own = own"
| "merge_tags_loop (tag # tags) own =
     merge_tags_loop tags
       (if list_ex (\<lambda>oTag. Name tag = Name oTag) own
        then own @ [\<lparr>Name = Name tag, Value = Value tag\<rparr>]
        else own @ [\<lparr>Name = Name tag, Value = Value tag\<rparr>])"

definition name_MergeTags :: "SortingTags \<Rightarrow> StatName \<Rightarrow> SortingTags \<times> StatName" where
  "name_MergeTags tags s = (let t = merge_tags_loop tags (nm_Tags s) in (t, s\<lparr>nm_Tags := t\<rparr>))"

definition name_ByteSize :: "StatName \<Rightarrow> int \<times> StatName" where
  "name_ByteSize s = (let s1 = SortedTags s in (int (length (Key s @ tags_String (nm_Tags s1))), s1))"

definition IsBlank :: "StatName \<Rightarrow> bool" where
  "IsBlank s \<longleftrightarrow> length (Key s) = 0"

definition name_Name :: "StatName \<Rightarrow> string \<times> StatName" where
  "name_Name s = (let s1 = SortedTags s in
     (Join (Key s # map (\<lambda>tg. tag_Join tg EQUAL_SEPARATOR) (nm_Tags s1)) ''.'', s1))"

text \<open>
  The merge of new tags. In the mode of all tags the list that \<open>Merge\<close> leaves in its receiver
  counts, not the one it returns; otherwise the tags and the meta tags change in place and the
  result of \<open>SplitIntoMetric2Tags\<close> is dropped.
\<close>

definition name_MergeMetric2Tags :: "SortingTags option \<Rightarrow> StatName \<Rightarrow> StatName" where
  "name_MergeMetric2Tags itgs s =
     (case itgs of
        None \<Rightarrow> s
      | Some tgs \<Rightarrow>
          (let s1 = (case nm_TagMode s of
                TAG_ALLTAGS \<Rightarrow> s\<lparr>nm_Tags := fst (Merge (nm_Tags s) (Some tgs)), MetaTags := []\<rparr>
              | TAG_METRICS2 \<Rightarrow>
                  (case MergeMetric2Tags tgs (nm_Tags s) (MetaTags s) of
                     (t, mt) \<Rightarrow> s\<lparr>nm_Tags := t, MetaTags := mt\<rparr>))
           in s1\<lparr>XXX_uniqueId := 0, XXX_uniqueIdstr := ''''\<rparr>))"

section \<open>Stats\<close>

record StatRepr =
  sr_Name :: "StatName option"
  sr_Time :: i64
  sr_Min :: f64
  sr_Max :: f64
  sr_Last :: f64
  sr_Sum :: f64
  sr_Count :: i64

definition NullStatRepr :: StatRepr where
  "NullStatRepr = \<lparr>sr_Name = None, sr_Time = 0, sr_Min = NaN, sr_Max = NaN, sr_Last = NaN,
     sr_Sum = NaN, sr_Count = 0\<rparr>"

definition ZeroStatRepr :: StatRepr where
  "ZeroStatRepr = \<lparr>sr_Name = None, sr_Time = 0, sr_Min = 0, sr_Max = 0, sr_Last = 0,
     sr_Sum = 0, sr_Count = 0\<rparr>"

definition ToTime :: "StatRepr \<Rightarrow> int" where
  "ToTime s = (if sint (sr_Time s) > 2147483647 then sint (sr_Time s) else sint (sr_Time s) * nanos)"

definition ToUnix :: "StatRepr \<Rightarrow> u32" where
  "ToUnix s = (if sint (sr_Time s) > 2147483647 then word_of_int (unix_sec (sr_Time s))
     else word_of_int (sint (sr_Time s)))"

definition stat_UniqueId :: "(string \<Rightarrow> u64) \<Rightarrow> StatRepr \<Rightarrow> (u64 \<times> StatRepr) option" where
  "stat_UniqueId farm s = do {
     nm \<leftarrow> sr_Name s;
     let nm1 = SortedTags nm;
     let str = Key nm @ '':'' @ FormatInt (uint (nm_Resolution nm)) @ '':'' @ tags_String (nm_Tags nm1);
     Some (hashIt farm str nm, s\<lparr>sr_Name := Some nm1\<rparr>) }"

definition stat_ByteSize :: "StatRepr option \<Rightarrow> (int \<times> StatRepr option) option" where
  "stat_ByteSize st = (case st of
     None \<Rightarrow> Some (0, None)
   | Some s \<Rightarrow> do {
       nm \<leftarrow> sr_Name s;
       let (n, nm1) = name_ByteSize nm;
       Some (n + 8 * 64, Some (s\<lparr>sr_Name := Some nm1\<rparr>)) })"

definition stat_Copy :: "StatRepr \<Rightarrow> StatRepr" where
  "stat_Copy s = \<lparr>sr_Name = map_option name_Copy (sr_Name s), sr_Time = sr_Time s, sr_Min = sr_Min s,
     sr_Max = sr_Max s, sr_Last = sr_Last s, sr_Sum = sr_Sum s, sr_Count = sr_Count s\<rparr>"

definition agg_MEAN :: u32 where "agg_MEAN = 1"
definition agg_SUM :: u32 where "agg_SUM = 2"
definition agg_FIRST :: u32 where "agg_FIRST = 3"
definition agg_LAST :: u32 where "agg_LAST = 4"
definition agg_MIN :: u32 where "agg_MIN = 5"
definition agg_MAX :: u32 where "agg_MAX = 6"
definition agg_STD :: u32 where "agg_STD = 7"
definition agg_MEDIAN :: u32 where "agg_MEDIAN = 8"
definition agg_COUNT :: u32 where "agg_COUNT = 9"

definition AggValue :: "u32 \<Rightarrow> StatRepr \<Rightarrow> f64" where
  "AggValue aggfunc s =
     (if aggfunc = agg_SUM then sr_Sum s
      else if aggfunc = agg_MIN then sr_Min s
      else if aggfunc = agg_MAX then sr_Max s
      else if aggfunc = agg_LAST then sr_Last s
      else if sint (sr_Count s) > 0 then f64_div (sr_Sum s) (f64_of_i64 (sr_Count s))
      else NaN)"

definition absorb :: "StatRepr \<Rightarrow> StatRepr \<Rightarrow> StatRepr" where
  "absorb out stat =
     (let o1 = (if f64_lt (sr_Min stat) (sr_Min out) then out\<lparr>sr_Min := sr_Min stat\<rparr> else out);
          o2 = (if f64_lt (sr_Max o1) (sr_Max stat) then o1\<lparr>sr_Max := sr_Max stat\<rparr> else o1)
      in o2\<lparr>sr_Count := sr_Count o2 + sr_Count stat, sr_Sum := f64_add (sr_Sum o2) (sr_Sum stat)\<rparr>)"

definition stat_Merge :: "StatRepr \<Rightarrow> StatRepr \<Rightarrow> StatRepr" where
  "stat_Merge s stat =
     (if sint (sr_Time stat) < sint (sr_Time s) then absorb (stat_Copy s) stat
      else absorb (stat_Copy stat) s)"

definition MergeInPlace :: "StatRepr \<Rightarrow> StatRepr \<Rightarrow> StatRepr" where
  "MergeInPlace s stat =
     (let s1 = (if f64_lt (sr_Min stat) (sr_Min s) \<and> \<not> IsNaN (sr_Min stat)
                then s\<lparr>sr_Min := sr_Min stat\<rparr> else s);
          s2 = (if f64_lt (sr_Max s1) (sr_Max stat) \<and> \<not> IsNaN (sr_Max stat)
                then s1\<lparr>sr_Max := sr_Max stat\<rparr> else s1);
          s3 = s2\<lparr>sr_Count := sr_Count s2 + sr_Count stat\<rparr>
      in if \<not> IsNaN (sr_Sum stat) then s3\<lparr>sr_Sum := f64_add (sr_Sum s3) (sr_Sum stat)\<rparr> else s3)"

definition stat_SetKey :: "string \<Rightarrow> StatRepr \<Rightarrow> StatRepr option" where
  "stat_SetKey name s = do { nm \<leftarrow> sr_Name s; Some (s\<lparr>sr_Name := Some (SetKey name nm)\<rparr>) }"

definition UniqueKey :: "(string \<Rightarrow> u64) \<Rightarrow> StatRepr \<Rightarrow> (string \<times> StatRepr) option" where
  "UniqueKey farm s = do {
     nm \<leftarrow> sr_Name s;
     let (uid, nm1) = UniqueId farm nm;
     Some (FormatUint uid 10 @ '':'' @ FormatInt (sint (sr_Time s)), s\<lparr>sr_Name := Some nm1\<rparr>) }"

definition IsSameStat :: "(string \<Rightarrow> u64) \<Rightarrow> StatRepr \<Rightarrow> StatRepr \<Rightarrow> (bool \<times> StatRepr \<times> StatRepr) option" where
  "IsSameStat farm s stat = do {
     nm \<leftarrow> sr_Name s;
     let (uid, nm1) = UniqueId farm nm;
     nm' \<leftarrow> sr_Name stat;
     let (uid', nm1') = UniqueId farm nm';
     Some (uid = uid' \<and> sr_Time s = sr_Time stat, s\<lparr>sr_Name := Some nm1\<rparr>, stat\<lparr>sr_Name := Some nm1'\<rparr>) }"

text \<open>The list is given back with the names whose ids were computed on the way.\<close>

fun ContainsSelf :: "(string \<Rightarrow> u64) \<Rightarrow> StatRepr \<Rightarrow> StatRepr list \<Rightarrow>
    (bool \<times> StatRepr \<times> StatRepr list) option" where
  "ContainsSelf farm s [] = Some (False, s, [])"
| "ContainsSelf farm s (s2 # stats) = do {
     (same, s, s2) \<leftarrow> IsSameStat farm s s2;
     if same then Some (True, s, s2 # stats)
     else do {
       (r, s, stats) \<leftarrow> ContainsSelf farm s stats;
       Some (r, s, s2 # stats) } }"

section \<open>Lists of stats\<close>

text \<open>A slice of stats ordered by time; a nil stat is not less than anything.\<close>

definition slice_Less :: "StatRepr option list \<Rightarrow> nat \<Rightarrow> nat \<Rightarrow> bool" where
  "slice_Less p i j = (case (p ! i, p ! j) of
     (Some a, Some b) \<Rightarrow> sint (sr_Time a) < sint (sr_Time b) | _ \<Rightarrow> False)"

definition slice_Swap :: "'a list \<Rightarrow> nat \<Rightarrow> nat \<Rightarrow> 'a list" where
  "slice_Swap p i j = p[i := p ! j, j := p ! i]"

definition zero_time :: int where
  "zero_time = - 62135596800 * nanos"

definition Second :: "int \<Rightarrow> int" where
  "Second t = (t div nanos) mod 60"

record ReprList =
  MinTime :: int
  MaxTime :: int
  Reprs :: "StatRepr list"

definition new_ReprList :: ReprList where
  "new_ReprList = \<lparr>MinTime = zero_time, MaxTime = zero_time, Reprs = []\<rparr>"

definition list_Add :: "StatRepr \<Rightarrow> ReprList \<Rightarrow> StatRepr \<times> ReprList" where
  "list_Add stat s =
     (let s1 = s\<lparr>Reprs := Reprs s @ [stat]\<rparr>;
          toT = ToTime stat;
          s2 = (if Second toT > Second (MaxTime s1) then s1\<lparr>MaxTime := toT\<rparr> else s1)
      in (stat, if Second (MinTime s2) = 0 then s2\<lparr>MinTime := toT\<rparr> else s2))"

definition list_Len :: "ReprList \<Rightarrow> int" where
  "list_Len s = int (length (Reprs s))"

end
