(* ===== verification/Repr_Laws.thy ===== *)
theory Repr_Laws
  imports Repr Tag_Laws "HOL-Library.Multiset"
begin

text \<open>
  The laws of names and stats: the id a name keeps is always the one of its current key, tags and
  modes, it does not depend on the order of the tags, and its printed form reads back; the merge of
  a series of stats is the aggregate of their values.
\<close>

section \<open>The id of a name\<close>

text \<open>The id computed anew, from the sorted tags, whatever id the name keeps.\<close>

definition id_string :: "StatName \<Rightarrow> string" where
  "id_string s = Key s @ CHR '':'' # BaseString (sort_key Name (nm_Tags s)) @
     (if nm_TagMode s = TAG_ALLTAGS \<and> MetaTags s \<noteq> []
      then CHR '':'' # BaseString (sort_key Name (MetaTags s)) else [])"

definition fresh_id :: "(string \<Rightarrow> u64) \<Rightarrow> StatName \<Rightarrow> u64" where
  "fresh_id farm s = hashIt farm (id_string s) s"

definition id_ok :: "(string \<Rightarrow> u64) \<Rightarrow> StatName \<Rightarrow> bool" where
  "id_ok farm s \<longleftrightarrow> XXX_uniqueId s \<in> {0, fresh_id farm s} \<and>
     XXX_uniqueIdstr s \<in> {'''', FormatUint (fresh_id farm s) 36}"

lemma sort_key_idem [simp]: "sort_key f (sort_key f xs) = sort_key f xs"
  by (simp add: sort_key_id_if_sorted)

lemma sort_key_Nil [simp]: "sort_key f xs = [] \<longleftrightarrow> xs = []"
  by (metis length_0_conv length_sort)

lemma SortedTags_eq: "SortedTags s = s\<lparr>nm_Tags := sort_key Name (nm_Tags s)\<rparr>"
  by (cases s) (auto simp: SortedTags_def)

lemma SortedMetaTags_eq: "SortedMetaTags s = s\<lparr>MetaTags := sort_key Name (MetaTags s)\<rparr>"
  by (cases s) (auto simp: SortedMetaTags_def)

lemma fresh_id_cong:
  assumes "Key s = Key t" "sort_key Name (nm_Tags s) = sort_key Name (nm_Tags t)"
    "sort_key Name (MetaTags s) = sort_key Name (MetaTags t)" "nm_TagMode s = nm_TagMode t"
    "nm_HashMode s = nm_HashMode t"
  shows "fresh_id farm s = fresh_id farm t"
proof -
  have "MetaTags s = [] \<longleftrightarrow> MetaTags t = []"
    using assms(3) by (metis sort_key_Nil)
  then have "id_string s = id_string t"
    using assms by (simp add: id_string_def)
  then show ?thesis using assms(5) by (simp add: fresh_id_def hashIt_def)
qed

definition sorted_name :: "StatName \<Rightarrow> StatName" where
  "sorted_name s = (if nm_TagMode s = TAG_ALLTAGS \<and> MetaTags s \<noteq> []
     then SortedMetaTags (SortedTags s) else SortedTags s)"

lemma UniqueId_eq:
  "UniqueId farm s =
     (if XXX_uniqueId s = 0 then (fresh_id farm s, (sorted_name s)\<lparr>XXX_uniqueId := fresh_id farm s\<rparr>)
      else (XXX_uniqueId s, s))"
  by (simp add: UniqueId_def UniqueIdAllTagsString_def SortedTags_eq SortedMetaTags_eq Let_def
      sorted_name_def word_gt_0 fresh_id_def id_string_def)

lemma sorted_name_fields [simp]:
  "XXX_uniqueId (sorted_name s) = XXX_uniqueId s" "XXX_uniqueIdstr (sorted_name s) = XXX_uniqueIdstr s"
  by (simp_all add: sorted_name_def SortedTags_eq SortedMetaTags_eq)

lemma fresh_id_sorted_name [simp]: "fresh_id farm (sorted_name s) = fresh_id farm s"
  by (rule fresh_id_cong) (simp_all add: sorted_name_def SortedTags_eq SortedMetaTags_eq)

lemma fresh_id_set_ids [simp]:
  "fresh_id farm (s\<lparr>XXX_uniqueId := u\<rparr>) = fresh_id farm s"
  "fresh_id farm (s\<lparr>XXX_uniqueIdstr := w\<rparr>) = fresh_id farm s"
  by (rule fresh_id_cong; simp)+

section \<open>Life of a name\<close>

text \<open>The name holds no id, neither as a number nor as a string.\<close>

definition blank_id :: "StatName \<Rightarrow> bool" where
  "blank_id s \<longleftrightarrow> XXX_uniqueId s = 0 \<and> XXX_uniqueIdstr s = ''''"

text \<open>The calls that keep the id of a name in step with its key, modes and tags.\<close>

inductive name_call :: "(string \<Rightarrow> u64) \<Rightarrow> StatName \<Rightarrow> StatName \<Rightarrow> bool" for farm where
  set_key: "name_call farm s (SetKey k s)"
| set_tag_mode: "name_call farm s (SetTagMode mode s)"
| set_hash_mode: "name_call farm s (SetHashMode mode s)"
| merge_tags: "name_call farm s (name_MergeMetric2Tags tgs s)"
| sort_tags: "name_call farm s (SortedTags s)"
| sort_meta_tags: "name_call farm s (SortedMetaTags s)"
| copy: "name_call farm s (name_Copy s)"
| byte_size: "name_call farm s (snd (name_ByteSize s))"
| joined_name: "name_call farm s (snd (name_Name s))"
| unique_id: "name_call farm s (snd (UniqueId farm s))"
| unique_id_string: "name_call farm s (snd (UniqueIdString farm s))"
| unique_id_all: "name_call farm s (snd (UniqueIdAllTags farm s))"
| unique_id_all_string: "name_call farm s (snd (UniqueIdAllTagsString s))"

inductive_cases name_callE: "name_call farm s t"

text \<open>The calls that do not: two set an id of the caller's choice, one changes the tags only.\<close>

inductive name_force :: "StatName \<Rightarrow> StatName \<Rightarrow> bool" where
  set_uid: "name_force s (SetUid uid s)"
| set_uid_string: "name_force s (SetUidString uidstr s)"
| append_tags: "name_force s (snd (name_MergeTags tgs s))"

text \<open>
  Any call on a name. The flag says whether the name holds an id that a call of the second kind
  may have made wrong; it falls when a call leaves the name without an id.
\<close>

inductive name_step :: "(string \<Rightarrow> u64) \<Rightarrow> bool \<times> StatName \<Rightarrow> bool \<times> StatName \<Rightarrow> bool" for farm where
  called: "name_call farm s t \<Longrightarrow> name_step farm (forced, s) (forced \<and> \<not> blank_id t, t)"
| forcing: "name_force s t \<Longrightarrow> name_step farm (forced, s) (\<not> blank_id t, t)"

inductive_cases name_stepE: "name_step farm x y"

lemma id_ok_blank: "XXX_uniqueId s = 0 \<Longrightarrow> XXX_uniqueIdstr s = '''' \<Longrightarrow> id_ok farm s"
  by (simp add: id_ok_def)

lemma id_ok_blank_id: "blank_id s \<Longrightarrow> id_ok farm s"
  by (simp add: blank_id_def id_ok_blank)

lemma id_ok_keep:
  "\<lbrakk>id_ok farm s; fresh_id farm t = fresh_id farm s; XXX_uniqueId t = XXX_uniqueId s;
    XXX_uniqueIdstr t = XXX_uniqueIdstr s\<rbrakk> \<Longrightarrow> id_ok farm t"
  by (simp add: id_ok_def)

lemma fst_UniqueId: "id_ok farm s \<Longrightarrow> fst (UniqueId farm s) = fresh_id farm s"
  by (auto simp: id_ok_def UniqueId_eq)

lemma fst_UniqueIdString: "id_ok farm s \<Longrightarrow> fst (UniqueIdString farm s) = FormatUint (fresh_id farm s) 36"
  by (auto simp: id_ok_def UniqueIdString_def UniqueId_eq Let_def)

lemma id_ok_SortedTags: "id_ok farm s \<Longrightarrow> id_ok farm (SortedTags s)"
  by (erule id_ok_keep) (simp_all add: SortedTags_eq fresh_id_def id_string_def hashIt_def cong: if_cong)

lemma id_ok_SortedMetaTags: "id_ok farm s \<Longrightarrow> id_ok farm (SortedMetaTags s)"
  by (erule id_ok_keep) (simp_all add: SortedMetaTags_eq fresh_id_def id_string_def hashIt_def cong: if_cong)

lemma snd_UniqueIdAllTags: "snd (UniqueIdAllTags farm s) = SortedMetaTags (SortedTags s)"
  by (simp add: UniqueIdAllTags_def UniqueIdAllTagsString_def Let_def)

lemma name_Copy_id [simp]: "name_Copy s = s"
  by (simp add: name_Copy_def)

lemma id_ok_setters:
  assumes "id_ok farm s"
  shows "id_ok farm (SetKey k s)" "id_ok farm (SetTagMode mode s)" "id_ok farm (SetHashMode mode s)"
    "id_ok farm (name_MergeMetric2Tags tgs s)"
  by (cases "k = Key s") (auto simp: assms SetKey_def SetTagMode_def SetHashMode_def Let_def
      name_MergeMetric2Tags_def intro: id_ok_blank split: option.splits)

lemma id_ok_ids:
  assumes "id_ok farm s"
  shows "id_ok farm (snd (UniqueId farm s))" "id_ok farm (snd (UniqueIdString farm s))"
  using assms by (auto simp: id_ok_def UniqueIdString_def UniqueId_eq Let_def)

lemma snd_sorting:
  "snd (name_ByteSize s) = SortedTags s" "snd (name_Name s) = SortedTags s"
  "snd (UniqueIdAllTagsString s) = SortedMetaTags (SortedTags s)"
  by (simp_all add: name_ByteSize_def name_Name_def UniqueIdAllTagsString_def Let_def)

lemma id_ok_call: "name_call farm s t \<Longrightarrow> id_ok farm s \<Longrightarrow> id_ok farm t"
  by (erule name_callE) (simp_all add: id_ok_setters id_ok_ids id_ok_SortedTags id_ok_SortedMetaTags
      snd_UniqueIdAllTags snd_sorting)

lemma id_ok_step:
  "name_step farm x y \<Longrightarrow> \<not> fst x \<longrightarrow> id_ok farm (snd x) \<Longrightarrow> \<not> fst y \<longrightarrow> id_ok farm (snd y)"
  by (erule name_stepE) (auto intro: id_ok_call id_ok_blank_id)

text \<open>
  C14. The id of a name is current. From a name with no id, any calls on it in any order: the id
  the name then returns, as a number and as a string, is the hash of its current key and sorted
  tags, never that of an earlier state. The exception are three calls that leave the id as the
  caller wants it: after \<open>SetUid\<close>, \<open>SetUidString\<close> and \<open>MergeTags\<close> on a name that holds an id, the
  claim is made again only once a later call (a new key, a new mode, new tags by
  \<open>MergeMetric2Tags\<close>, or setting an empty id) has cleared the id.
\<close>

theorem unique_id_is_current:
  assumes "(name_step farm)\<^sup>*\<^sup>* (False, s) (False, t)" "blank_id s"
  shows "fst (UniqueId farm t) = hashIt farm (id_string t) t \<and>
    fst (UniqueIdString farm t) = FormatUint (hashIt farm (id_string t) t) 36"
proof -
  have "\<not> fst y \<longrightarrow> id_ok farm (snd y)" if "(name_step farm)\<^sup>*\<^sup>* (False, s) y" for y
    using that by induction (use assms(2) id_ok_step in \<open>auto intro: id_ok_blank_id\<close>)
  from this [OF assms(1)] show ?thesis
    using fst_UniqueId fst_UniqueIdString by (simp add: fresh_id_def)
qed

text \<open>A name whose id was read, then forced to seven, and that got another key after that.\<close>

definition forced_name :: StatName where
  "forced_name = SetUid 7 (snd (UniqueId (\<lambda>_. 0)
      \<lparr>Key = ''a'', XXX_uniqueId = 0, XXX_uniqueIdstr = '''', nm_Resolution = 1, Ttl = 0,
       nm_TagMode = TAG_METRICS2, nm_HashMode = HASH_FNV, nm_Tags = [], MetaTags = []\<rparr>))"

theorem unique_id_is_current_witness:
  "fst (UniqueId (\<lambda>_. 0) (SetKey ''b'' forced_name)) = fnv64a ''b:''"
proof -
  define s where "s = \<lparr>Key = ''a'', XXX_uniqueId = 0, XXX_uniqueIdstr = '''', nm_Resolution = 1, Ttl = 0,
       nm_TagMode = TAG_METRICS2, nm_HashMode = HASH_FNV, nm_Tags = [], MetaTags = []\<rparr>"
  define t where "t = SetKey ''b'' forced_name"
  note defs = s_def forced_name_def SetUid_def UniqueId_eq SetKey_def sorted_name_def SortedTags_eq
    blank_id_def
  let ?step = "name_step (\<lambda>_. 0)"
  have "?step (False, s) (False, snd (UniqueId (\<lambda>_. 0) s))"
    using called [OF unique_id, of "\<lambda>_. 0" False s] by simp
  moreover have "?step (False, snd (UniqueId (\<lambda>_. 0) s)) (True, forced_name)"
    using forcing [OF set_uid, of "\<lambda>_. 0" False "snd (UniqueId (\<lambda>_. 0) s)" 7] by (simp add: defs)
  moreover have "?step (True, forced_name) (False, t)"
    using called [OF set_key, of "\<lambda>_. 0" True forced_name "''b''"] by (simp add: t_def defs)
  ultimately have "?step\<^sup>*\<^sup>* (False, s) (False, t)"
    by (meson converse_rtranclp_into_rtranclp r_into_rtranclp)
  then have "fst (UniqueId (\<lambda>_. 0) t) = hashIt (\<lambda>_. 0) (id_string t) t"
    using unique_id_is_current [of "\<lambda>_. 0" s t] by (simp add: s_def blank_id_def)
  moreover have "id_string t = ''b:''" "nm_HashMode t = HASH_FNV"
    by (simp_all add: t_def defs id_string_def BaseString_def ToStringSep_def)
  ultimately show ?thesis unfolding t_def by (simp add: hashIt_def)
qed

text \<open>Sorting by name forgets the order of tags with distinct names.\<close>

lemma sort_tags_mset:
  assumes "mset xs = mset ys" "distinct (map Name xs)"
  shows "sort_key Name xs = sort_key Name ys"
  by (rule sort_key_inj_key_eq) (use assms in \<open>auto simp: distinct_map\<close>)

text \<open>
  The order in which the tags of a name arrive does not change its id: names with the same key,
  the same modes and the same tags, each tag name once, have the same id.
\<close>

theorem unique_id_tag_order:
  assumes "Key s = Key t" "nm_TagMode s = nm_TagMode t" "nm_HashMode s = nm_HashMode t"
    "mset (nm_Tags s) = mset (nm_Tags t)" "distinct (map Name (nm_Tags s))"
    "mset (MetaTags s) = mset (MetaTags t)" "distinct (map Name (MetaTags s))"
    "XXX_uniqueId s = 0" "XXX_uniqueId t = 0"
  shows "fst (UniqueId farm s) = fst (UniqueId farm t)"
  using assms by (simp add: UniqueId_eq fresh_id_cong [of s t] sort_tags_mset)

theorem unique_id_tag_order_witness:
  "fst (UniqueId (\<lambda>_. 7) \<lparr>Key = ''a'', XXX_uniqueId = 0, XXX_uniqueIdstr = '''', nm_Resolution = 1,
       Ttl = 0, nm_TagMode = TAG_METRICS2, nm_HashMode = HASH_FNV,
       nm_Tags = [\<lparr>Name = ''x'', Value = ''1''\<rparr>, \<lparr>Name = ''y'', Value = ''2''\<rparr>], MetaTags = []\<rparr>) =
   fst (UniqueId (\<lambda>_. 7) \<lparr>Key = ''a'', XXX_uniqueId = 0, XXX_uniqueIdstr = '''', nm_Resolution = 60,
       Ttl = 0, nm_TagMode = TAG_METRICS2, nm_HashMode = HASH_FNV,
       nm_Tags = [\<lparr>Name = ''y'', Value = ''2''\<rparr>, \<lparr>Name = ''x'', Value = ''1''\<rparr>], MetaTags = []\<rparr>)"
  by (rule unique_id_tag_order) simp_all

text \<open>
  C15. The printed id of a name, 36 digits to the place, reads back as the id; a name made from
  the printed form has the same id and the same printed form.
\<close>

theorem uid_string_round_trip:
  assumes "id_ok farm s" "fst (UniqueId farm s) \<noteq> 0"
  shows "StringToUniqueId (fst (UniqueIdString farm s)) = fst (UniqueId farm s) \<and>
    fst (UniqueId farm (SetUidString (fst (UniqueIdString farm s)) t)) = fst (UniqueId farm s) \<and>
    fst (UniqueIdString farm (SetUid (fst (UniqueId farm s)) t)) = fst (UniqueIdString farm s)"
proof -
  have "StringToUniqueId (FormatUint (fresh_id farm s) 36) = fresh_id farm s"
    by (simp add: StringToUniqueId_def ParseUint_FormatUint)
  moreover have "fresh_id farm s \<noteq> 0"
    using assms by (simp add: fst_UniqueId)
  ultimately show ?thesis
    unfolding fst_UniqueId [OF assms(1)] fst_UniqueIdString [OF assms(1)]
    by (simp add: SetUidString_def SetUid_def UniqueId_eq [of farm "t\<lparr>XXX_uniqueId := u, XXX_uniqueIdstr := w\<rparr>" for u w]
        UniqueIdString_def [of farm "t\<lparr>XXX_uniqueId := u, XXX_uniqueIdstr := w\<rparr>" for u w] Let_def)
qed

theorem uid_string_round_trip_witness:
  "StringToUniqueId (fst (UniqueIdString (\<lambda>_. 71) \<lparr>Key = ''a'', XXX_uniqueId = 0, XXX_uniqueIdstr = '''',
       nm_Resolution = 1, Ttl = 0, nm_TagMode = TAG_METRICS2, nm_HashMode = HASH_FARM,
       nm_Tags = [], MetaTags = []\<rparr>)) = 71"
proof -
  let ?s = "\<lparr>Key = ''a'', XXX_uniqueId = 0, XXX_uniqueIdstr = '''',
       nm_Resolution = 1, Ttl = 0, nm_TagMode = TAG_METRICS2, nm_HashMode = HASH_FARM,
       nm_Tags = [], MetaTags = []\<rparr>"
  have "id_ok (\<lambda>_. 71) ?s" by (simp add: id_ok_blank)
  moreover have "fst (UniqueId (\<lambda>_. 71) ?s) = 71" by (simp add: UniqueId_eq fresh_id_def hashIt_def)
  ultimately show ?thesis using uid_string_round_trip [of "\<lambda>_. 71" ?s] by simp
qed

text \<open>
  Merging tags into a name that counts all its tags, when it has none yet, adds nothing: what
  \<open>Merge\<close> returns for an empty list of tags is not stored, and the meta tags are dropped.
\<close>

theorem merge_all_tags_lost:
  assumes "nm_TagMode s = TAG_ALLTAGS" "nm_Tags s = []"
  shows "name_MergeMetric2Tags (Some tgs) s =
    s\<lparr>MetaTags := [], XXX_uniqueId := 0, XXX_uniqueIdstr := ''''\<rparr>"
  using assms by (simp add: name_MergeMetric2Tags_def Merge_def Let_def)

theorem merge_all_tags_lost_witness:
  "nm_Tags (name_MergeMetric2Tags (Some [\<lparr>Name = ''host'', Value = ''h1''\<rparr>])
     \<lparr>Key = ''a'', XXX_uniqueId = 0, XXX_uniqueIdstr = '''',
       nm_Resolution = 1, Ttl = 0, nm_TagMode = TAG_ALLTAGS, nm_HashMode = HASH_FARM,
       nm_Tags = [], MetaTags = []\<rparr>) = []"
  by (subst merge_all_tags_lost) simp_all

section \<open>Aggregates\<close>

text \<open>The merge of a series of stats into a first one, in the order of arrival.\<close>

definition merge_all :: "StatRepr \<Rightarrow> StatRepr list \<Rightarrow> StatRepr" where
  "merge_all s ss = fold (\<lambda>t a. stat_Merge a t) ss s"

definition proper :: "StatRepr \<Rightarrow> bool" where
  "proper s \<longleftrightarrow> \<not> IsNaN (sr_Min s) \<and> \<not> IsNaN (sr_Max s)"

lemma stat_Copy_id [simp]: "stat_Copy s = s"
  by (simp add: stat_Copy_def option.map_ident_strong)

lemma stat_Merge_fields:
  "sr_Count (stat_Merge s t) = sr_Count s + sr_Count t"
  "sint (sr_Time (stat_Merge s t)) = max (sint (sr_Time s)) (sint (sr_Time t))"
  "sr_Last (stat_Merge s t) = (if sint (sr_Time t) < sint (sr_Time s) then sr_Last s else sr_Last t)"
  by (simp_all add: stat_Merge_def absorb_def Let_def)

lemma stat_Merge_extrema:
  assumes "proper s" "proper t"
  shows "proper (stat_Merge s t)"
    "f64_key (sr_Min (stat_Merge s t)) = min (f64_key (sr_Min s)) (f64_key (sr_Min t))"
    "f64_key (sr_Max (stat_Merge s t)) = max (f64_key (sr_Max s)) (f64_key (sr_Max t))"
  using assms by (auto simp: stat_Merge_def absorb_def Let_def proper_def f64_lt_def)

lemma merge_all_extrema:
  assumes "proper s" "\<forall>t \<in> set ss. proper t"
  shows "proper (merge_all s ss) \<and>
    f64_key (sr_Min (merge_all s ss)) = Min ((\<lambda>t. f64_key (sr_Min t)) ` set (s # ss)) \<and>
    f64_key (sr_Max (merge_all s ss)) = Max ((\<lambda>t. f64_key (sr_Max t)) ` set (s # ss))"
  using assms
proof (induction ss arbitrary: s)
  case (Cons t ss)
  show ?case
    using Cons.IH [of "stat_Merge s t"] Cons.prems
    by (cases "ss = []") (simp_all add: merge_all_def stat_Merge_extrema min.assoc max.assoc)
qed (simp add: merge_all_def)

lemma merge_all_last:
  "sint (sr_Time (merge_all s ss)) = Max ((\<lambda>t. sint (sr_Time t)) ` set (s # ss)) \<and>
   (\<exists>t \<in> set (s # ss). sr_Time t = sr_Time (merge_all s ss) \<and> sr_Last t = sr_Last (merge_all s ss))"
proof (induction ss arbitrary: s)
  case (Cons t ss)
  obtain u where u: "u \<in> set (stat_Merge s t # ss)" "sr_Time u = sr_Time (merge_all (stat_Merge s t) ss)"
    "sr_Last u = sr_Last (merge_all (stat_Merge s t) ss)"
    using Cons.IH [of "stat_Merge s t"] by blast
  have "\<exists>v \<in> {s, t}. sr_Time v = sr_Time (stat_Merge s t) \<and> sr_Last v = sr_Last (stat_Merge s t)"
    by (simp add: stat_Merge_def absorb_def Let_def)
  then have "\<exists>v \<in> set (s # t # ss). sr_Time v = sr_Time u \<and> sr_Last v = sr_Last u"
    using u(1) by auto
  moreover have "merge_all s (t # ss) = merge_all (stat_Merge s t) ss"
    by (simp add: merge_all_def)
  ultimately show ?case
    using Cons.IH [of "stat_Merge s t"] u
    by (cases "ss = []") (auto simp: stat_Merge_fields max.assoc)
qed (simp add: merge_all_def)

lemma merge_all_count: "sr_Count (merge_all s ss) = sr_Count s + sum_list (map sr_Count ss)"
  by (induction ss arbitrary: s) (simp_all add: merge_all_def stat_Merge_fields add.assoc)

text \<open>
  C16. Merging a series of stats in any order of arrival gives their aggregate: the counts add up
  (as 64-bit integers), the minimum and the maximum are those of the series, the time is the latest
  one, and the last value is that of a stat of that time.
\<close>

theorem merge_all_aggregates:
  assumes "proper s" "\<forall>t \<in> set ss. proper t"
  shows "sr_Count (merge_all s ss) = sum_list (map sr_Count (s # ss)) \<and>
    f64_key (sr_Min (merge_all s ss)) = Min ((\<lambda>t. f64_key (sr_Min t)) ` set (s # ss)) \<and>
    f64_key (sr_Max (merge_all s ss)) = Max ((\<lambda>t. f64_key (sr_Max t)) ` set (s # ss)) \<and>
    sint (sr_Time (merge_all s ss)) = Max ((\<lambda>t. sint (sr_Time t)) ` set (s # ss)) \<and>
    (\<exists>t \<in> set (s # ss). sr_Time t = sr_Time (merge_all s ss) \<and> sr_Last t = sr_Last (merge_all s ss))"
  using merge_all_extrema [OF assms] merge_all_last [of s ss] by (simp add: merge_all_count)

theorem merge_all_aggregates_witness:
  "sint (sr_Time (merge_all (ZeroStatRepr\<lparr>sr_Time := 5\<rparr>) [ZeroStatRepr\<lparr>sr_Time := 9\<rparr>, ZeroStatRepr\<lparr>sr_Time := 7\<rparr>])) = 9"
  using merge_all_aggregates [of "ZeroStatRepr\<lparr>sr_Time := 5\<rparr>" "[ZeroStatRepr\<lparr>sr_Time := 9\<rparr>, ZeroStatRepr\<lparr>sr_Time := 7\<rparr>]"]
  by (simp add: proper_def ZeroStatRepr_def)

end
