(* ===== verification/Float_Order.thy ===== *)
theory Float_Order
  imports Float64
begin

text \<open>
  Subtraction on \<^verbatim>\<open>float64\<close>, and that the sign of a rounded difference decides the order of the
  operands: the test \<^verbatim>\<open>a - b < 0\<close> of a comparison function is \<^verbatim>\<open>a < b\<close>, for subnormal numbers,
  infinities and values that are no number too.
\<close>

unbundle bit_operations_syntax


definition f64_sub :: "f64 \<Rightarrow> f64 \<Rightarrow> f64" where
  "f64_sub x y = (if IsNaN y \<and> \<not> IsNaN x then f64_quiet y else f64_add x (y XOR 0x8000000000000000))"

section \<open>The sign of a difference\<close>

lemma f64_abs_bits_bounds: "0 \<le> f64_abs_bits x" "f64_abs_bits x < 2 ^ 63"
  by (simp_all add: f64_abs_bits_def)

lemma f64_bits: "uint x = (if f64_neg x then 2 ^ 63 else 0) + f64_abs_bits x"
proof (cases "f64_neg x")
  case True
  then have "uint x mod 2 ^ 63 = (uint x - 2 ^ 63) mod 2 ^ 63" by (simp add: f64_neg_def)
  also have "\<dots> = uint x - 2 ^ 63"
    using True uint_bounded [of x] by (intro mod_pos_pos_trivial) (simp_all add: f64_neg_def)
  finally show ?thesis using True by (simp add: f64_abs_bits_def)
qed (simp add: f64_neg_def f64_abs_bits_def)

lemma f64_of_parts:
  assumes "0 \<le> n" "n < 2 ^ 63"
  shows "f64_abs_bits (word_of_int ((if b then 2 ^ 63 else 0) + n)) = n"
    "f64_neg (word_of_int ((if b then 2 ^ 63 else 0) + n)) = b"
proof -
  have "uint (word_of_int ((if b then 2 ^ 63 else 0) + n) :: f64) = (if b then 2 ^ 63 else 0) + n"
    using assms by (simp only: uint_word_of_int) (rule mod_pos_pos_trivial; auto)
  then show "f64_abs_bits (word_of_int ((if b then 2 ^ 63 else 0) + n)) = n"
    "f64_neg (word_of_int ((if b then 2 ^ 63 else 0) + n)) = b"
    using assms by (auto simp: f64_abs_bits_def f64_neg_def)
qed

lemma round_shift_pos:
  assumes "2 ^ k \<le> a"
  shows "1 \<le> round_shift a k"
proof -
  have "1 \<le> a div 2 ^ k" using assms by (simp add: pos_imp_zdiv_pos_iff int_one_le_iff_zero_less)
  then show ?thesis by (auto simp: round_shift_def Let_def)
qed

text \<open>A rounded value has the sign of the exact one, and is zero only when that is.\<close>

lemma rounded_pos:
  assumes "- 1074 \<le> e" "0 < a" "q = max (e + int (bitlen a) - 53) (- 1074)"
  shows "1 \<le> (if q \<le> e then a * 2 ^ nat (e - q) else round_shift a (nat (q - e)))"
proof (cases "q \<le> e")
  case True
  then show ?thesis using assms(2) by (simp add: int_one_le_iff_zero_less)
next
  case False
  then have "q = e + int (bitlen a) - 53" using assms(1,3) by (simp add: max_def split: if_splits)
  then have "nat (q - e) \<le> bitlen a - 1" by simp
  then have "(2::int) ^ nat (q - e) \<le> 2 ^ (bitlen a - 1)" by (simp add: power_increasing)
  also have "\<dots> \<le> a" using bitlen_bounds [of a] assms(2) by simp
  finally have "1 \<le> round_shift a (nat (q - e))" by (rule round_shift_pos)
  then show ?thesis using False by simp
qed

lemma f64_round_sign:
  assumes "- 1074 \<le> e" "m \<noteq> 0"
  shows "f64_neg (f64_round s m e) \<longleftrightarrow> m < 0" "0 < f64_abs_bits (f64_round s m e)"
    "\<not> IsNaN (f64_round s m e)"
proof -
  define q where "q = max (e + int (bitlen \<bar>m\<bar>) - 53) (- 1074)"
  define r where "r = (if q \<le> e then \<bar>m\<bar> * 2 ^ nat (e - q) else round_shift \<bar>m\<bar> (nat (q - e)))"
  define n where "n = min ((q + 1074) * 2 ^ 52 + r) (2047 * 2 ^ 52)"
  have "1 \<le> r" unfolding r_def using rounded_pos [OF assms(1) _ q_def] assms(2) by simp
  moreover have "0 \<le> (q + 1074) * 2 ^ 52" by (rule mult_nonneg_nonneg) (simp_all add: q_def)
  ultimately have n: "0 < n" "n \<le> 2047 * 2 ^ 52" by (simp_all add: n_def)
  have eq: "f64_round s m e = word_of_int ((if m < 0 then 2 ^ 63 else 0) + n)"
    unfolding f64_round_def Let_def q_def [symmetric] r_def [symmetric] n_def [symmetric]
    using assms(2) by simp
  have n': "0 \<le> n" "n < 2 ^ 63" using n by simp_all
  have "f64_abs_bits (f64_round s m e) = n" "f64_neg (f64_round s m e) \<longleftrightarrow> m < 0"
    unfolding eq by (rule f64_of_parts [OF n'])+
  then show "f64_neg (f64_round s m e) \<longleftrightarrow> m < 0" "0 < f64_abs_bits (f64_round s m e)"
    "\<not> IsNaN (f64_round s m e)" using n by (simp_all add: IsNaN_def)
qed

text \<open>The value of a finite pattern without its sign, in units of the least positive number.\<close>

definition units :: "int \<Rightarrow> int" where
  "units n = (if n div 2 ^ 52 = 0 then n mod 2 ^ 52 else (n mod 2 ^ 52 + 2 ^ 52) * 2 ^ nat (n div 2 ^ 52 - 1))"

lemma units_less:
  assumes "0 \<le> m" "m < n"
  shows "units m < units n"
proof -
  define D :: int where "D = 2 ^ 52"
  have D: "0 < D" "0 \<le> m mod D" "m mod D < D" "0 \<le> n mod D" "n mod D < D" by (simp_all add: D_def)
  have u: "units k = (if k div D = 0 then k mod D else (k mod D + D) * 2 ^ nat (k div D - 1))" for k
    by (simp add: units_def D_def)
  have le: "m div D \<le> n div D" and m0: "0 \<le> m div D"
    using assms D(1) by (simp_all add: zdiv_mono1 pos_imp_zdiv_nonneg_iff)
  show ?thesis
  proof (cases "m div D = n div D")
    case True
    then have "m mod D < n mod D" using assms(2) by (metis mult_div_mod_eq add_less_cancel_left)
    then show ?thesis using True by (simp add: u)
  next
    case False
    then have lt: "m div D < n div D" using le by simp
    then have N: "D * 2 ^ nat (n div D - 1) \<le> units n" using m0 D by (simp add: u mult_right_mono)
    have "units m < D * 2 ^ nat (m div D)"
    proof (cases "m div D = 0")
      case False
      then have "(2::int) ^ nat (m div D) = 2 * 2 ^ nat (m div D - 1)"
        using m0 by (simp add: nat_diff_distrib flip: power_Suc)
      then show ?thesis using False D by (simp add: u)
    qed (simp add: u D)
    also have "\<dots> \<le> D * 2 ^ nat (n div D - 1)"
      using lt m0 D by (simp add: power_increasing)
    finally show ?thesis using N by simp
  qed
qed

lemma units_less_iff: "0 \<le> m \<Longrightarrow> 0 \<le> n \<Longrightarrow> units m < units n \<longleftrightarrow> m < n"
  using units_less by (metis linorder_neqE_linordered_idom order_less_asym)

definition f64_units :: "f64 \<Rightarrow> int" where
  "f64_units x = (if f64_neg x then - units (f64_abs_bits x) else units (f64_abs_bits x))"

lemma f64_exp_nonneg: "0 \<le> f64_exp x"
  by (simp add: f64_exp_def f64_abs_bits_def pos_imp_zdiv_nonneg_iff)

lemma f64_scale_ge: "- 1074 \<le> f64_scale x"
  using f64_exp_nonneg [of x] by (simp add: f64_scale_def)

lemma f64_units_eq: "f64_mant x * 2 ^ nat (f64_scale x + 1074) = f64_units x"
  using f64_exp_nonneg [of x]
  by (auto simp: f64_mant_def f64_scale_def f64_units_def units_def f64_exp_def f64_frac_def)

lemma units_nonneg: "0 \<le> units n"
proof -
  have "0 \<le> n mod 2 ^ 52" by simp
  then show ?thesis unfolding units_def by (simp only: if_splits(1) split: if_split) simp
qed

lemma units_0 [simp]: "units 0 = 0"
  by (simp add: units_def)

lemma units_pos: "0 < n \<Longrightarrow> 0 < units n"
  using units_less [of 0 n] by simp

lemma f64_units_less: "f64_units x < f64_units y \<longleftrightarrow> f64_key x < f64_key y"
  using units_nonneg [of "f64_abs_bits x"] units_nonneg [of "f64_abs_bits y"]
    f64_abs_bits_bounds [of x] f64_abs_bits_bounds [of y]
    units_pos [of "f64_abs_bits x"] units_pos [of "f64_abs_bits y"]
    units_less_iff [of "f64_abs_bits x" "f64_abs_bits y"] units_less_iff [of "f64_abs_bits y" "f64_abs_bits x"]
  by (cases "f64_abs_bits x = 0"; cases "f64_abs_bits y = 0") (auto simp: f64_units_def f64_key_def)

lemma f64_flip:
  "f64_neg (y XOR 0x8000000000000000) \<longleftrightarrow> \<not> f64_neg y"
  "f64_abs_bits (y XOR 0x8000000000000000) = f64_abs_bits y"
proof -
  have neg: "f64_neg x \<longleftrightarrow> bit x 63" for x :: f64
  proof -
    have "bit x 63 \<longleftrightarrow> odd (uint x div 2 ^ 63)" using bit_iff_odd [of "uint x" 63] by (simp add: bit_uint_iff)
    also have "uint x div 2 ^ 63 = (if f64_neg x then 1 else 0)"
      unfolding f64_bits [of x] using f64_abs_bits_bounds [of x] by (auto simp: div_pos_pos_trivial)
    finally show ?thesis by simp
  qed
  have top: "(0x8000000000000000 :: f64) = push_bit 63 1" by (simp add: push_bit_eq_mult)
  show "f64_neg (y XOR 0x8000000000000000) \<longleftrightarrow> \<not> f64_neg y"
    unfolding neg top by (simp add: bit_simps)
  have "take_bit 63 (y XOR 0x8000000000000000) = take_bit 63 y"
    unfolding top by (rule bit_word_eqI) (auto simp: bit_simps)
  then have "uint (take_bit 63 (y XOR 0x8000000000000000)) = uint (take_bit 63 y)" by (rule arg_cong)
  then show "f64_abs_bits (y XOR 0x8000000000000000) = f64_abs_bits y"
    unfolding f64_abs_bits_def unsigned_take_bit_eq by (simp only: take_bit_eq_mod)
qed

lemma f64_key_0 [simp]: "f64_key 0 = 0"
  by (simp add: f64_key_def f64_abs_bits_def)

lemma f64_round_lt_0:
  assumes "- 1074 \<le> e"
  shows "f64_lt (f64_round s m e) 0 \<longleftrightarrow> m < 0"
proof (cases "m = 0")
  case True
  then show ?thesis by (simp add: f64_round_def f64_lt_def f64_key_def f64_abs_bits_def)
next
  case False
  note f = f64_round_sign [OF assms False, of s]
  have "f64_key (f64_round s m e) < 0 \<longleftrightarrow> m < 0"
    unfolding f64_key_def using f(1,2) by (cases "m < 0") simp_all
  then show ?thesis using f(3) by (simp add: f64_lt_def)
qed

lemma f64_add_finite:
  assumes "\<not> IsNaN x" "\<not> IsNaN y" "\<not> IsInf x" "\<not> IsInf y"
  shows "f64_lt (f64_add x y) 0 \<longleftrightarrow> f64_units x + f64_units y < 0"
proof -
  define e where "e = min (f64_scale x) (f64_scale y)"
  define m where "m = f64_mant x * 2 ^ nat (f64_scale x - e) + f64_mant y * 2 ^ nat (f64_scale y - e)"
  have e: "- 1074 \<le> e" "e \<le> f64_scale x" "e \<le> f64_scale y" using f64_scale_ge by (simp_all add: e_def)
  have p: "(2::int) ^ nat (s - e) * 2 ^ nat (e + 1074) = 2 ^ nat (s + 1074)" if "e \<le> s" for s
  proof -
    have "nat (s - e) + nat (e + 1074) = nat (s + 1074)" using that e(1) by arith
    then show ?thesis by (simp only: power_add [symmetric])
  qed
  have "m * 2 ^ nat (e + 1074) = f64_units x + f64_units y"
    unfolding m_def distrib_right mult.assoc p [OF e(2)] p [OF e(3)] f64_units_eq ..
  then have "m < 0 \<longleftrightarrow> f64_units x + f64_units y < 0"
    by (metis mult_less_0_iff zero_less_numeral zero_less_power order_less_asym)
  moreover have "f64_add x y = f64_round (f64_neg x \<and> f64_neg y) m e"
    using assms by (simp add: f64_add_def Let_def m_def e_def)
  ultimately show ?thesis using f64_round_lt_0 [OF e(1)] by simp
qed

lemma f64_class_abs:
  "f64_abs_bits x = f64_abs_bits y \<Longrightarrow> IsNaN x = IsNaN y \<and> IsInf x = IsInf y"
  by (simp add: IsNaN_def IsInf_def)

lemma IsNaN_quiet: "IsNaN x \<Longrightarrow> IsNaN (f64_quiet x)"
proof -
  assume nan: "IsNaN x"
  have "f64_abs_bits x \<le> f64_abs_bits (f64_quiet x)"
    unfolding f64_abs_bits_def f64_quiet_def take_bit_eq_mod [symmetric] unsigned_or_eq take_bit_or
    by (rule or_greater_eq) simp
  then show ?thesis using nan by (simp add: IsNaN_def)
qed

lemma f64_key_Inf: "IsInf x \<Longrightarrow> f64_key x = (if f64_neg x then - 2047 * 2 ^ 52 else 2047 * 2 ^ 52)"
  by (simp add: IsInf_def f64_key_def)

lemma f64_key_finite:
  "\<not> IsNaN x \<Longrightarrow> \<not> IsInf x \<Longrightarrow> - 2047 * 2 ^ 52 < f64_key x \<and> f64_key x < 2047 * 2 ^ 52"
  using f64_abs_bits_bounds(1) [of x] by (auto simp: IsNaN_def IsInf_def f64_key_def)

lemma f64_units_flip: "f64_units (y XOR 0x8000000000000000) = - f64_units y"
  by (simp add: f64_units_def f64_flip)

text \<open>A difference is negative exactly when its first operand is the smaller one.\<close>

lemma f64_sub_neg: "f64_lt (f64_sub x y) 0 \<longleftrightarrow> f64_lt x y"
proof (cases "IsNaN x \<or> IsNaN y \<or> IsInf x \<or> IsInf y")
  case False
  let ?z = "y XOR 0x8000000000000000"
  have "\<not> IsNaN ?z \<and> \<not> IsInf ?z" using False f64_class_abs [OF f64_flip(2) [of y]] by simp
  then have "f64_lt (f64_sub x y) 0 \<longleftrightarrow> f64_units x < f64_units y"
    using f64_add_finite [of x ?z] False by (simp add: f64_sub_def f64_units_flip)
  then show ?thesis using False by (simp add: f64_units_less f64_lt_def)
next
  case True
  let ?z = "y XOR 0x8000000000000000"
  have z: "IsNaN ?z = IsNaN y" "IsInf ?z = IsInf y" "f64_neg ?z \<longleftrightarrow> \<not> f64_neg y"
    using f64_class_abs [OF f64_flip(2) [of y]] f64_flip by simp_all
  have i: "\<not> (IsNaN w \<and> IsInf w)" for w by (simp add: IsNaN_def IsInf_def)
  show ?thesis
  proof (cases "IsNaN x \<or> IsNaN y")
    case True
    then show ?thesis using IsNaN_quiet by (auto simp: f64_sub_def f64_add_def)
  next
    case num: False
    then have inf: "IsInf x \<or> IsInf y" using True by simp
    have d: "f64_sub x y = f64_add x ?z" using num by (simp add: f64_sub_def)
    have nan: "IsNaN 0xFFF8000000000000" by (simp add: IsNaN_def f64_abs_bits_def)
    show ?thesis
      using num inf z i nan f64_key_Inf [of x] f64_key_Inf [of y] f64_key_Inf [of ?z] f64_key_finite [of x] f64_key_finite [of y]
      unfolding d f64_add_def f64_lt_def
      by (cases "IsInf x"; cases "IsInf y"; cases "f64_neg x"; cases "f64_neg y") simp_all
  qed
qed

end
