(* ===== verification/Aggs.thy ===== *)
theory Aggs
  imports Repr Float_Order Cache_Contract
begin

text \<open>
  How values aggregate: \<^verbatim>\<open>server/schemas/repr/aggs.go\<close>. The aggregate of a metric is looked up from
  its \<^verbatim>\<open>stat\<close> tag or guessed from its key; both keep their answers in one LRU cache, which is the
  state here. The patterns \<^verbatim>\<open>.*prefix[0-9]+$\<close> match what ends in the prefix and digits.
  \<^verbatim>\<open>math.Pow\<close> and \<^verbatim>\<open>math.Sqrt\<close> are parameters of the standard deviation.
\<close>

section \<open>From names to aggregates\<close>

definition digit :: "char \<Rightarrow> bool" where
  "digit c \<longleftrightarrow> 48 \<le> (of_char c :: nat) \<and> (of_char c :: nat) \<le> 57"

definition match_num :: "string \<Rightarrow> string \<Rightarrow> bool" where
  "match_num p s \<longleftrightarrow> takeWhile digit (rev s) \<noteq> [] \<and> HasSuffix (rev (dropWhile digit (rev s))) p"

definition upperReg :: "string \<Rightarrow> bool" where "upperReg = match_num ''upper_''"
definition upperMaxReg :: "string \<Rightarrow> bool" where "upperMaxReg = match_num ''max_''"
definition lowerReg :: "string \<Rightarrow> bool" where "lowerReg = match_num ''lower_''"
definition lowerMinReg :: "string \<Rightarrow> bool" where "lowerMinReg = match_num ''min_''"
definition medianReg :: "string \<Rightarrow> bool" where "medianReg = match_num ''median_''"
definition countReg :: "string \<Rightarrow> bool" where "countReg = match_num ''count_''"
definition stdReg :: "string \<Rightarrow> bool" where "stdReg = match_num ''std_''"

definition aggMap :: "(string \<times> u32) list" where
  "aggMap =
    [(''min'', agg_MIN), (''lower'', agg_MIN), (''max'', agg_MAX), (''upper'', agg_MAX),
     (''rawcount'', agg_COUNT), (''numstats'', agg_COUNT),
     (''hit'', agg_SUM), (''hits'', agg_SUM), (''sum'', agg_SUM), (''count'', agg_SUM), (''counts'', agg_SUM),
     (''request'', agg_SUM), (''requests'', agg_SUM), (''ok'', agg_SUM), (''error'', agg_SUM), (''errors'', agg_SUM),
     (''select'', agg_SUM), (''selects'', agg_SUM), (''selected'', agg_SUM),
     (''insert'', agg_SUM), (''inserts'', agg_SUM), (''inserted'', agg_SUM),
     (''update'', agg_SUM), (''updates'', agg_SUM), (''updated'', agg_SUM),
     (''delete'', agg_SUM), (''deletes'', agg_SUM), (''deleted'', agg_SUM),
     (''consume'', agg_SUM), (''consumed'', agg_SUM), (''set'', agg_SUM), (''sets'', agg_SUM),
     (''gauge'', agg_LAST), (''last'', agg_LAST), (''abs'', agg_LAST), (''absolute'', agg_LAST),
     (''median'', agg_MEDIAN), (''middle'', agg_MEDIAN), (''std'', agg_STD)]"

definition agg_Size :: "u32 \<Rightarrow> i64" where
  "agg_Size a = 32"

definition new_guess_cache :: "u32 LRUCache" where
  "new_guess_cache = NewLRUCache 10485760"

definition switch_tag :: "string \<Rightarrow> u32" where
  "switch_tag stat =
     (if lowerMinReg stat \<or> lowerReg stat then agg_MIN
      else if upperReg stat \<or> upperMaxReg stat then agg_MAX
      else if countReg stat then agg_SUM
      else if stdReg stat then agg_STD
      else if medianReg stat then agg_MEDIAN
      else agg_MEAN)"

definition AggTypeFromTag :: "string \<Rightarrow> int \<Rightarrow> u32 LRUCache \<Rightarrow> (u32 \<times> u32 LRUCache) option" where
  "AggTypeFromTag stat now cache =
     (let stat = ToLower stat in
      case map_of aggMap stat of
        Some cached \<Rightarrow> Some (cached, cache)
      | None \<Rightarrow> do {
          (v, cache) \<leftarrow> lru_Get stat now cache;
          (case v of
             Some v \<Rightarrow> Some (v, cache)
           | None \<Rightarrow> do {
               let gots = switch_tag stat;
               (_, cache) \<leftarrow> lru_Set agg_Size stat gots now cache;
               Some (gots, cache) }) })"

definition switch_key :: "string \<Rightarrow> string \<Rightarrow> u32" where
  "switch_key metric last_path =
     (if HasPrefix metric ''stats_count'' \<or> HasPrefix metric ''stats.count'' \<or>
         HasPrefix metric ''stats.set'' \<or> HasPrefix metric ''stats.sets'' \<or> countReg metric then agg_SUM
      else if HasPrefix metric ''stats.gauge'' then agg_LAST
      else if upperMaxReg last_path \<or> upperReg last_path then agg_MAX
      else if lowerMinReg last_path \<or> lowerReg last_path then agg_MIN
      else if HasPrefix metric ''stats.median'' \<or> medianReg last_path then agg_MEDIAN
      else agg_MEAN)"

definition GuessReprValueFromKey :: "string \<Rightarrow> int \<Rightarrow> u32 LRUCache \<Rightarrow> (u32 \<times> u32 LRUCache) option" where
  "GuessReprValueFromKey metric now cache = do {
     (v, cache) \<leftarrow> lru_Get metric now cache;
     (case v of
        Some v \<Rightarrow> Some (v, cache)
      | None \<Rightarrow> do {
          let last_path = ToLower (last (Split metric ''.''));
          (case map_of aggMap last_path of
             Some got \<Rightarrow> do {
               (_, cache) \<leftarrow> lru_Set agg_Size metric got now cache;
               Some (got, cache) }
           | None \<Rightarrow> do {
               let got = switch_key metric last_path;
               (_, cache) \<leftarrow> lru_Set agg_Size metric got now cache;
               Some (got, cache) }) }) }"

definition AggType :: "StatName \<Rightarrow> int \<Rightarrow> u32 LRUCache \<Rightarrow> (u32 \<times> u32 LRUCache) option" where
  "AggType s now cache =
     (let h_stat = Find (nm_Tags s) ''stat'' in
      if h_stat \<noteq> '''' then AggTypeFromTag h_stat now cache
      else GuessReprValueFromKey (Key s) now cache)"

section \<open>Aggregate functions\<close>

text \<open>
  The functions that sort do so in the slice of the caller, so each gives the slice back. The order
  of \<open>AggFloat64\<close> is the sign of the difference, which is the order of the values; on values that
  are no number \<open>sort.Sort\<close> has no defined result.
\<close>

definition agg_Less :: "f64 list \<Rightarrow> nat \<Rightarrow> nat \<Rightarrow> bool" where
  "agg_Less a i j \<longleftrightarrow> f64_lt (f64_sub (a ! i) (a ! j)) 0"

definition sort_vals :: "f64 list \<Rightarrow> f64 list" where
  "sort_vals vals = sort_key f64_key vals"

definition len_float :: "f64 list \<Rightarrow> f64" where
  "len_float vals = f64_of_i64 (of_nat (length vals))"

definition f64_two :: f64 where
  "f64_two = 0x4000000000000000"

definition acc_sum :: "f64 list \<Rightarrow> f64" where
  "acc_sum vals = fold (\<lambda>item val. f64_add val item) vals 0"

definition acc_mean :: "f64 list \<Rightarrow> f64" where
  "acc_mean vals = (if length vals = 0 then 0 else f64_div (acc_sum vals) (len_float vals))"

definition acc_median :: "f64 list \<Rightarrow> f64 \<times> f64 list" where
  "acc_median vals =
     (let l_val = length vals in
      if l_val = 0 then (0, vals)
      else
        let vals = sort_vals vals; use_v = l_val div 2 in
        if l_val mod 2 = 0 \<and> l_val > 3
        then (f64_div (f64_add (vals ! (use_v - 1)) (vals ! (use_v + 1))) f64_two, vals)
        else (vals ! use_v, vals))"

definition acc_max :: "f64 list \<Rightarrow> f64 \<times> f64 list" where
  "acc_max vals = (if length vals = 0 then (0, vals)
     else let vals = sort_vals vals in (vals ! (length vals - 1), vals))"

definition acc_min :: "f64 list \<Rightarrow> f64 \<times> f64 list" where
  "acc_min vals = (if length vals = 0 then (0, vals)
     else let vals = sort_vals vals in (vals ! 0, vals))"

definition acc_first :: "f64 list \<Rightarrow> f64" where
  "acc_first vals = (if length vals = 0 then 0 else vals ! 0)"

definition acc_last :: "f64 list \<Rightarrow> f64" where
  "acc_last vals = (if length vals = 0 then 0 else vals ! (length vals - 1))"

definition acc_std :: "(f64 \<Rightarrow> f64 \<Rightarrow> f64) \<Rightarrow> (f64 \<Rightarrow> f64) \<Rightarrow> f64 list \<Rightarrow> f64" where
  "acc_std pow sqrt vals =
     (if length vals = 0 then 0
      else
        let mean = f64_div (acc_sum vals) (len_float vals);
            std = fold (\<lambda>item std. f64_add std (pow (f64_sub item mean) f64_two)) vals 0
        in sqrt (f64_div std (len_float vals)))"

definition ACCUMULATE_FUNC ::
  "(f64 \<Rightarrow> f64 \<Rightarrow> f64) \<Rightarrow> (f64 \<Rightarrow> f64) \<Rightarrow> u32 \<Rightarrow> (f64 list \<Rightarrow> f64 \<times> f64 list) option" where
  "ACCUMULATE_FUNC pow sqrt k =
     (if k = agg_SUM then Some (\<lambda>vals. (acc_sum vals, vals))
      else if k = agg_MEAN then Some (\<lambda>vals. (acc_mean vals, vals))
      else if k = agg_MEDIAN then Some acc_median
      else if k = agg_MAX then Some acc_max
      else if k = agg_MIN then Some acc_min
      else if k = agg_FIRST then Some (\<lambda>vals. (acc_first vals, vals))
      else if k = agg_COUNT then Some (\<lambda>vals. (len_float vals, vals))
      else if k = agg_LAST then Some (\<lambda>vals. (acc_last vals, vals))
      else if k = agg_STD then Some (\<lambda>vals. (acc_std pow sqrt vals, vals))
      else None)"

definition AggFuncFromTag where
  "AggFuncFromTag pow sqrt stat now cache = do {
     (k, cache) \<leftarrow> AggTypeFromTag stat now cache;
     Some (ACCUMULATE_FUNC pow sqrt k, cache) }"

definition GuessAggFuncFromKey where
  "GuessAggFuncFromKey pow sqrt stat now cache = do {
     (k, cache) \<leftarrow> GuessReprValueFromKey stat now cache;
     Some (ACCUMULATE_FUNC pow sqrt k, cache) }"

definition GuessAggFuncFromName where
  "GuessAggFuncFromName pow sqrt nm now cache =
     (let tg = Stat (nm_Tags nm) in
      if length tg > 0 then AggFuncFromTag pow sqrt tg now cache
      else GuessAggFuncFromKey pow sqrt (Key nm) now cache)"

definition AggFunc where
  "AggFunc pow sqrt s now cache =
     (let h_stat = Find (nm_Tags s) ''stat'' in
      if h_stat \<noteq> '''' then AggFuncFromTag pow sqrt h_stat now cache
      else GuessAggFuncFromKey pow sqrt (Key s) now cache)"

end
