(* ===== verification/Agg_Laws.thy ===== *)
theory Agg_Laws
  imports Aggs Repr_Laws
begin

text \<open>
  The laws of the aggregates: the cache of guesses does not change an answer as long as only keys
  are looked up, and does when a tag value equals a key; the aggregate functions that sort return
  the extreme values.
\<close>

section \<open>Patterns\<close>

lemma match_num_iff:
  assumes "p \<noteq> []" "\<not> digit (last p)"
  shows "match_num p s \<longleftrightarrow> (\<exists>x ds. s = x @ p @ ds \<and> ds \<noteq> [] \<and> list_all digit ds)"
proof
  assume m: "match_num p s"
  let ?ds = "rev (takeWhile digit (rev s))" and ?r = "rev (dropWhile digit (rev s))"
  have "?r @ ?ds = s" by (metis rev_append rev_rev_ident takeWhile_dropWhile_id)
  moreover from m obtain x where "?r = x @ p" by (auto simp: match_num_def HasSuffix_def suffix_def)
  moreover have "list_all digit ?ds" by (auto simp: list_all_iff dest: set_takeWhileD)
  moreover have "?ds \<noteq> []" using m by (simp add: match_num_def)
  ultimately show "\<exists>x ds. s = x @ p @ ds \<and> ds \<noteq> [] \<and> list_all digit ds" by (metis append.assoc)
next
  assume "\<exists>x ds. s = x @ p @ ds \<and> ds \<noteq> [] \<and> list_all digit ds"
  then obtain x ds where s: "s = x @ p @ ds" "ds \<noteq> []" "list_all digit ds" by blast
  have r: "rev s = rev ds @ (rev p @ rev x)" by (simp add: s)
  have d: "\<forall>c \<in> set (rev ds). digit c" using s(3) by (simp add: list_all_iff)
  obtain c r where h: "rev p @ rev x = c # r" "\<not> digit c"
    using assms by (cases "rev p") (auto simp: hd_rev [symmetric])
  have "takeWhile digit (rev s) = rev ds" "dropWhile digit (rev s) = rev p @ rev x"
    unfolding r h(1) using d h(2) by (subst takeWhile_append2 dropWhile_append2; simp)+
  then show "match_num p s" using s(2) by (simp add: match_num_def HasSuffix_def suffix_def)
qed

section \<open>Memoised functions\<close>

text \<open>A function whose answers are kept in a cache.\<close>

definition memo ::
  "(string \<Rightarrow> int \<Rightarrow> 's \<Rightarrow> ('v option \<times> 's) option) \<Rightarrow>
   (string \<Rightarrow> 'v \<Rightarrow> int \<Rightarrow> 's \<Rightarrow> ((string \<times> 'v option) \<times> 's) option) \<Rightarrow>
   (string \<Rightarrow> 'v) \<Rightarrow> string \<Rightarrow> int \<Rightarrow> 's \<Rightarrow> ('v \<times> 's) option" where
  "memo get put f k now s = do {
     (r, s) \<leftarrow> get k now s;
     (case r of
        Some v \<Rightarrow> Some (v, s)
      | None \<Rightarrow> do { (_, s) \<leftarrow> put k (f k) now s; Some (f k, s) }) }"

definition agrees :: "(string \<Rightarrow> 'v) \<Rightarrow> 'v recency \<Rightarrow> bool" where
  "agrees f xs \<longleftrightarrow> (\<forall>(k, v, n) \<in> set xs. v = f k)"

lemma agrees_ops:
  assumes "agrees f xs"
  shows "agrees f (promote k xs)" "agrees f (evict cap ((k, f k, n) # AList.delete k xs))"
proof -
  have "set (AList.delete k xs) \<subseteq> set xs" by (auto simp: AList.delete_eq)
  then have d: "agrees f (AList.delete k xs)" using assms by (auto simp: agrees_def)
  then show "agrees f (promote k xs)"
    using assms by (auto simp: promote_def agrees_def dest!: map_of_SomeD split: option.splits)
  have "agrees f ((k, f k, n) # AList.delete k xs)" using d by (simp add: agrees_def)
  then show "agrees f (evict cap ((k, f k, n) # AList.delete k xs))"
    unfolding evict_def agrees_def by (auto dest: in_set_butlastD split: if_splits)
qed

context bounded_cache
begin

lemma memo_correct:
  assumes "ok s" "agrees f (held s)"
  shows "\<exists>s'. memo get put f k now s = Some (f k, s') \<and> ok s' \<and> agrees f (held s')"
proof -
  obtain s1 where s1: "get k now s = Some (map_option fst (map_of (held s) k), s1)" "ok s1"
    "held s1 = promote k (held s)" "room s1 = room s" using get_held [OF assms(1)] by blast
  have a1: "agrees f (held s1)" unfolding s1(3) using assms(2) by (rule agrees_ops)
  show ?thesis
  proof (cases "map_of (held s) k")
    case None
    obtain r s2 where "put k (f k) now s1 = Some (r, s2)" "ok s2"
      "held s2 = evict (room s1) ((k, f k, sz (f k)) # AList.delete k (held s1))"
      using put_held [OF s1(2)] by blast
    then show ?thesis using None s1 agrees_ops(2) [OF a1] by (simp add: memo_def)
  next
    case (Some d)
    then have "fst d = f k" using assms(2) by (cases d) (auto simp: agrees_def dest: map_of_SomeD)
    then show ?thesis using Some s1 a1 by (simp add: memo_def)
  qed
qed

end

section \<open>The cache of guesses\<close>

definition key_agg :: "string \<Rightarrow> u32" where
  "key_agg metric =
     (let last_path = ToLower (last (Split metric ''.'')) in
      case map_of aggMap last_path of Some got \<Rightarrow> got | None \<Rightarrow> switch_key metric last_path)"

lemma Guess_memo: "GuessReprValueFromKey = memo lru_Get (lru_Set agg_Size) key_agg"
  by (intro ext) (auto simp: GuessReprValueFromKey_def memo_def key_agg_def Let_def
      split: option.splits intro!: Option.bind_cong)

fun guess_all :: "(int \<times> string) list \<Rightarrow> u32 LRUCache \<Rightarrow> (u32 list \<times> u32 LRUCache) option" where
  "guess_all [] cache = Some ([], cache)"
| "guess_all ((now, m) # ms) cache = do {
     (a, cache) \<leftarrow> GuessReprValueFromKey m now cache;
     (as, cache) \<leftarrow> guess_all ms cache;
     Some (a # as, cache) }"

lemma guess_all_correct:
  "lru_ok c \<Longrightarrow> agrees key_agg (view c) \<Longrightarrow> \<exists>c'. guess_all ms c = Some (map (key_agg \<circ> snd) ms, c')"
proof (induction ms c rule: guess_all.induct)
  case (2 now m ms c)
  obtain c' where c': "GuessReprValueFromKey m now c = Some (key_agg m, c')" "lru_ok c'" "agrees key_agg (view c')"
    using lru.memo_correct [OF 2(2,3), of agg_Size m now] by (auto simp: Guess_memo)
  with 2(1) [OF c'(1) refl c'(2,3)] show ?case by auto
qed simp

lemma new_guess_cache_view [simp]:
  "lru_ok new_guess_cache" "view new_guess_cache = []" "capacity new_guess_cache = 10485760"
  by (simp_all add: new_guess_cache_def NewLRUCache_view)

text \<open>
  C17. Looking up keys only, in any number and any order: the guess for a key never depends on what
  was looked up before or on what the cache of ten megabytes evicted meanwhile.
\<close>

theorem guess_is_memoised:
  "\<exists>c. guess_all ms new_guess_cache = Some (map (key_agg \<circ> snd) ms, c)"
  by (rule guess_all_correct) (simp_all add: agrees_def)

text \<open>
  The cache is shared with the lookup of tag values, whose answers follow other rules: after
  a tag value \<^verbatim>\<open>stats.gauge\<close> was looked up, the guess for the metric \<^verbatim>\<open>stats.gauge\<close> is the mean,
  while the rules for keys make it the last value.
\<close>

theorem guess_cache_poisoned:
  "\<exists>c c'. AggTypeFromTag ''stats.gauge'' 1 new_guess_cache = Some (agg_MEAN, c) \<and>
    GuessReprValueFromKey ''stats.gauge'' 2 c = Some (agg_MEAN, c') \<and> key_agg ''stats.gauge'' = agg_LAST"
proof -
  let ?k = "''stats.gauge''"
  have tag: "ToLower ?k = ?k" "map_of aggMap ?k = None" "switch_tag ?k = agg_MEAN" "key_agg ?k = agg_LAST"
    by code_simp+
  have new: "lru_ok new_guess_cache" "view new_guess_cache = []" "capacity new_guess_cache = 10485760"
    by simp_all
  obtain c1 where c1: "lru_Get ?k 1 new_guess_cache = Some (None, c1)" "lru_ok c1" "view c1 = []"
    "capacity c1 = 10485760"
    using lru.get_held [OF new(1), of ?k 1] new by (auto simp: promote_def)
  obtain c2 where c2: "lru_Set agg_Size ?k agg_MEAN 1 c1 = Some (victim 10485760 [(?k, agg_MEAN, 32)], c2)" "lru_ok c2"
    "view c2 = [(?k, agg_MEAN, 32)]"
    using lru.put_held [OF c1(2), of agg_Size ?k agg_MEAN 1] c1 by (auto simp: agg_Size_def evict_def)
  have "\<exists>c3. lru_Get ?k 2 c2 = Some (Some agg_MEAN, c3)"
    using lru.get_held [OF c2(2), of ?k 2] c2(3) by auto
  then show ?thesis
    using tag c1(1) c2(1) by (cases "victim 10485760 [(?k, agg_MEAN, 32)]")
      (auto simp: AggTypeFromTag_def GuessReprValueFromKey_def)
qed

section \<open>Aggregate functions\<close>

lemma agg_Less_key:
  "\<not> IsNaN (a ! i) \<Longrightarrow> \<not> IsNaN (a ! j) \<Longrightarrow> agg_Less a i j \<longleftrightarrow> f64_key (a ! i) < f64_key (a ! j)"
  by (simp only: agg_Less_def f64_sub_neg) (simp add: f64_lt_def)

lemma sort_vals_mset: "mset (sort_vals vals) = mset vals"
  by (simp add: sort_vals_def)

lemma sort_vals_nth: "i \<le> j \<Longrightarrow> j < length vals \<Longrightarrow> f64_key (sort_vals vals ! i) \<le> f64_key (sort_vals vals ! j)"
  unfolding sort_vals_def by (metis (mono_tags, lifting) length_map length_sort nth_map order_le_less_trans
      sorted_nth_mono sorted_sort_key)

lemma sort_vals_length [simp]: "length (sort_vals vals) = length vals" "set (sort_vals vals) = set vals"
  by (simp_all add: sort_vals_def)

text \<open>
  C18. On values that are all numbers, the maximum and the minimum functions return a value of the
  slice that no value exceeds, or undercuts; they leave the slice ordered for \<open>sort.Sort\<close>, whose
  test is the sign of a rounded difference, with the same values.
\<close>

theorem acc_extremes:
  assumes "vals \<noteq> []" "\<forall>x \<in> set vals. \<not> IsNaN x"
  shows "fst (acc_max vals) \<in> set vals \<and> (\<forall>x \<in> set vals. \<not> f64_lt (fst (acc_max vals)) x) \<and>
    fst (acc_min vals) \<in> set vals \<and> (\<forall>x \<in> set vals. \<not> f64_lt x (fst (acc_min vals))) \<and>
    snd (acc_max vals) = snd (acc_min vals) \<and> mset (snd (acc_max vals)) = mset vals \<and>
    (\<forall>i j. i < j \<longrightarrow> j < length vals \<longrightarrow> \<not> agg_Less (snd (acc_max vals)) j i)"
proof -
  let ?s = "sort_vals vals"
  have e: "acc_max vals = (?s ! (length vals - 1), ?s)" "acc_min vals = (?s ! 0, ?s)"
    using assms(1) by (simp_all add: acc_max_def acc_min_def Let_def)
  have n: "\<not> IsNaN (?s ! i)" if "i < length vals" for i
    using assms(2) that by (metis nth_mem sort_vals_length)
  have ends: "?s ! (length vals - 1) \<in> set vals" "?s ! 0 \<in> set vals"
    using assms(1) by (metis diff_less length_greater_0_conv nth_mem sort_vals_length zero_less_one)+
  have "\<not> f64_lt (?s ! (length vals - 1)) x \<and> \<not> f64_lt x (?s ! 0)" if x: "x \<in> set vals" for x
  proof -
    obtain i where "i < length vals" "?s ! i = x" using x by (metis in_set_conv_nth sort_vals_length)
    then show ?thesis
      using sort_vals_nth [of i "length vals - 1" vals] sort_vals_nth [of 0 i vals] by (fastforce simp: f64_lt_def)
  qed
  moreover have "\<not> agg_Less ?s j i" if "i < j" "j < length vals" for i j
    using sort_vals_nth [of i j vals] that n by (simp add: agg_Less_key)
  ultimately show ?thesis using e ends by (simp add: sort_vals_mset)
qed

theorem acc_extremes_witness:
  "\<not> f64_lt (fst (acc_max [0x4008000000000000, 0x3FF0000000000000])) 0x4008000000000000"
proof -
  have "\<forall>x \<in> set [0x4008000000000000, 0x3FF0000000000000]. \<not> IsNaN x"
    by (simp add: IsNaN_def f64_abs_bits_def)
  then show ?thesis
    using acc_extremes [of "[0x4008000000000000, 0x3FF0000000000000]"] by simp
qed

text \<open>
  The median of an even number of values, at least four, averages the values one place to
  either side of the middle: of 1, 2, 3 and 4 it is 3, the mean of 2 and 4, not 2.5.
\<close>

theorem median_of_even:
  "fst (acc_median [0x3FF0000000000000, 0x4000000000000000, 0x4008000000000000, 0x4010000000000000])
     = 0x4008000000000000"
  by code_simp

end
