(* ===== verification/Aggregator.thy ===== *)
theory Aggregator
  imports Repr Float_Order "HOL-Library.AList"
begin

text \<open>
  The aggregators of \<^verbatim>\<open>server/schemas/repr/aggregator.go\<close> and \<^verbatim>\<open>multiagg.go\<close>, and the queue of stats
  of \<^verbatim>\<open>cache.go\<close>. A Go map is an association list with distinct keys, in the order of its iteration.
  A duration is an \<^verbatim>\<open>int64\<close> of nanoseconds. The methods hold their lock from the first access to the
  last, except \<^verbatim>\<open>Add\<close>, which is taken as one step here.
\<close>

section \<open>Times\<close>

text \<open>\<open>Truncate\<close> rounds down to a multiple of the duration since the year 1.\<close>

definition Truncate :: "int \<Rightarrow> i64 \<Rightarrow> int" where
  "Truncate t d = (if sint d \<le> 0 then t else t - (t - zero_time) mod sint d)"

definition UnixNano :: "int \<Rightarrow> i64" where
  "UnixNano t = word_of_int t"

definition f64_1e9 :: f64 where
  "f64_1e9 = f64_of_i64 1000000000"

text \<open>Go's integer division and remainder truncate towards zero.\<close>

definition Seconds :: "i64 \<Rightarrow> f64" where
  "Seconds d =
     (let s = \<bar>sint d\<bar> div nanos; n = \<bar>sint d\<bar> mod nanos;
          sg = (if sint d < 0 then - 1 else 1)
      in f64_add (f64_of_i64 (word_of_int (sg * s))) (f64_div (f64_of_i64 (word_of_int (sg * n))) f64_1e9))"

section \<open>One resolution\<close>

record Aggregator =
  ag_Items :: "(string \<times> StatRepr) list"
  ag_Resolution :: i64

definition NewAggregator :: "i64 \<Rightarrow> Aggregator" where
  "NewAggregator res = \<lparr>ag_Items = [], ag_Resolution = res\<rparr>"

definition ResolutionTime :: "Aggregator \<Rightarrow> int \<Rightarrow> int" where
  "ResolutionTime sa t = Truncate t (ag_Resolution sa)"

definition MapKey :: "Aggregator \<Rightarrow> string \<Rightarrow> int \<Rightarrow> string" where
  "MapKey sa uid t = uid @ ''-'' @ FormatInt (sint (UnixNano (ResolutionTime sa t)))"

definition ag_Len :: "Aggregator \<Rightarrow> int" where
  "ag_Len sa = int (length (ag_Items sa))"

definition GetAndClear :: "Aggregator \<Rightarrow> (string \<times> StatRepr) list \<times> Aggregator" where
  "GetAndClear sa = (fold (\<lambda>(k, v) tItems. AList.update k v tItems) (ag_Items sa) [], sa\<lparr>ag_Items := []\<rparr>)"

text \<open>The list is sorted by time; \<open>sort.Sort\<close> may order items of the same time in another way than the stable sort here.\<close>

definition GetListAndClear :: "Aggregator \<Rightarrow> StatRepr list \<times> Aggregator" where
  "GetListAndClear sa =
     (sort_key (\<lambda>s. sint (sr_Time s)) (map snd (ag_Items sa)), sa\<lparr>ag_Items := []\<rparr>)"

definition accumulate :: "StatRepr \<Rightarrow> i64 \<Rightarrow> u32 \<Rightarrow> StatRepr \<Rightarrow> StatRepr option" where
  "accumulate stat res_time res element =
     (let e1 = element\<lparr>sr_Last := sr_Last stat, sr_Count := sr_Count element + sr_Count stat\<rparr>;
          e2 = (if f64_lt (sr_Max e1) (sr_Max stat) then e1\<lparr>sr_Max := sr_Max stat\<rparr> else e1);
          e3 = (if f64_lt (sr_Min stat) (sr_Min e2) then e2\<lparr>sr_Min := sr_Min stat\<rparr> else e2);
          e4 = e3\<lparr>sr_Sum := f64_add (sr_Sum e3) (sr_Sum stat), sr_Time := res_time\<rparr>
      in do {
        nm \<leftarrow> sr_Name e4;
        Some (e4\<lparr>sr_Name := Some (nm\<lparr>nm_Resolution := res\<rparr>)\<rparr>) })"

text \<open>The stat comes back with the id its name computed.\<close>

definition ag_Add :: "(string \<Rightarrow> u64) \<Rightarrow> StatRepr \<Rightarrow> Aggregator \<Rightarrow> (StatRepr \<times> Aggregator) option" where
  "ag_Add farm stat sa = do {
     let tT = ToTime stat;
     let res_time = ResolutionTime sa tT;
     nm \<leftarrow> sr_Name stat;
     let (uid, nm1) = UniqueIdString farm nm;
     let stat1 = stat\<lparr>sr_Name := Some nm1\<rparr>;
     let mK = MapKey sa uid tT;
     (case map_of (ag_Items sa) mK of
        None \<Rightarrow> Some (stat1, sa\<lparr>ag_Items := AList.update mK (stat_Copy stat1) (ag_Items sa)\<rparr>)
      | Some element \<Rightarrow> do {
          e \<leftarrow> accumulate stat1 (UnixNano res_time) (u32_of_f64 (Seconds (ag_Resolution sa))) element;
          Some (stat1, sa\<lparr>ag_Items := AList.update mK e (ag_Items sa)\<rparr>) }) }"

definition ag_Clear :: "Aggregator \<Rightarrow> Aggregator" where
  "ag_Clear sa = sa\<lparr>ag_Items := []\<rparr>"

section \<open>Several resolutions\<close>

record MultiAggregator =
  Aggs :: "(f64 \<times> Aggregator) list"
  Resolutions :: "i64 list"

definition NewMulti :: "i64 list \<Rightarrow> MultiAggregator" where
  "NewMulti res = \<lparr>Aggs = fold (\<lambda>dur. AList.update (Seconds dur) (NewAggregator dur)) res [], Resolutions = res\<rparr>"

definition multi_Get :: "i64 \<Rightarrow> MultiAggregator \<Rightarrow> Aggregator option" where
  "multi_Get dur ma = map_of (Aggs ma) (Seconds dur)"

definition multi_Len :: "MultiAggregator \<Rightarrow> int" where
  "multi_Len ma = int (length (Resolutions ma))"

fun multi_add :: "(string \<Rightarrow> u64) \<Rightarrow> i64 list \<Rightarrow> StatRepr \<Rightarrow> (f64 \<times> Aggregator) list \<Rightarrow>
    (StatRepr \<times> (f64 \<times> Aggregator) list) option" where
  "multi_add farm [] stat ags = Some (stat, ags)"
| "multi_add farm (dur # res) stat ags = do {
     ag \<leftarrow> map_of ags (Seconds dur);
     (stat, ag) \<leftarrow> ag_Add farm stat ag;
     multi_add farm res stat (AList.update (Seconds dur) ag ags) }"

definition multi_Add :: "(string \<Rightarrow> u64) \<Rightarrow> StatRepr \<Rightarrow> MultiAggregator \<Rightarrow> (StatRepr \<times> MultiAggregator) option" where
  "multi_Add farm stat ma = do {
     (stat, ags) \<leftarrow> multi_add farm (Resolutions ma) stat (Aggs ma);
     Some (stat, ma\<lparr>Aggs := ags\<rparr>) }"

definition multi_Clear :: "i64 \<Rightarrow> MultiAggregator \<Rightarrow> MultiAggregator option" where
  "multi_Clear dur ma = do {
     ag \<leftarrow> map_of (Aggs ma) (Seconds dur);
     Some (ma\<lparr>Aggs := AList.update (Seconds dur) (ag_Clear ag) (Aggs ma)\<rparr>) }"

section \<open>The queue of stats\<close>

text \<open>
  The list of ids keeps each element with its address; an item of the table holds the address of its
  element, or nil. Following nil, or taking the front of an empty list, gives \<^const>\<open>None\<close>.
\<close>

definition REPR_CACHE_ITEMS :: int where
  "REPR_CACHE_ITEMS = 100000"

record cacherItem =
  keyele :: "nat option"
  reprs :: ReprList

record ReprCache =
  rc_MaxSize :: int
  itemList :: "(nat \<times> u64) list"
  rc_cache :: "u64 \<Rightarrow> cacherItem option"
  rc_fresh :: nat

definition NewReprCache :: "int \<Rightarrow> ReprCache" where
  "NewReprCache sz = \<lparr>rc_MaxSize = (if sz \<le> 0 then REPR_CACHE_ITEMS else sz), itemList = [],
     rc_cache = (\<lambda>_. None), rc_fresh = 0\<rparr>"

definition STAT_REPR_CACHE :: ReprCache where
  "STAT_REPR_CACHE = NewReprCache (- 1)"

definition rc_Len :: "ReprCache \<Rightarrow> int" where
  "rc_Len s = int (length (itemList s))"

definition remove_ele :: "nat \<Rightarrow> ReprCache \<Rightarrow> ReprCache" where
  "remove_ele a s = s\<lparr>itemList := filter (\<lambda>x. fst x \<noteq> a) (itemList s)\<rparr>"

definition rc_Delete :: "u64 \<Rightarrow> ReprCache \<Rightarrow> (ReprList option \<times> ReprCache) option" where
  "rc_Delete key s =
     (case rc_cache s key of
        None \<Rightarrow> Some (None, s)
      | Some element \<Rightarrow> do {
          a \<leftarrow> keyele element;
          let s1 = remove_ele a s;
          Some (Some (reprs element), s1\<lparr>rc_cache := (rc_cache s1)(key := None)\<rparr>) })"

definition rc_Pop :: "ReprCache \<Rightarrow> (ReprList option \<times> ReprCache) option" where
  "rc_Pop s =
     (case itemList s of
        [] \<Rightarrow> None
      | (_, kk) # _ \<Rightarrow> do {
          element \<leftarrow> rc_cache s kk;
          let s1 = s\<lparr>rc_cache := (rc_cache s)(kk := None)\<rparr>;
          a \<leftarrow> keyele element;
          Some (Some (reprs element), remove_ele a s1) })"

definition checkSize :: "ReprCache \<Rightarrow> (ReprList option \<times> ReprCache) option" where
  "checkSize s =
     (if rc_Len s \<ge> rc_MaxSize s then
        (case itemList s of
           [] \<Rightarrow> None
         | (_, key) # _ \<Rightarrow> do {
             element \<leftarrow> rc_cache s key;
             a \<leftarrow> keyele element;
             let s1 = remove_ele a s;
             Some (Some (reprs element), s1\<lparr>rc_cache := (rc_cache s1)(key := None)\<rparr>) })
      else Some (None, s))"

text \<open>The stat is stored with the id its name computed; the caller's stat shares the name.\<close>

definition rc_Add :: "(string \<Rightarrow> u64) \<Rightarrow> StatRepr \<Rightarrow> ReprCache \<Rightarrow> (ReprList option \<times> ReprCache) option" where
  "rc_Add farm stat s = do {
     nm \<leftarrow> sr_Name stat;
     let (k, nm1) = UniqueId farm nm;
     let stat1 = stat\<lparr>sr_Name := Some nm1\<rparr>;
     (case rc_cache s k of
        None \<Rightarrow> do {
          (old, s1) \<leftarrow> checkSize s;
          let r_list = snd (list_Add stat1 new_ReprList);
          let a = rc_fresh s1;
          Some (old, s1\<lparr>itemList := itemList s1 @ [(a, k)], rc_fresh := Suc a,
            rc_cache := (rc_cache s1)(k \<mapsto> \<lparr>keyele = Some a, reprs = r_list\<rparr>)\<rparr>) }
      | Some gots \<Rightarrow>
          Some (None, s\<lparr>rc_cache := (rc_cache s)(k \<mapsto> gots\<lparr>reprs := snd (list_Add stat1 (reprs gots))\<rparr>)\<rparr>)) }"

definition rc_Get :: "u64 \<Rightarrow> ReprCache \<Rightarrow> ReprList option" where
  "rc_Get key s = map_option reprs (rc_cache s key)"

end
