(* ===== verification/Aggregator_Laws.thy ===== *)
theory Aggregator_Laws
  imports Aggregator Repr_Laws
begin

text \<open>
  What the aggregators promise: every stat counts in exactly one bucket, that of its id and its
  truncated time, the buckets hold the aggregates of their stats, and no sample is lost; the queue of
  stats keeps to its size and gives back the oldest list first.
\<close>

section \<open>Buckets of time\<close>

lemma Truncate_eq: "0 < sint d \<Longrightarrow> Truncate t d = zero_time + (t - zero_time) div sint d * sint d"
  by (simp add: Truncate_def minus_mod_eq_div_mult [symmetric])

lemma Truncate_bounds:
  assumes "0 < sint d"
  shows "Truncate t d \<le> t \<and> t < Truncate t d + sint d \<and> (Truncate t d - zero_time) mod sint d = 0"
proof -
  have "(Truncate t d - zero_time) mod sint d = 0" using assms by (simp add: Truncate_eq)
  then show ?thesis using assms pos_mod_bound [OF assms, of "t - zero_time"] by (simp add: Truncate_def)
qed

lemma Truncate_unique:
  assumes "0 < sint d" "b \<le> t" "t < b + sint d" "(b - zero_time) mod sint d = 0"
  shows "Truncate t d = b"
proof -
  have "(t - zero_time) mod sint d = ((b - zero_time) + (t - b)) mod sint d" by simp
  also have "\<dots> = (t - b) mod sint d" using assms(4) by (metis add_0 mod_add_left_eq)
  also have "\<dots> = t - b" using assms by (simp add: mod_pos_pos_trivial)
  finally show ?thesis using assms(1) by (simp add: Truncate_def)
qed

section \<open>Keys\<close>

definition stat_key :: "(string \<Rightarrow> u64) \<Rightarrow> Aggregator \<Rightarrow> StatRepr \<Rightarrow> string" where
  "stat_key farm sa s = MapKey sa (fst (UniqueIdString farm (the (sr_Name s)))) (ToTime s)"

lemma split_at_dash:
  assumes "xs @ CHR ''-'' # ys = us @ CHR ''-'' # vs" "CHR ''-'' \<notin> set xs" "CHR ''-'' \<notin> set us"
  shows "xs = us \<and> ys = vs"
  using assms by (induction xs arbitrary: us) (auto simp: Cons_eq_append_conv append_eq_Cons_conv)

lemma FormatUint_no_dash: "CHR ''-'' \<notin> set (FormatUint n 36)"
  by (simp add: FormatUint_def digits_of_no_minus)

lemma FormatUint_36_inject: "FormatUint m 36 = FormatUint n 36 \<longleftrightarrow> m = n"
proof
  assume "FormatUint m 36 = FormatUint n 36"
  then have "ParseUint (FormatUint m 36) 36 = ParseUint (FormatUint n 36) 36" by (rule arg_cong)
  then show "m = n" by (simp add: ParseUint_FormatUint)
qed simp

lemma same_bucket_lemma:
  assumes "sr_Name s = Some nm" "sr_Name t = Some nm'" "id_ok farm nm" "id_ok farm nm'"
    "0 < sint (ag_Resolution sa)"
    "- (2 ^ 63) \<le> Truncate (ToTime s) (ag_Resolution sa)" "Truncate (ToTime s) (ag_Resolution sa) < 2 ^ 63"
    "- (2 ^ 63) \<le> Truncate (ToTime t) (ag_Resolution sa)" "Truncate (ToTime t) (ag_Resolution sa) < 2 ^ 63"
  shows "stat_key farm sa s = stat_key farm sa t \<longleftrightarrow>
    fst (UniqueId farm nm) = fst (UniqueId farm nm') \<and>
    (ToTime s - zero_time) div sint (ag_Resolution sa) = (ToTime t - zero_time) div sint (ag_Resolution sa)"
proof -
  let ?d = "sint (ag_Resolution sa)"
  have r: "sint (UnixNano x) = x" if "- (2 ^ 63) \<le> x" "x < 2 ^ 63" for x
    using that unfolding UnixNano_def by (simp add: sint_sbintrunc' signed_take_bit_int_eq_self)
  note tr = Truncate_eq [OF assms(5)]
  have i: "FormatInt (Truncate (ToTime s) (ag_Resolution sa)) = FormatInt (Truncate (ToTime t) (ag_Resolution sa))
    \<longleftrightarrow> Truncate (ToTime s) (ag_Resolution sa) = Truncate (ToTime t) (ag_Resolution sa)"
    using assms(6-9) by (intro FormatInt_inject) auto
  have "stat_key farm sa s = stat_key farm sa t \<longleftrightarrow>
    FormatUint (fresh_id farm nm) 36 @ CHR ''-'' # FormatInt (Truncate (ToTime s) (ag_Resolution sa)) =
    FormatUint (fresh_id farm nm') 36 @ CHR ''-'' # FormatInt (Truncate (ToTime t) (ag_Resolution sa))"
    using assms by (simp add: stat_key_def MapKey_def ResolutionTime_def fst_UniqueIdString r)
  also have "\<dots> \<longleftrightarrow> fresh_id farm nm = fresh_id farm nm' \<and>
      Truncate (ToTime s) (ag_Resolution sa) = Truncate (ToTime t) (ag_Resolution sa)"
    by (auto dest!: split_at_dash [OF _ FormatUint_no_dash FormatUint_no_dash] simp: FormatUint_36_inject i)
  also have "\<dots> \<longleftrightarrow> fst (UniqueId farm nm) = fst (UniqueId farm nm') \<and>
      (ToTime s - zero_time) div ?d = (ToTime t - zero_time) div ?d"
    using assms(5) by (auto simp: fst_UniqueId [OF assms(3)] fst_UniqueId [OF assms(4)] tr)
  finally show ?thesis .
qed

text \<open>
  C19. Two stats share a bucket of an aggregator exactly when their names have the same id and
  their times fall into the same interval of the resolution, for times within the range of
  \<^verbatim>\<open>UnixNano\<close>.
\<close>

theorem same_bucket:
  assumes "sr_Name s = Some nm" "sr_Name t = Some nm'" "id_ok farm nm" "id_ok farm nm'"
    "0 < sint (ag_Resolution sa)"
    "- (2 ^ 63) \<le> Truncate (ToTime s) (ag_Resolution sa)" "Truncate (ToTime s) (ag_Resolution sa) < 2 ^ 63"
    "- (2 ^ 63) \<le> Truncate (ToTime t) (ag_Resolution sa)" "Truncate (ToTime t) (ag_Resolution sa) < 2 ^ 63"
  shows "stat_key farm sa s = stat_key farm sa t \<longleftrightarrow>
    fst (UniqueId farm nm) = fst (UniqueId farm nm') \<and>
    (ToTime s - zero_time) div sint (ag_Resolution sa) = (ToTime t - zero_time) div sint (ag_Resolution sa)"
  using assms by (rule same_bucket_lemma)

text \<open>A name and a stat for examples.\<close>

definition ex_name :: StatName where
  "ex_name = \<lparr>Key = ''moo'', XXX_uniqueId = 0, XXX_uniqueIdstr = '''', nm_Resolution = 1, Ttl = 0,
     nm_TagMode = TAG_METRICS2, nm_HashMode = HASH_FNV, nm_Tags = [], MetaTags = []\<rparr>"

definition ex_stat :: "i64 \<Rightarrow> StatRepr" where
  "ex_stat t = ZeroStatRepr\<lparr>sr_Name := Some ex_name, sr_Time := t, sr_Count := 4\<rparr>"

lemma ex_stat_simps [simp]:
  "sr_Name (ex_stat t) = Some ex_name" "sr_Time (ex_stat t) = t" "sr_Count (ex_stat t) = 4"
  "id_ok farm ex_name"
  by (simp_all add: ex_stat_def ex_name_def id_ok_blank)

theorem same_bucket_witness:
  "stat_key (\<lambda>_. 0) (NewAggregator 10000000000) (ex_stat 12) = stat_key (\<lambda>_. 0) (NewAggregator 10000000000) (ex_stat 19)"
  by (subst same_bucket [of _ ex_name _ ex_name])
     (simp_all add: NewAggregator_def ToTime_def Truncate_def zero_time_def nanos_def)

section \<open>What the buckets hold\<close>

fun ag_add_all :: "(string \<Rightarrow> u64) \<Rightarrow> StatRepr list \<Rightarrow> Aggregator \<Rightarrow> Aggregator option" where
  "ag_add_all farm [] sa = Some sa"
| "ag_add_all farm (s # ss) sa = do { (_, sa) \<leftarrow> ag_Add farm s sa; ag_add_all farm ss sa }"

definition named :: "StatRepr \<Rightarrow> bool" where
  "named s \<longleftrightarrow> sr_Name s \<noteq> None"

text \<open>The item of a bucket and the stats that went into it, in the order of arrival.\<close>

definition bucket_ok :: "Aggregator \<Rightarrow> StatRepr list \<Rightarrow> StatRepr \<Rightarrow> bool" where
  "bucket_ok sa g e \<longleftrightarrow> g \<noteq> [] \<and> named e \<and>
     sr_Count e = sum_list (map sr_Count g) \<and>
     sr_Last e = sr_Last (last g) \<and>
     sr_Sum e = fold (\<lambda>s a. f64_add a (sr_Sum s)) (tl g) (sr_Sum (hd g)) \<and>
     sr_Time e = (if length g = 1 then sr_Time (hd g) else UnixNano (ResolutionTime sa (ToTime (last g)))) \<and>
     ((\<forall>s \<in> set g. proper s) \<longrightarrow> proper e \<and>
       f64_key (sr_Min e) = Min ((\<lambda>s. f64_key (sr_Min s)) ` set g) \<and>
       f64_key (sr_Max e) = Max ((\<lambda>s. f64_key (sr_Max s)) ` set g))"

lemma bucket_ok_one: "named s \<Longrightarrow> bucket_ok sa [s] s"
  by (simp add: bucket_ok_def)

lemma bucket_ok_cong_name:
  "bucket_ok sa g e \<Longrightarrow> bucket_ok sa g (e\<lparr>sr_Name := Some nm\<rparr>)"
  by (auto simp: bucket_ok_def named_def proper_def)

lemma accumulate_fields:
  "accumulate s rt r e = Some e' \<Longrightarrow>
     named e' \<and> sr_Count e' = sr_Count e + sr_Count s \<and> sr_Last e' = sr_Last s \<and>
     sr_Sum e' = f64_add (sr_Sum e) (sr_Sum s) \<and> sr_Time e' = rt \<and>
     sr_Max e' = (if f64_lt (sr_Max e) (sr_Max s) then sr_Max s else sr_Max e) \<and>
     sr_Min e' = (if f64_lt (sr_Min s) (sr_Min e) then sr_Min s else sr_Min e)"
  by (auto simp: accumulate_def Let_def named_def bind_eq_Some_conv)

lemma accumulate_named: "named e \<Longrightarrow> \<exists>e'. accumulate s rt r e = Some e'"
  by (auto simp: accumulate_def Let_def named_def)

lemma accumulate_bucket:
  assumes "bucket_ok sa g e" "accumulate s (UnixNano (ResolutionTime sa (ToTime s))) r e = Some e'"
  shows "bucket_ok sa (g @ [s]) e'"
proof -
  note f = accumulate_fields [OF assms(2)]
  have g: "g \<noteq> []" using assms(1) by (simp add: bucket_ok_def)
  have "proper e' \<and> f64_key (sr_Min e') = Min ((\<lambda>s. f64_key (sr_Min s)) ` set (g @ [s])) \<and>
     f64_key (sr_Max e') = Max ((\<lambda>s. f64_key (sr_Max s)) ` set (g @ [s]))"
    if p: "\<forall>x \<in> set (g @ [s]). proper x"
  proof -
    have e: "proper e" "f64_key (sr_Min e) = Min ((\<lambda>s. f64_key (sr_Min s)) ` set g)"
      "f64_key (sr_Max e) = Max ((\<lambda>s. f64_key (sr_Max s)) ` set g)"
      using assms(1) p by (simp_all add: bucket_ok_def)
    have "f64_key (sr_Min e') = min (f64_key (sr_Min s)) (f64_key (sr_Min e))"
      "f64_key (sr_Max e') = max (f64_key (sr_Max s)) (f64_key (sr_Max e))" "proper e'"
      using f e(1) p by (auto simp: proper_def f64_lt_def)
    then show ?thesis using g e by simp
  qed
  moreover have "sr_Count e' = sum_list (map sr_Count (g @ [s]))"
    "sr_Sum e' = fold (\<lambda>s a. f64_add a (sr_Sum s)) (tl (g @ [s])) (sr_Sum (hd (g @ [s])))"
    using f g assms(1) by (simp_all add: bucket_ok_def)
  ultimately show ?thesis using f g by (simp add: bucket_ok_def)
qed

text \<open>What holds of an aggregator after a sequence of stats.\<close>

definition buckets_ok :: "(string \<Rightarrow> u64) \<Rightarrow> StatRepr list \<Rightarrow> Aggregator \<Rightarrow> bool" where
  "buckets_ok farm ss sa \<longleftrightarrow> distinct (map fst (ag_Items sa)) \<and>
     (\<forall>k. case map_of (ag_Items sa) k of
        None \<Rightarrow> \<forall>s \<in> set ss. stat_key farm sa s \<noteq> k
      | Some e \<Rightarrow> bucket_ok sa (filter (\<lambda>s. stat_key farm sa s = k) ss) e)"

lemma buckets_okD:
  assumes "buckets_ok farm ss sa"
  shows "map_of (ag_Items sa) k = Some e \<Longrightarrow> bucket_ok sa (filter (\<lambda>s. stat_key farm sa s = k) ss) e"
    "map_of (ag_Items sa) k = None \<Longrightarrow> filter (\<lambda>s. stat_key farm sa s = k) ss = []"
proof -
  have c: "case map_of (ag_Items sa) k of None \<Rightarrow> \<forall>s \<in> set ss. stat_key farm sa s \<noteq> k
      | Some e \<Rightarrow> bucket_ok sa (filter (\<lambda>s. stat_key farm sa s = k) ss) e"
    using assms by (simp add: buckets_ok_def)
  show "map_of (ag_Items sa) k = Some e \<Longrightarrow> bucket_ok sa (filter (\<lambda>s. stat_key farm sa s = k) ss) e"
    "map_of (ag_Items sa) k = None \<Longrightarrow> filter (\<lambda>s. stat_key farm sa s = k) ss = []"
    using c by (simp_all add: filter_empty_conv)
qed

lemma resolution_only:
  "ag_Resolution sa' = ag_Resolution sa \<Longrightarrow>
     stat_key farm sa' = stat_key farm sa \<and> bucket_ok sa' = bucket_ok sa"
  by (intro conjI ext) (simp_all add: stat_key_def MapKey_def ResolutionTime_def bucket_ok_def)

lemma ag_Add_update:
  assumes "named s" "\<forall>k e. map_of (ag_Items sa) k = Some e \<longrightarrow> named e"
  shows "\<exists>s1 e. ag_Add farm s sa = Some (s1, sa\<lparr>ag_Items := AList.update (stat_key farm sa s) e (ag_Items sa)\<rparr>) \<and>
    (\<exists>nm. s1 = s\<lparr>sr_Name := Some nm\<rparr>) \<and>
    (case map_of (ag_Items sa) (stat_key farm sa s) of
       None \<Rightarrow> e = s1
     | Some x \<Rightarrow> accumulate s1 (UnixNano (ResolutionTime sa (ToTime s)))
         (u32_of_f64 (Seconds (ag_Resolution sa))) x = Some e)"
proof -
  from assms(1) obtain nm where nm: "sr_Name s = Some nm" by (auto simp: named_def)
  obtain uid nm1 where u: "UniqueIdString farm nm = (uid, nm1)" by fastforce
  let ?s1 = "s\<lparr>sr_Name := Some nm1\<rparr>"
  have k: "stat_key farm sa s = MapKey sa uid (ToTime s)" by (simp add: stat_key_def nm u)
  show ?thesis
  proof (cases "map_of (ag_Items sa) (stat_key farm sa s)")
    case None
    then show ?thesis by (auto simp: ag_Add_def nm u k Let_def)
  next
    case (Some x)
    then obtain e where "accumulate ?s1 (UnixNano (ResolutionTime sa (ToTime s)))
        (u32_of_f64 (Seconds (ag_Resolution sa))) x = Some e" using assms(2) accumulate_named by blast
    then show ?thesis using Some by (auto simp: ag_Add_def nm u k Let_def)
  qed
qed

lemma ag_Add_buckets:
  assumes "buckets_ok farm ss sa" "named s"
  shows "\<exists>s1 sa'. ag_Add farm s sa = Some (s1, sa') \<and> ag_Resolution sa' = ag_Resolution sa \<and>
    buckets_ok farm (ss @ [s]) sa'"
proof -
  let ?k = "stat_key farm sa s"
  have "\<forall>k e. map_of (ag_Items sa) k = Some e \<longrightarrow> named e"
    using buckets_okD(1) [OF assms(1)] unfolding bucket_ok_def by blast
  from ag_Add_update [OF assms(2) this] obtain s1 e nm where
    a: "ag_Add farm s sa = Some (s1, sa\<lparr>ag_Items := AList.update ?k e (ag_Items sa)\<rparr>)"
    and s1: "s1 = s\<lparr>sr_Name := Some nm\<rparr>"
    and e: "case map_of (ag_Items sa) ?k of None \<Rightarrow> e = s1
     | Some x \<Rightarrow> accumulate s1 (UnixNano (ResolutionTime sa (ToTime s))) (u32_of_f64 (Seconds (ag_Resolution sa))) x = Some e"
    by blast
  let ?sa = "sa\<lparr>ag_Items := AList.update ?k e (ag_Items sa)\<rparr>"
  have eqs: "stat_key farm ?sa = stat_key farm sa" "bucket_ok ?sa = bucket_ok sa"
    using resolution_only [of ?sa sa] by simp_all
  have new: "bucket_ok sa (filter (\<lambda>x. stat_key farm sa x = ?k) ss @ [s]) e"
  proof (cases "map_of (ag_Items sa) ?k")
    case None
    then have "filter (\<lambda>x. stat_key farm sa x = ?k) ss = []"
      by (rule buckets_okD(2) [OF assms(1)])
    then show ?thesis using None e s1 assms(2) bucket_ok_cong_name [OF bucket_ok_one] by simp
  next
    case (Some x)
    then have "bucket_ok sa (filter (\<lambda>x. stat_key farm sa x = ?k) ss) x"
      by (rule buckets_okD(1) [OF assms(1)])
    moreover have "accumulate s1 = accumulate s"
      unfolding s1 by (intro ext) (simp add: accumulate_def Let_def)
    ultimately show ?thesis using Some e accumulate_bucket by simp
  qed
  have "buckets_ok farm (ss @ [s]) ?sa"
    unfolding buckets_ok_def eqs
  proof (intro conjI allI)
    show "distinct (map fst (ag_Items ?sa))" using assms(1) by (simp add: buckets_ok_def distinct_update)
    fix k
    have "map_of (ag_Items ?sa) k = (if k = ?k then Some e else map_of (ag_Items sa) k)"
      by (simp add: update_conv')
    moreover note buckets_okD [OF assms(1), of k]
    ultimately show "case map_of (ag_Items ?sa) k of None \<Rightarrow> \<forall>s \<in> set (ss @ [s]). stat_key farm sa s \<noteq> k
        | Some e \<Rightarrow> bucket_ok sa (filter (\<lambda>s. stat_key farm sa s = k) (ss @ [s])) e"
      using new by (cases "k = ?k"; cases "map_of (ag_Items sa) k") (auto simp: filter_empty_conv)
  qed
  then show ?thesis using a by (intro exI conjI) (assumption | simp)+
qed

lemma ag_add_all_buckets:
  "\<lbrakk>buckets_ok farm done sa; \<forall>s \<in> set ss. named s\<rbrakk> \<Longrightarrow>
     \<exists>sa'. ag_add_all farm ss sa = Some sa' \<and> ag_Resolution sa' = ag_Resolution sa \<and>
       buckets_ok farm (done @ ss) sa'"
proof (induction ss arbitrary: "done" sa)
  case (Cons s ss)
  obtain s1 sa1 where a: "ag_Add farm s sa = Some (s1, sa1)" "ag_Resolution sa1 = ag_Resolution sa"
    "buckets_ok farm (done @ [s]) sa1" using ag_Add_buckets [OF Cons.prems(1), of s] Cons.prems(2) by auto
  from Cons.IH [OF a(3)] Cons.prems(2) a(1,2) show ?case by simp
qed simp

lemma buckets_ok_new: "buckets_ok farm [] (NewAggregator res)"
  by (simp add: buckets_ok_def NewAggregator_def)

text \<open>
  C20. After any sequence of named stats, an aggregator has an item for exactly the keys of the stats,
  and each item is the aggregate of the stats of its bucket: counts and sums added in the order of
  arrival, the extreme values, the last value; the time is that of the bucket, or that of the stat
  itself while the bucket has only one.
\<close>

theorem aggregator_buckets:
  assumes "\<forall>s \<in> set ss. named s"
  shows "\<exists>sa. ag_add_all farm ss (NewAggregator res) = Some sa \<and>
    (\<forall>k. let g = filter (\<lambda>s. stat_key farm (NewAggregator res) s = k) ss in
      case map_of (ag_Items sa) k of None \<Rightarrow> g = [] | Some e \<Rightarrow> bucket_ok (NewAggregator res) g e)"
proof -
  obtain sa where sa: "ag_add_all farm ss (NewAggregator res) = Some sa"
    "ag_Resolution sa = ag_Resolution (NewAggregator res)" "buckets_ok farm ss sa"
    using ag_add_all_buckets [OF buckets_ok_new assms, of farm res] by auto
  have "stat_key farm sa = stat_key farm (NewAggregator res)" "bucket_ok sa = bucket_ok (NewAggregator res)"
    using resolution_only [OF sa(2)] by simp_all
  then show ?thesis
    using sa(1) buckets_okD [OF sa(3)] by (auto simp: Let_def split: option.splits)
qed

theorem aggregator_buckets_witness:
  "\<exists>sa e. ag_add_all (\<lambda>_. 0) [ex_stat 12, ex_stat 19] (NewAggregator 10000000000) = Some sa \<and>
     map_of (ag_Items sa) (stat_key (\<lambda>_. 0) (NewAggregator 10000000000) (ex_stat 12)) = Some e \<and> sr_Count e = 8"
proof -
  let ?ss = "[ex_stat 12, ex_stat 19]" and ?k = "stat_key (\<lambda>_. 0) (NewAggregator 10000000000) (ex_stat 12)"
  have same: "stat_key (\<lambda>_. 0) (NewAggregator 10000000000) (ex_stat 19) = ?k"
    by (subst same_bucket_lemma [of _ ex_name _ ex_name])
     (simp_all add: NewAggregator_def ToTime_def Truncate_def zero_time_def nanos_def)
  obtain sa where sa: "ag_add_all (\<lambda>_. 0) ?ss (NewAggregator 10000000000) = Some sa"
    "\<forall>k. let g = filter (\<lambda>s. stat_key (\<lambda>_. 0) (NewAggregator 10000000000) s = k) ?ss in
      case map_of (ag_Items sa) k of None \<Rightarrow> g = [] | Some e \<Rightarrow> bucket_ok (NewAggregator 10000000000) g e"
    using aggregator_buckets [of ?ss "\<lambda>_. 0" 10000000000] by (auto simp: named_def)
  then show ?thesis
    using spec [OF sa(2), of ?k] same by (auto simp: Let_def bucket_ok_def split: option.splits)
qed

section \<open>Nothing is lost\<close>

lemma sum_update:
  fixes f :: "'b \<Rightarrow> i64"
  shows "distinct (map fst xs) \<Longrightarrow> sum_list (map (f \<circ> snd) (AList.update k v xs)) =
    sum_list (map (f \<circ> snd) xs) + (case map_of xs k of None \<Rightarrow> f v | Some x \<Rightarrow> f v - f x)"
  by (induction xs) (auto split: option.splits)

lemma ag_add_all_count:
  "\<lbrakk>buckets_ok farm done sa; \<forall>s \<in> set ss. named s; ag_add_all farm ss sa = Some sa'\<rbrakk> \<Longrightarrow>
     sum_list (map (sr_Count \<circ> snd) (ag_Items sa')) =
     sum_list (map (sr_Count \<circ> snd) (ag_Items sa)) + sum_list (map sr_Count ss)"
proof (induction ss arbitrary: "done" sa)
  case (Cons s ss)
  let ?k = "stat_key farm sa s"
  have n: "\<forall>k e. map_of (ag_Items sa) k = Some e \<longrightarrow> named e"
    using buckets_okD(1) [OF Cons.prems(1)] unfolding bucket_ok_def by blast
  from ag_Add_update [OF _ this, of s farm] Cons.prems(2) obtain s1 e nm where
    a: "ag_Add farm s sa = Some (s1, sa\<lparr>ag_Items := AList.update ?k e (ag_Items sa)\<rparr>)"
    and s1: "s1 = s\<lparr>sr_Name := Some nm\<rparr>"
    and e: "case map_of (ag_Items sa) ?k of None \<Rightarrow> e = s1
     | Some x \<Rightarrow> accumulate s1 (UnixNano (ResolutionTime sa (ToTime s))) (u32_of_f64 (Seconds (ag_Resolution sa))) x = Some e"
    by auto
  let ?sa = "sa\<lparr>ag_Items := AList.update ?k e (ag_Items sa)\<rparr>"
  have b: "buckets_ok farm (done @ [s]) ?sa" using ag_Add_buckets [OF Cons.prems(1), of s] Cons.prems(2) a by auto
  have "distinct (map fst (ag_Items sa))" using Cons.prems(1) by (simp add: buckets_ok_def)
  then have "sum_list (map (sr_Count \<circ> snd) (ag_Items ?sa)) = sum_list (map (sr_Count \<circ> snd) (ag_Items sa)) + sr_Count s"
    using e by (cases "map_of (ag_Items sa) ?k") (auto simp: sum_update s1 dest!: accumulate_fields)
  then show ?case using Cons.IH [OF b] Cons.prems(2,3) a by (simp add: add.assoc comp_def)
qed simp

text \<open>
  C21. No sample is lost: the counts of all items of an aggregator, what was taken out of it before
  aside, add up to the counts of all stats that were added.
\<close>

theorem aggregator_conserves_count:
  assumes "\<forall>s \<in> set ss. named s" "ag_add_all farm ss (NewAggregator res) = Some sa"
  shows "sum_list (map sr_Count (fst (GetListAndClear sa))) = sum_list (map sr_Count ss) \<and>
    ag_Len (snd (GetListAndClear sa)) = 0 \<and> sorted (map (\<lambda>s. sint (sr_Time s)) (fst (GetListAndClear sa)))"
proof -
  have "sum_list (map sr_Count (sort_key f xs)) = sum_list (map sr_Count xs)" for f :: "StatRepr \<Rightarrow> int" and xs
    by (metis mset_map mset_sort sum_mset_sum_list)
  then show ?thesis
    using ag_add_all_count [OF buckets_ok_new assms]
    by (simp add: GetListAndClear_def ag_Len_def NewAggregator_def)
qed

theorem aggregator_conserves_count_witness:
  "\<exists>sa. ag_add_all (\<lambda>_. 0) [ex_stat 12, ex_stat 35] (NewAggregator 10000000000) = Some sa \<and>
    sum_list (map sr_Count (fst (GetListAndClear sa))) = 8"
proof -
  have n: "\<forall>s \<in> set [ex_stat 12, ex_stat 35]. named s" by (simp add: named_def)
  obtain sa where sa: "ag_add_all (\<lambda>_. 0) [ex_stat 12, ex_stat 35] (NewAggregator 10000000000) = Some sa"
    using ag_add_all_buckets [OF buckets_ok_new n] by blast
  then show ?thesis using aggregator_conserves_count [OF n sa] by auto
qed

section \<open>The queue of stats\<close>

text \<open>
  The queue a cache stands for: the ids with their lists, the oldest first. An id that is not queued
  goes to the back, and the oldest leaves when the queue is full.
\<close>

type_synonym queue = "(u64 \<times> ReprList) list"

datatype rc_op = RAdd StatRepr | RDelete u64 | RPop | RGet u64

definition q_add :: "int \<Rightarrow> u64 \<Rightarrow> StatRepr \<Rightarrow> queue \<Rightarrow> ReprList option \<times> queue" where
  "q_add n k st q =
     (case map_of q k of
        Some r \<Rightarrow> (None, map (\<lambda>(j, x). (j, if j = k then snd (list_Add st x) else x)) q)
      | None \<Rightarrow>
          if int (length q) \<ge> n then (Some (snd (hd q)), tl q @ [(k, snd (list_Add st new_ReprList))])
          else (None, q @ [(k, snd (list_Add st new_ReprList))]))"

fun q_step :: "(string \<Rightarrow> u64) \<Rightarrow> int \<Rightarrow> rc_op \<Rightarrow> queue \<Rightarrow> (ReprList option \<times> queue) option" where
  "q_step farm n (RAdd st) q = do {
     nm \<leftarrow> sr_Name st;
     let (k, nm1) = UniqueId farm nm;
     Some (q_add n k (st\<lparr>sr_Name := Some nm1\<rparr>) q) }"
| "q_step farm n (RDelete k) q = Some (map_of q k, AList.delete k q)"
| "q_step farm n RPop q = (case q of [] \<Rightarrow> None | (k, r) # q \<Rightarrow> Some (Some r, q))"
| "q_step farm n (RGet k) q = Some (map_of q k, q)"

fun rc_step :: "(string \<Rightarrow> u64) \<Rightarrow> rc_op \<Rightarrow> ReprCache \<Rightarrow> (ReprList option \<times> ReprCache) option" where
  "rc_step farm (RAdd st) s = rc_Add farm st s"
| "rc_step farm (RDelete k) s = rc_Delete k s"
| "rc_step farm RPop s = rc_Pop s"
| "rc_step farm (RGet k) s = Some (rc_Get k s, s)"

definition rc_ok :: "ReprCache \<Rightarrow> bool" where
  "rc_ok s \<longleftrightarrow> distinct (map fst (itemList s)) \<and> distinct (map snd (itemList s)) \<and>
     (\<forall>(a, k) \<in> set (itemList s). a < rc_fresh s \<and> (\<exists>r. rc_cache s k = Some \<lparr>keyele = Some a, reprs = r\<rparr>)) \<and>
     (\<forall>k. rc_cache s k \<noteq> None \<longrightarrow> k \<in> snd ` set (itemList s)) \<and>
     0 < rc_MaxSize s \<and> rc_Len s \<le> rc_MaxSize s"

definition rc_view :: "ReprCache \<Rightarrow> queue" where
  "rc_view s = map (\<lambda>(a, k). (k, reprs (the (rc_cache s k)))) (itemList s)"

lemma rc_ok_new: "rc_ok (NewReprCache n) \<and> rc_view (NewReprCache n) = [] \<and>
    rc_MaxSize (NewReprCache n) = (if n \<le> 0 then 100000 else n)"
  by (simp add: rc_ok_def NewReprCache_def rc_view_def rc_Len_def REPR_CACHE_ITEMS_def)

lemma rc_okD:
  assumes "rc_ok s" "rc_cache s k = Some it"
  obtains a where "(a, k) \<in> set (itemList s)" "it = \<lparr>keyele = Some a, reprs = reprs it\<rparr>"
proof -
  from assms obtain a where a: "(a, k) \<in> set (itemList s)" by (fastforce simp: rc_ok_def)
  with assms obtain r where "it = \<lparr>keyele = Some a, reprs = r\<rparr>" by (fastforce simp: rc_ok_def)
  with a that show ?thesis by auto
qed

lemma map_of_rc_view: 
  assumes "rc_ok s"
  shows "map_of (rc_view s) k = map_option reprs (rc_cache s k)"
proof (cases "rc_cache s k")
  case None
  then have "k \<notin> snd ` set (itemList s)" using assms by (force simp: rc_ok_def)
  then show ?thesis using None by (force simp: rc_view_def map_of_eq_None_iff)
next
  case (Some it)
  have d: "distinct (map fst (rc_view s))" using assms by (simp add: rc_ok_def rc_view_def comp_def split_beta)
  obtain a where "(a, k) \<in> set (itemList s)" using rc_okD [OF assms Some] .
  then have "(k, reprs it) \<in> set (rc_view s)" using Some by (force simp: rc_view_def)
  then show ?thesis using d Some by simp
qed

text \<open>Taking out an element, by its address or by its id.\<close>

lemma rc_ok_inj:
  assumes "rc_ok s" "(a, k) \<in> set (itemList s)" "(b, j) \<in> set (itemList s)"
  shows "b = a \<longleftrightarrow> j = k"
  using assms inj_onD [of fst "set (itemList s)" "(a, k)" "(b, j)"] inj_onD [of snd "set (itemList s)" "(a, k)" "(b, j)"]
  by (auto simp: rc_ok_def distinct_map)

lemma rc_remove:
  assumes "rc_ok s" "(a, k) \<in> set (itemList s)"
  defines "s' \<equiv> (remove_ele a s)\<lparr>rc_cache := (rc_cache s)(k := None)\<rparr>"
  shows "rc_ok s'" "rc_view s' = AList.delete k (rc_view s)" "rc_MaxSize s' = rc_MaxSize s" "rc_fresh s' = rc_fresh s"
proof -
  have l: "itemList s' = filter (\<lambda>x. k \<noteq> snd x) (itemList s)"
    unfolding s'_def remove_ele_def using rc_ok_inj [OF assms(1,2)] by (force intro: filter_cong)
  have c: "rc_cache s' = (rc_cache s)(k := None)" by (simp add: s'_def)
  show m: "rc_MaxSize s' = rc_MaxSize s" "rc_fresh s' = rc_fresh s" by (simp_all add: s'_def remove_ele_def)
  show "rc_view s' = AList.delete k (rc_view s)"
    unfolding rc_view_def l c AList.delete_eq filter_map by (rule map_cong) (auto simp: comp_def split_beta)
  have "length (itemList s') \<le> length (itemList s)" unfolding l by (rule length_filter_le)
  moreover have "distinct (map fst (itemList s'))" "distinct (map snd (itemList s'))"
    using assms(1) unfolding rc_ok_def l by (simp_all add: distinct_map_filter)
  moreover have "\<forall>(b, j) \<in> set (itemList s'). b < rc_fresh s' \<and> (\<exists>r. rc_cache s' j = Some \<lparr>keyele = Some b, reprs = r\<rparr>)"
    using assms(1) unfolding rc_ok_def l c m by auto
  moreover have "\<forall>j. rc_cache s' j \<noteq> None \<longrightarrow> j \<in> snd ` set (itemList s')"
    using assms(1) unfolding rc_ok_def l c by (force split: if_splits)
  ultimately show "rc_ok s'"
    using assms(1) unfolding rc_ok_def rc_Len_def m by simp
qed

lemma rc_push:
  fixes r :: ReprList
  assumes "rc_ok s" "rc_cache s k = None" "rc_Len s < rc_MaxSize s"
  defines "s' \<equiv> s\<lparr>itemList := itemList s @ [(rc_fresh s, k)], rc_fresh := Suc (rc_fresh s),
    rc_cache := (rc_cache s)(k \<mapsto> \<lparr>keyele = Some (rc_fresh s), reprs = r\<rparr>)\<rparr>"
  shows "rc_ok s'" "rc_view s' = rc_view s @ [(k, r)]" "rc_MaxSize s' = rc_MaxSize s"
proof -
  have new: "\<forall>(b, j) \<in> set (itemList s). b < rc_fresh s \<and> j \<noteq> k"
    using assms(1,2) by (auto simp: rc_ok_def)
  then show "rc_view s' = rc_view s @ [(k, r)]"
    by (auto simp: rc_view_def s'_def)
  show "rc_MaxSize s' = rc_MaxSize s" by (simp add: s'_def)
  show "rc_ok s'"
    using assms(1,3) new unfolding rc_ok_def
    by (auto simp: s'_def rc_Len_def split: if_splits)
qed

lemma rc_modify:
  fixes f :: "ReprList \<Rightarrow> ReprList"
  assumes "rc_ok s" "rc_cache s k = Some it"
  defines "s' \<equiv> s\<lparr>rc_cache := (rc_cache s)(k \<mapsto> it\<lparr>reprs := f (reprs it)\<rparr>)\<rparr>"
  shows "rc_ok s'" "rc_view s' = map (\<lambda>(j, x). (j, if j = k then f x else x)) (rc_view s)"
    "rc_MaxSize s' = rc_MaxSize s"
proof -
  show "rc_view s' = map (\<lambda>(j, x). (j, if j = k then f x else x)) (rc_view s)"
    using assms(2) by (auto simp: rc_view_def s'_def)
  show "rc_MaxSize s' = rc_MaxSize s" by (simp add: s'_def)
  obtain a where a: "(a, k) \<in> set (itemList s)" "it = \<lparr>keyele = Some a, reprs = reprs it\<rparr>"
    using rc_okD [OF assms(1,2)] .
  have "it\<lparr>reprs := f (reprs it)\<rparr> = \<lparr>keyele = Some a, reprs = f (reprs it)\<rparr>" by (subst a(2)) simp
  moreover have "b = a" if "(b, k) \<in> set (itemList s)" for b
    using rc_ok_inj [OF assms(1) a(1) that] by simp
  ultimately have "\<forall>(b, j) \<in> set (itemList s). \<exists>r. rc_cache s' j = Some \<lparr>keyele = Some b, reprs = r\<rparr>"
    using assms(1) unfolding rc_ok_def s'_def by auto
  moreover have "\<forall>j. rc_cache s' j \<noteq> None \<longrightarrow> j \<in> snd ` set (itemList s)"
    using assms(1,2) unfolding rc_ok_def s'_def by (auto split: if_splits)
  ultimately show "rc_ok s'"
    using assms(1) unfolding rc_ok_def rc_Len_def by (auto simp: s'_def)
qed

lemma rc_front:
  assumes "rc_ok s" "itemList s = (a, k) # xs"
  shows "\<exists>r. rc_cache s k = Some \<lparr>keyele = Some a, reprs = r\<rparr> \<and>
    rc_view s = (k, r) # AList.delete k (rc_view s)"
proof -
  obtain r where r: "rc_cache s k = Some \<lparr>keyele = Some a, reprs = r\<rparr>"
    using assms by (auto simp: rc_ok_def)
  have "k \<notin> snd ` set xs" using assms by (simp add: rc_ok_def)
  then have "AList.delete k (map (\<lambda>(a, k). (k, reprs (the (rc_cache s k)))) xs) =
      map (\<lambda>(a, k). (k, reprs (the (rc_cache s k)))) xs"
    by (induction xs) auto
  then show ?thesis using r assms(2) by (simp add: rc_view_def)
qed

lemma checkSize_ok:
  assumes "rc_ok s"
  shows "\<exists>s'. checkSize s = Some (if int (length (rc_view s)) \<ge> rc_MaxSize s then Some (snd (hd (rc_view s))) else None, s') \<and>
    rc_ok s' \<and> rc_view s' = (if int (length (rc_view s)) \<ge> rc_MaxSize s then tl (rc_view s) else rc_view s) \<and>
    rc_MaxSize s' = rc_MaxSize s \<and> rc_Len s' < rc_MaxSize s' \<and> (\<forall>k. rc_cache s k = None \<longrightarrow> rc_cache s' k = None)"
proof (cases "rc_Len s \<ge> rc_MaxSize s")
  case False
  then show ?thesis using assms by (simp add: checkSize_def rc_view_def rc_Len_def)
next
  case True
  then have "itemList s \<noteq> []" using assms by (auto simp: rc_ok_def rc_Len_def)
  then obtain a k xs where l: "itemList s = (a, k) # xs" by (metis neq_Nil_conv surj_pair)
  then have m: "(a, k) \<in> set (itemList s)" by simp
  from rc_front [OF assms l] obtain r where r: "rc_cache s k = Some \<lparr>keyele = Some a, reprs = r\<rparr>"
    "rc_view s = (k, r) # AList.delete k (rc_view s)" by blast
  let ?s = "(remove_ele a s)\<lparr>rc_cache := (rc_cache s)(k := None)\<rparr>"
  note q = rc_remove [OF assms m]
  have len: "int (length (rc_view s)) = rc_Len s" for s by (simp add: rc_view_def rc_Len_def)
  have "rc_Len ?s < rc_MaxSize s"
    using arg_cong [OF r(2), of length] assms q(2) len [of s] len [of ?s] by (simp add: rc_ok_def)
  moreover have "checkSize s = Some (Some r, ?s)"
    using True l r(1) by (simp add: checkSize_def remove_ele_def)
  moreover have "hd (rc_view s) = (k, r)" "tl (rc_view s) = AList.delete k (rc_view s)"
    by (subst r(2), simp)+
  ultimately show ?thesis
    using q(1-3) True by (simp add: len)
qed

lemma rc_Add_refines:
  assumes "rc_ok s" "sr_Name st = Some nm" "UniqueId farm nm = (k, nm1)"
  shows "\<exists>s'. rc_Add farm st s = Some (fst (q_add (rc_MaxSize s) k (st\<lparr>sr_Name := Some nm1\<rparr>) (rc_view s)), s') \<and>
    rc_ok s' \<and> rc_view s' = snd (q_add (rc_MaxSize s) k (st\<lparr>sr_Name := Some nm1\<rparr>) (rc_view s)) \<and>
    rc_MaxSize s' = rc_MaxSize s"
proof (cases "rc_cache s k")
  case None
  then have n: "map_of (rc_view s) k = None" using map_of_rc_view [OF assms(1)] by simp
  obtain s1 where s1: "checkSize s = Some (if int (length (rc_view s)) \<ge> rc_MaxSize s then Some (snd (hd (rc_view s))) else None, s1)"
    "rc_ok s1" "rc_view s1 = (if int (length (rc_view s)) \<ge> rc_MaxSize s then tl (rc_view s) else rc_view s)"
    "rc_MaxSize s1 = rc_MaxSize s" "rc_Len s1 < rc_MaxSize s1" "rc_cache s1 k = None"
    using checkSize_ok [OF assms(1)] None by blast
  note p = rc_push [OF s1(2,6,5), of "snd (list_Add (st\<lparr>sr_Name := Some nm1\<rparr>) new_ReprList)"]
  show ?thesis
    using p s1(1,3,4) None n assms(2,3) by (simp add: rc_Add_def q_add_def Let_def)
next
  case (Some it)
  then have n: "map_of (rc_view s) k = Some (reprs it)" using map_of_rc_view [OF assms(1)] by simp
  note p = rc_modify [OF assms(1) Some, of "\<lambda>r. snd (list_Add (st\<lparr>sr_Name := Some nm1\<rparr>) r)"]
  show ?thesis using p Some n assms(2,3) by (simp add: rc_Add_def q_add_def Let_def)
qed

lemma rc_step_refines:
  assumes "rc_ok s"
  shows "case q_step farm (rc_MaxSize s) op (rc_view s) of
      None \<Rightarrow> rc_step farm op s = None
    | Some (r, q) \<Rightarrow> \<exists>s'. rc_step farm op s = Some (r, s') \<and> rc_ok s' \<and> rc_view s' = q \<and> rc_MaxSize s' = rc_MaxSize s"
proof (cases op)
  case (RAdd st)
  show ?thesis
  proof (cases "sr_Name st")
    case None
    then show ?thesis by (simp add: RAdd rc_Add_def)
  next
    case (Some nm)
    obtain k nm1 where u: "UniqueId farm nm = (k, nm1)" by fastforce
    show ?thesis using rc_Add_refines [OF assms Some u] by (simp add: RAdd Some u split_beta)
  qed
next
  case (RDelete k)
  show ?thesis
  proof (cases "rc_cache s k")
    case None
    then have n: "map_of (rc_view s) k = None" using map_of_rc_view [OF assms] by simp
    then have "AList.delete k (rc_view s) = rc_view s" by (simp add: map_of_eq_None_iff)
    then show ?thesis using None n assms by (simp add: RDelete rc_Delete_def)
  next
    case (Some it)
    obtain a where a: "(a, k) \<in> set (itemList s)" "it = \<lparr>keyele = Some a, reprs = reprs it\<rparr>" using rc_okD [OF assms Some] .
    have "keyele it = Some a" by (subst a(2)) simp
    moreover have "map_of (rc_view s) k = Some (reprs it)" using map_of_rc_view [OF assms] Some by simp
    ultimately show ?thesis using rc_remove [OF assms a(1)] Some by (simp add: RDelete rc_Delete_def remove_ele_def)
  qed
next
  case RPop
  show ?thesis
  proof (cases "itemList s")
    case Nil
    then show ?thesis by (simp add: RPop rc_Pop_def rc_view_def)
  next
    case (Cons x xs)
    then obtain a k where l: "itemList s = (a, k) # xs" by (cases x) auto
    then have m: "(a, k) \<in> set (itemList s)" by simp
    from rc_front [OF assms l] obtain r where r: "rc_cache s k = Some \<lparr>keyele = Some a, reprs = r\<rparr>"
      "rc_view s = (k, r) # AList.delete k (rc_view s)" by blast
    have "q_step farm (rc_MaxSize s) op (rc_view s) = Some (Some r, AList.delete k (rc_view s))"
      unfolding RPop by (subst r(2)) simp
    moreover have "remove_ele a (s\<lparr>rc_cache := c\<rparr>) = (remove_ele a s)\<lparr>rc_cache := c\<rparr>" for c
      by (cases s) (simp add: remove_ele_def)
    ultimately show ?thesis using rc_remove [OF assms m] l r(1) by (simp add: RPop rc_Pop_def)
  qed
next
  case (RGet k)
  then show ?thesis using assms by (simp add: rc_Get_def map_of_rc_view)
qed

fun rc_run :: "(string \<Rightarrow> u64) \<Rightarrow> rc_op list \<Rightarrow> ReprCache \<Rightarrow> (ReprList option list \<times> ReprCache) option" where
  "rc_run farm [] s = Some ([], s)"
| "rc_run farm (op # ops) s = do {
     (r, s) \<leftarrow> rc_step farm op s;
     (rs, s) \<leftarrow> rc_run farm ops s;
     Some (r # rs, s) }"

fun q_run :: "(string \<Rightarrow> u64) \<Rightarrow> int \<Rightarrow> rc_op list \<Rightarrow> queue \<Rightarrow> (ReprList option list \<times> queue) option" where
  "q_run farm n [] q = Some ([], q)"
| "q_run farm n (op # ops) q = do {
     (r, q) \<leftarrow> q_step farm n op q;
     (rs, q) \<leftarrow> q_run farm n ops q;
     Some (r # rs, q) }"

lemma rc_run_refines:
  "rc_ok s \<Longrightarrow> case q_run farm (rc_MaxSize s) ops (rc_view s) of
      None \<Rightarrow> rc_run farm ops s = None
    | Some (rs, q) \<Rightarrow> \<exists>s'. rc_run farm ops s = Some (rs, s') \<and> rc_ok s' \<and> rc_view s' = q \<and> rc_MaxSize s' = rc_MaxSize s"
proof (induction ops arbitrary: s)
  case (Cons op ops)
  show ?case
  proof (cases "q_step farm (rc_MaxSize s) op (rc_view s)")
    case None
    then show ?thesis using rc_step_refines [OF Cons.prems, of farm op] by simp
  next
    case (Some rq)
    then obtain r q s1 where s1: "rq = (r, q)" "rc_step farm op s = Some (r, s1)" "rc_ok s1" "rc_view s1 = q"
      "rc_MaxSize s1 = rc_MaxSize s" using rc_step_refines [OF Cons.prems, of farm op] by (cases rq) auto
    show ?thesis
      using Cons.IH [OF s1(3)] s1 Some by (cases "q_run farm (rc_MaxSize s) ops q") (auto split: prod.splits)
  qed
qed simp

text \<open>
  C22. The cache of stats is a bounded queue: from a new cache, any sequence of calls gives the answers
  of the queue of its ids, which drops and returns its oldest list when a new id finds it full, and
  the number of ids never exceeds the size. Where the queue has no answer, for \<open>Pop\<close> on an empty
  queue or a stat without a name, the code panics. The queue is first in, first out: neither \<open>Get\<close> nor
  \<open>Add\<close> of a known id moves the id to the back, although the comment at the head of the file
  promises to keep the ids used last.
\<close>

theorem repr_cache_is_queue:
  "case q_run farm (if n \<le> 0 then 100000 else n) ops [] of
     None \<Rightarrow> rc_run farm ops (NewReprCache n) = None
   | Some (rs, q) \<Rightarrow> \<exists>s. rc_run farm ops (NewReprCache n) = Some (rs, s) \<and> rc_view s = q \<and>
       rc_Len s = int (length q) \<and> rc_Len s \<le> rc_MaxSize s"
proof -
  define m :: int where "m = (if n \<le> 0 then 100000 else n)"
  have len: "int (length (rc_view s)) = rc_Len s" for s by (simp add: rc_view_def rc_Len_def)
  have bound: "rc_ok s \<Longrightarrow> rc_Len s \<le> rc_MaxSize s" for s by (simp add: rc_ok_def)
  show ?thesis
    using rc_run_refines [of "NewReprCache n" farm ops] rc_ok_new [of n] unfolding m_def [symmetric]
    by (cases "q_run farm m ops []") (auto simp: len dest: bound)
qed

end
