(* ===== verification/Metrics.thy ===== *)
theory Metrics
  imports Repr
begin

text \<open>
  Rendered series: \<^verbatim>\<open>server/schemas/metrics/metrics.go\<close> with the structures of \<^verbatim>\<open>metrics.proto\<close>.
  The data of a series is a slice of pointers to points, so a list with \<^const>\<open>None\<close> for nil. A
  panic (nil pointer, index out of range, division by zero) is \<^const>\<open>None\<close>, and so is a loop that does
  not end; an error comes with the item as it is then. Times and steps are \<^verbatim>\<open>uint32\<close> and wrap around.
  An iterator over a stored series is the list of the values it yields. Points taken over into a
  result are shared with the series they come from; that series is not used afterwards.
\<close>

datatype metric_error = ErrMergeStepSizeError | ErrQuantizeStepTooSmall | ErrQuantizeStepTooManyPoints

section \<open>Points\<close>

record DataPoint =
  dp_Time :: u32
  dp_Value :: f64

definition NewDataPoint :: "u32 \<Rightarrow> f64 \<Rightarrow> DataPoint" where
  "NewDataPoint time val = \<lparr>dp_Time = time, dp_Value = val\<rparr>"

text \<open>The receiver is a copy, which the method changes and drops.\<close>

definition SetValue :: "DataPoint \<Rightarrow> f64 \<Rightarrow> DataPoint" where
  "SetValue d val = d"

record RawDataPoint =
  rp_Time :: u32
  rp_Sum :: f64
  rp_Min :: f64
  rp_Max :: f64
  rp_Last :: f64
  rp_Count :: i64

definition NullRawDataPoint :: "u32 \<Rightarrow> RawDataPoint" where
  "NullRawDataPoint time = \<lparr>rp_Time = time, rp_Sum = NaN, rp_Min = NaN, rp_Max = NaN, rp_Last = NaN, rp_Count = 0\<rparr>"

definition rp_IsNull :: "RawDataPoint \<Rightarrow> bool" where
  "rp_IsNull r \<longleftrightarrow> IsNaN (rp_Sum r) \<and> IsNaN (rp_Last r) \<and> IsNaN (rp_Min r) \<and> IsNaN (rp_Max r)"

definition MakeNull :: "u32 \<Rightarrow> RawDataPoint \<Rightarrow> RawDataPoint" where
  "MakeNull t0 r = r\<lparr>rp_Count := 0, rp_Time := t0, rp_Sum := NaN, rp_Last := NaN, rp_Min := NaN, rp_Max := NaN\<rparr>"

text \<open>A point from the pool holds what its last user left, until \<open>MakeNull\<close>.\<close>

definition GetNullRawDataPoint :: "RawDataPoint option \<Rightarrow> u32 \<Rightarrow> RawDataPoint" where
  "GetNullRawDataPoint pooled t0 = (case pooled of None \<Rightarrow> NullRawDataPoint t0 | Some d \<Rightarrow> MakeNull t0 d)"

definition rp_AggValue :: "u32 \<Rightarrow> RawDataPoint \<Rightarrow> f64" where
  "rp_AggValue aggfunc r =
     (if rp_Count r = 1 then rp_Sum r
      else if aggfunc = agg_SUM then rp_Sum r
      else if aggfunc = agg_MIN then rp_Min r
      else if aggfunc = agg_MAX then rp_Max r
      else if aggfunc = agg_LAST then rp_Last r
      else if aggfunc = agg_COUNT then f64_of_i64 (rp_Count r)
      else if sint (rp_Count r) > 0 then f64_div (rp_Sum r) (f64_of_i64 (rp_Count r))
      else NaN)"

text \<open>The steps of the merge of two points, in the order of the code.\<close>

definition merge_max :: "RawDataPoint \<Rightarrow> RawDataPoint \<Rightarrow> RawDataPoint" where
  "merge_max d r = (if IsNaN (rp_Max r) \<or> f64_lt (rp_Max r) (rp_Max d) then r\<lparr>rp_Max := rp_Max d\<rparr> else r)"

definition merge_min :: "RawDataPoint \<Rightarrow> RawDataPoint \<Rightarrow> RawDataPoint" where
  "merge_min d r = (if IsNaN (rp_Min r) \<or> f64_lt (rp_Min d) (rp_Min r) then r\<lparr>rp_Min := rp_Min d\<rparr> else r)"

definition merge_sum :: "RawDataPoint \<Rightarrow> RawDataPoint \<Rightarrow> RawDataPoint" where
  "merge_sum d r =
     (if IsNaN (rp_Sum r) \<and> \<not> IsNaN (rp_Sum d) then r\<lparr>rp_Sum := rp_Sum d\<rparr>
      else if \<not> IsNaN (rp_Sum r) \<and> \<not> IsNaN (rp_Sum d) then r\<lparr>rp_Sum := f64_add (rp_Sum r) (rp_Sum d)\<rparr>
      else r)"

definition merge_last :: "RawDataPoint \<Rightarrow> RawDataPoint \<Rightarrow> RawDataPoint" where
  "merge_last d r =
     (let r = (if rp_Time d \<noteq> 0 \<and> rp_Time d > rp_Time r \<and> \<not> IsNaN (rp_Last d) then r\<lparr>rp_Last := rp_Last d\<rparr> else r)
      in if IsNaN (rp_Last r) \<and> \<not> IsNaN (rp_Last d) then r\<lparr>rp_Last := rp_Last d\<rparr> else r)"

definition merge_count :: "RawDataPoint \<Rightarrow> RawDataPoint \<Rightarrow> RawDataPoint" where
  "merge_count d r =
     (if rp_Count r = 0 \<and> sint (rp_Count d) > 0 then r\<lparr>rp_Count := rp_Count d\<rparr>
      else if sint (rp_Count r) > 0 \<and> sint (rp_Count d) > 0 then r\<lparr>rp_Count := rp_Count r + rp_Count d\<rparr>
      else r)"

definition merge_time :: "RawDataPoint \<Rightarrow> RawDataPoint \<Rightarrow> RawDataPoint" where
  "merge_time d r = (if rp_Time r < rp_Time d then r\<lparr>rp_Time := rp_Time d\<rparr> else r)"

definition rp_Merge :: "RawDataPoint \<Rightarrow> RawDataPoint \<Rightarrow> RawDataPoint" where
  "rp_Merge r d =
     (if rp_IsNull d then r
      else merge_time d (merge_count d (merge_last d (merge_sum d (merge_min d (merge_max d r))))))"

section \<open>Series\<close>

record RawRenderItem =
  ri_Metric :: string
  ri_Id :: string
  RealStart :: u32
  RealEnd :: u32
  ri_Start :: u32
  ri_End :: u32
  Step :: u32
  ri_AggFunc :: u32
  ri_Tags :: "Tag list"
  ri_MetaTags :: "Tag list"
  ri_Data :: "RawDataPoint option list"
  InCache :: bool
  UsingCache :: bool

definition new_RawRenderItem :: RawRenderItem where
  "new_RawRenderItem = \<lparr>ri_Metric = '''', ri_Id = '''', RealStart = 0, RealEnd = 0, ri_Start = 0, ri_End = 0,
     Step = 0, ri_AggFunc = 0, ri_Tags = [], ri_MetaTags = [], ri_Data = [], InCache = False, UsingCache = False\<rparr>"

text \<open>
  \<open>sort.Sort\<close> by time compares every element of two or more, so a nil among them panics. It is
  not stable; the stable sort here gives one of the orders it may give, the only one when the times differ.
\<close>

definition list_Less :: "RawDataPoint option list \<Rightarrow> nat \<Rightarrow> nat \<Rightarrow> bool option" where
  "list_Less v i j = do { a \<leftarrow> v ! i; b \<leftarrow> v ! j; Some (rp_Time a < rp_Time b) }"

definition sort_points :: "RawDataPoint list \<Rightarrow> RawDataPoint list" where
  "sort_points ps = sort_key (\<lambda>p. uint (rp_Time p)) ps"

definition sort_data :: "RawDataPoint option list \<Rightarrow> RawDataPoint option list option" where
  "sort_data v =
     (if length v \<le> 1 then Some v
      else if list_ex (\<lambda>p. p = None) v then None
      else Some (map Some (sort_points (map the v))))"

text \<open>What an iterator yields: time in nanoseconds, minimum, maximum, last, sum and count.\<close>

type_synonym values6 = "i64 \<times> f64 \<times> f64 \<times> f64 \<times> f64 \<times> i64"

definition point_of :: "values6 \<Rightarrow> RawDataPoint" where
  "point_of v = (case v of (to, mi, mx, ls, su, ct) \<Rightarrow>
     \<lparr>rp_Time = word_of_int (unix_sec to), rp_Sum = su, rp_Min = mi, rp_Max = mx, rp_Last = ls, rp_Count = ct\<rparr>)"

definition set_bounds :: "RawRenderItem \<Rightarrow> RawRenderItem option" where
  "set_bounds rawd =
     (if length (ri_Data rawd) > 0 then do {
        ds \<leftarrow> sort_data (ri_Data rawd);
        a \<leftarrow> hd ds;
        b \<leftarrow> last ds;
        Some (rawd\<lparr>ri_Data := ds, RealStart := rp_Time a, ri_Start := rp_Time a,
          ri_End := rp_Time b, RealEnd := rp_Time b\<rparr>) }
      else Some rawd)"

definition NewRawRenderItemFromSeriesIter :: "values6 list \<Rightarrow> RawRenderItem option" where
  "NewRawRenderItemFromSeriesIter iter =
     set_bounds (new_RawRenderItem\<lparr>ri_Data := map (Some \<circ> point_of) iter\<rparr>)"

definition NewRawRenderItemFromSeries ::
  "(string \<Rightarrow> u64) \<Rightarrow> StatName \<Rightarrow> 'e + values6 list \<Rightarrow> ('e + RawRenderItem) option" where
  "NewRawRenderItemFromSeries farm nm s_iter =
     (case s_iter of
        Inl err \<Rightarrow> Some (Inl err)
      | Inr iter \<Rightarrow> do {
          rawd \<leftarrow> NewRawRenderItemFromSeriesIter iter;
          let (uid, nm1) = UniqueIdString farm nm;
          Some (Inr (rawd\<lparr>ri_Id := uid, ri_MetaTags := MetaTags nm1, ri_Tags := nm_Tags nm1,
            ri_Metric := Key nm1, Step := nm_Resolution nm1\<rparr>)) })"

section \<open>Stored series\<close>

text \<open>The bytes of a stored series go through the iterator of its format, \<open>Iter\<close>.\<close>

record DBSeries =
  db_Uid :: string
  db_Start :: i64
  db_End :: i64
  Ptype :: u8
  Pbytes :: "u8 list"
  db_Resolution :: u32
  db_TTL :: u32

fun db_start :: "DBSeries list \<Rightarrow> bool \<Rightarrow> i64 \<Rightarrow> i64" where
  "db_start [] first t_s = t_s"
| "db_start (d # mb) first t_s =
     db_start mb False
       (if first \<or> (sint (db_Start d) < sint t_s \<and> db_Start d \<noteq> 0) then db_Start d else t_s)"

definition list_Start :: "DBSeries list \<Rightarrow> i64" where
  "list_Start mb = db_start mb True 0"

fun db_end :: "DBSeries list \<Rightarrow> bool \<Rightarrow> i64 \<Rightarrow> i64" where
  "db_end [] first t_s = t_s"
| "db_end (d # mb) first t_s = db_end mb False (if first \<or> sint (db_End d) > sint t_s then db_End d else t_s)"

definition list_End :: "DBSeries list \<Rightarrow> i64" where
  "list_End mb = db_end mb True 0"

fun collect :: "(DBSeries \<Rightarrow> 'e + values6 list) \<Rightarrow> DBSeries list \<Rightarrow> 'e + values6 list" where
  "collect Iter [] = Inr []"
| "collect Iter (d # mb) =
     (case Iter d of
        Inl err \<Rightarrow> Inl err
      | Inr vs \<Rightarrow> (case collect Iter mb of Inl err \<Rightarrow> Inl err | Inr ws \<Rightarrow> Inr (vs @ ws)))"

definition ToRawRenderItem ::
  "(DBSeries \<Rightarrow> 'e + values6 list) \<Rightarrow> DBSeries list \<Rightarrow> ('e + RawRenderItem) option" where
  "ToRawRenderItem Iter mb =
     (case collect Iter mb of
        Inl err \<Rightarrow> Some (Inl err)
      | Inr vs \<Rightarrow> map_option Inr (set_bounds (new_RawRenderItem\<lparr>ri_Data := map (Some \<circ> point_of) vs\<rparr>)))"

definition ToRawRenderItemBounds ::
  "(DBSeries \<Rightarrow> 'e + values6 list) \<Rightarrow> i64 \<Rightarrow> i64 \<Rightarrow> DBSeries list \<Rightarrow> ('e + RawRenderItem) option" where
  "ToRawRenderItemBounds Iter sTime eTime mb =
     (case collect Iter mb of
        Inl err \<Rightarrow> Some (Inl err)
      | Inr vs \<Rightarrow> map_option Inr (set_bounds (new_RawRenderItem\<lparr>ri_Data :=
          map (Some \<circ> point_of) (filter (\<lambda>v. \<not> (sint (fst v) < sint sTime \<or> sint (fst v) > sint eTime)) vs)\<rparr>)))"

text \<open>Points of the same second as the one before them are merged into it, the last of the list.\<close>

fun pool_points :: "values6 list \<Rightarrow> u32 \<Rightarrow> RawDataPoint list \<Rightarrow> RawDataPoint list" where
  "pool_points [] lastT acc = acc"
| "pool_points (v # vs) lastT acc =
     (let pt = point_of v in
      if lastT = rp_Time pt \<and> acc \<noteq> []
      then pool_points vs lastT (butlast acc @ [rp_Merge (last acc) pt])
      else pool_points vs (rp_Time pt) (acc @ [pt]))"

definition ToRawRenderItemPool ::
  "(DBSeries \<Rightarrow> 'e + values6 list) \<Rightarrow> DBSeries list \<Rightarrow> ('e + RawRenderItem) option" where
  "ToRawRenderItemPool Iter mb =
     (case collect Iter mb of
        Inl err \<Rightarrow> Some (Inl err)
      | Inr vs \<Rightarrow> map_option Inr (set_bounds (new_RawRenderItem\<lparr>ri_Data := map Some (pool_points vs 0 [])\<rparr>)))"

definition ToRawRenderItemBoundsPool ::
  "(DBSeries \<Rightarrow> 'e + values6 list) \<Rightarrow> i64 \<Rightarrow> i64 \<Rightarrow> DBSeries list \<Rightarrow> ('e + RawRenderItem) option" where
  "ToRawRenderItemBoundsPool Iter sTime eTime mb =
     (case collect Iter mb of
        Inl err \<Rightarrow> Some (Inl err)
      | Inr vs \<Rightarrow> map_option Inr (set_bounds (new_RawRenderItem\<lparr>ri_Data := map Some (pool_points
          (filter (\<lambda>v. \<not> (sint (fst v) \<le> 0 \<or> sint (fst v) < sint sTime \<or> sint (fst v) > sint eTime)) vs) 0 [])\<rparr>)))"

section \<open>Reading a series\<close>

definition ri_Len :: "RawRenderItem \<Rightarrow> int" where
  "ri_Len r = int (length (ri_Data r))"

definition ri_Copy :: "RawRenderItem \<Rightarrow> RawRenderItem" where
  "ri_Copy r = new_RawRenderItem\<lparr>ri_AggFunc := ri_AggFunc r, ri_End := ri_End r, ri_Id := ri_Id r, Step := Step r,
     ri_Start := ri_Start r, RealEnd := RealEnd r, RealStart := RealStart r, ri_Tags := ri_Tags r,
     ri_MetaTags := ri_MetaTags r, ri_Metric := ri_Metric r, InCache := InCache r, UsingCache := UsingCache r,
     ri_Data := ri_Data r\<rparr>"

definition DataInRange :: "u32 \<Rightarrow> u32 \<Rightarrow> RawRenderItem \<Rightarrow> bool" where
  "DataInRange start end' r \<longleftrightarrow> RealStart r \<ge> start \<and> end' \<le> RealEnd r"

definition StartInRange :: "u32 \<Rightarrow> RawRenderItem \<Rightarrow> bool" where
  "StartInRange start r \<longleftrightarrow> start \<ge> RealStart r"

fun to_data_points :: "u32 \<Rightarrow> RawDataPoint option list \<Rightarrow> DataPoint list option" where
  "to_data_points agg [] = Some []"
| "to_data_points agg (p # ps) = do {
     d \<leftarrow> p;
     let pt = SetValue (\<lparr>dp_Time = rp_Time d, dp_Value = 0\<rparr>) (rp_AggValue agg d);
     rest \<leftarrow> to_data_points agg ps;
     Some (pt # rest) }"

definition ToDataPoint :: "RawRenderItem \<Rightarrow> DataPoint list option" where
  "ToDataPoint r = to_data_points (ri_AggFunc r) (ri_Data r)"

fun truncate_scan :: "u32 \<Rightarrow> u32 \<Rightarrow> nat \<Rightarrow> RawDataPoint option list \<Rightarrow> nat option \<times> nat \<Rightarrow> (nat option \<times> nat) option" where
  "truncate_scan start end' i [] idx = Some idx"
| "truncate_scan start end' i (p # ps) idx = do {
     d \<leftarrow> p;
     truncate_scan start end' (Suc i) ps
       (if rp_Time d \<ge> start \<and> rp_Time d \<le> end'
        then (case fst idx of None \<Rightarrow> Some i | Some j \<Rightarrow> Some j, i) else idx) }"

definition TruncateTo :: "u32 \<Rightarrow> u32 \<Rightarrow> RawRenderItem \<Rightarrow> (int \<times> RawRenderItem) option" where
  "TruncateTo start end' r = do {
     (idxStart, idxEnd) \<leftarrow> truncate_scan start end' 0 (ri_Data r) (None, length (ri_Data r));
     let r1 = (case idxStart of None \<Rightarrow> r
       | Some i \<Rightarrow> r\<lparr>ri_Data := take (idxEnd - i) (drop i (ri_Data r))\<rparr>);
     if length (ri_Data r1) > 0 then do {
       b \<leftarrow> last (ri_Data r1);
       a \<leftarrow> hd (ri_Data r1);
       Some (ri_Len r1, r1\<lparr>RealEnd := rp_Time b, RealStart := rp_Time a\<rparr>) }
     else Some (ri_Len r1, r1) }"

end
