(* ===== verification/Quantize.thy ===== *)
theory Quantize
  imports Metrics
begin

text \<open>
  Resampling, quantizing and merging of rendered series, from \<^verbatim>\<open>server/schemas/metrics/metrics.go\<close>.
  The counter of a loop over the data is the list of what is left of the data, except where the code
  indexes out of order. The loops over times run while the time is at most the end; the time
  wraps around, and where no index stops such a loop it may run forever, which \<^const>\<open>None\<close> stands for.
\<close>

definition MAX_QUANTIZE_POINTS :: u32 where
  "MAX_QUANTIZE_POINTS = 100000"

text \<open>All points merged into one.\<close>

fun merge_into :: "RawDataPoint \<Rightarrow> RawDataPoint option list \<Rightarrow> RawDataPoint option" where
  "merge_into acc [] = Some acc"
| "merge_into acc (p # ps) = do { d \<leftarrow> p; merge_into (rp_Merge acc d) ps }"

definition align_up :: "u32 \<Rightarrow> u32 \<Rightarrow> u32" where
  "align_up start step = (let left = start mod step in if left \<noteq> 0 then start + step - left else start)"

definition end_time :: "u32 \<Rightarrow> u32 \<Rightarrow> u32" where
  "end_time end' step = (end' - 1) - ((end' - 1) mod step) + step"

section \<open>Quantize\<close>

text \<open>
  One pass of the inner loop of \<open>QuantizeToStep\<close>: skip the points up to \<open>lim\<close>, but not the last one.
\<close>

fun skip_old :: "RawDataPoint option list \<Rightarrow> u32 \<Rightarrow> nat \<Rightarrow> nat \<Rightarrow> nat option" where
  "skip_old rData lim 0 i = Some i"
| "skip_old rData lim (Suc n) i = do {
     p \<leftarrow> slice_get rData i;
     d \<leftarrow> p;
     if rp_Time d \<le> lim \<and> i < length rData - 1 then skip_old rData lim n (Suc i) else Some i }"

lemma skip_old_ge: "skip_old rData lim n i = Some j \<Longrightarrow> i \<le> j"
  by (induction n arbitrary: i) (auto simp: bind_eq_Some_conv split: if_splits dest: Suc_leD)

lemma skip_old_progress:
  assumes "skip_old rData lim (length rData) i = Some j" "rData ! i = Some p" "i < length rData" "rp_Time p \<le> lim"
    "rData ! j = Some q"
  shows "if rp_Time q \<le> lim then i \<le> j else i < j"
proof (cases "length rData")
  case (Suc n)
  show ?thesis
  proof (cases "i < length rData - 1")
    case True
    then have "skip_old rData lim n (Suc i) = Some j" using assms Suc by simp
    then show ?thesis using skip_old_ge by fastforce
  next
    case False
    then have "j = i" using assms Suc by simp
    then show ?thesis using assms by simp
  qed
qed (use assms in simp)

function quantize_loop ::
  "RawDataPoint option list \<Rightarrow> u32 \<Rightarrow> u32 \<Rightarrow> u32 \<Rightarrow> nat \<Rightarrow> nat \<Rightarrow> RawDataPoint option list \<Rightarrow>
    RawDataPoint option list option" where
  "quantize_loop rData step endTime t i k data =
     (if t > endTime then Some data
      else if i \<ge> length rData then
        (if k \<ge> length data then None
         else quantize_loop rData step endTime (t + step) i (Suc k) (data[k := Some (NullRawDataPoint t)]))
      else
        (case rData ! i of
           None \<Rightarrow> None
         | Some p \<Rightarrow>
             if rp_Time p = t then
               (if k \<ge> length data then None
                else quantize_loop rData step endTime (t + step) (Suc i) (Suc k) (data[k := Some p]))
             else if rp_Time p > t then
               (if k \<ge> length data then None
                else
                  let cur = (case data ! k of
                        None \<Rightarrow> NullRawDataPoint t
                      | Some d \<Rightarrow> if rp_Time d = 0 then NullRawDataPoint t else d);
                      cur' = (if rp_Time p \<ge> endTime then rp_Merge cur p else cur)
                  in quantize_loop rData step endTime (t + step) i (Suc k) (data[k := Some cur']))
             else if rp_Time p > t - step \<and> rp_Time p < t then
               (if k \<ge> length data then None
                else
                  let p' = p\<lparr>rp_Time := t\<rparr> in
                  case data ! k of
                    Some d \<Rightarrow>
                      if rp_Time d \<noteq> 0 then
                        (case data ! 0 of
                           None \<Rightarrow> None
                         | Some d0 \<Rightarrow>
                             quantize_loop rData step endTime (t + step) (Suc i) (Suc k)
                               (data[k := Some (if \<not> rp_IsNull d0 then rp_Merge d p' else p')]))
                      else quantize_loop rData step endTime (t + step) (Suc i) (Suc k) (data[k := Some p'])
                  | None \<Rightarrow> quantize_loop rData step endTime (t + step) (Suc i) (Suc k) (data[k := Some p']))
             else
               (case skip_old rData (t - step) (length rData) i of
                  None \<Rightarrow> None
                | Some j \<Rightarrow>
                    (case rData ! j of
                       None \<Rightarrow> None
                     | Some q \<Rightarrow>
                         quantize_loop rData step endTime t (if rp_Time q \<le> t - step then Suc j else j) k data))))"
  by pat_completeness auto
termination
  by (relation "measure (\<lambda>(rData, step, endTime, t, i, k, data). (length data - k) + (length rData - i))")
     (auto dest!: skip_old_progress split: if_splits)

declare quantize_loop.simps [simp del]

definition QuantizeToStep :: "u32 \<Rightarrow> RawRenderItem \<Rightarrow> (metric_error option \<times> RawRenderItem) option" where
  "QuantizeToStep step r =
     (if step \<le> 0 then Some (Some ErrQuantizeStepTooSmall, r)
      else do {
        let start = align_up (ri_Start r) step;
        let endTime = end_time (ri_End r) step;
        rData \<leftarrow> sort_data (ri_Data r);
        let r = r\<lparr>ri_Data := rData\<rparr>;
        if endTime < start then do {
          d \<leftarrow> merge_into (NullRawDataPoint start) rData;
          Some (None, r\<lparr>Step := step, ri_Start := start, ri_End := start + step, RealEnd := start + step,
            RealStart := start, ri_Data := [Some d]\<rparr>) }
        else do {
          let num_pts = ((endTime - start) div step) + 1;
          if num_pts \<ge> MAX_QUANTIZE_POINTS then Some (Some ErrQuantizeStepTooManyPoints, r)
          else do {
            data \<leftarrow> quantize_loop rData step endTime start 0 0 (replicate (unat num_pts) None);
            Some (None, r\<lparr>ri_Start := start, RealStart := start, Step := step, ri_End := endTime,
              RealEnd := endTime, ri_Data := data\<rparr>) } } })"

definition Quantize :: "RawRenderItem \<Rightarrow> (metric_error option \<times> RawRenderItem) option" where
  "Quantize r = QuantizeToStep (Step r) r"

section \<open>Resample\<close>

text \<open>The points up to the time \<open>t\<close>, those more than a step older left out, merged into \<open>dp\<close>.\<close>

fun resample_take :: "u32 \<Rightarrow> u32 \<Rightarrow> RawDataPoint \<Rightarrow> RawDataPoint option list \<Rightarrow>
    RawDataPoint \<times> RawDataPoint option list" where
  "resample_take step t dp [] = (dp, [])"
| "resample_take step t dp (None # ps) = resample_take step t dp ps"
| "resample_take step t dp (Some p # ps) =
     (if rp_Time p < t - step then resample_take step t dp ps
      else if rp_Time p > t then (dp, Some p # ps)
      else resample_take step t (rp_Merge dp p) ps)"

partial_function (option) resample_loop ::
  "u32 \<Rightarrow> u32 \<Rightarrow> u32 \<Rightarrow> RawDataPoint \<Rightarrow> RawDataPoint option list \<Rightarrow> RawDataPoint list \<Rightarrow> RawDataPoint list option" where
  "resample_loop step endTime t dp data out =
     (if t > endTime then Some out
      else
        let (dp, data) = resample_take step t dp data in
        if \<not> rp_IsNull dp
        then resample_loop step endTime (t + step) (NullRawDataPoint t) data (out @ [dp\<lparr>rp_Time := t\<rparr>])
        else resample_loop step endTime (t + step) dp data out)"

definition Resample :: "u32 \<Rightarrow> RawRenderItem \<Rightarrow> (metric_error option \<times> RawRenderItem) option" where
  "Resample step r =
     (if step \<le> 0 then Some (Some ErrQuantizeStepTooSmall, r)
      else do {
        let start = align_up (RealStart r) step;
        let endTime = end_time (RealEnd r) step;
        data \<leftarrow> sort_data (ri_Data r);
        out \<leftarrow> resample_loop step endTime start (NullRawDataPoint start) data [];
        Some (None, r\<lparr>ri_Start := start, RealStart := start, Step := step, ri_End := endTime,
          RealEnd := endTime, ri_Data := map Some out\<rparr>) })"

text \<open>
  \<open>ResampleAndQuantize\<close> moves the start down by the step less the rest. Each pass of its loop
  starts with a point without values; the first bin may take one point of the step before it.
\<close>

fun bin_take :: "u32 \<Rightarrow> RawDataPoint \<Rightarrow> RawDataPoint option list \<Rightarrow> (RawDataPoint \<times> RawDataPoint option list) option" where
  "bin_take lim acc [] = Some (acc, [])"
| "bin_take lim acc (p # ps) = do {
     np \<leftarrow> p;
     if rp_Time np \<ge> lim then Some (acc, p # ps) else bin_take lim (rp_Merge acc np) ps }"

definition bin_points :: "u32 \<Rightarrow> u32 \<Rightarrow> RawDataPoint \<Rightarrow> RawDataPoint \<Rightarrow> RawDataPoint option list \<Rightarrow>
    (RawDataPoint \<times> RawDataPoint option list) option" where
  "bin_points step t cur p ps =
     (if rp_Time p \<ge> t \<and> rp_Time p < t + step then do {
        (acc, rest) \<leftarrow> bin_take (t + step) (if rp_IsNull cur then p else rp_Merge cur p) ps;
        Some (acc\<lparr>rp_Time := t\<rparr>, rest) }
      else Some (cur, Some p # ps))"

function bin_loop ::
  "u32 \<Rightarrow> u32 \<Rightarrow> u32 \<Rightarrow> u32 \<Rightarrow> RawDataPoint option list \<Rightarrow> nat \<Rightarrow> RawDataPoint option list \<Rightarrow> RawDataPoint option list option" where
  "bin_loop step start endTime t ps k data =
     (if t > endTime then Some data
      else if k \<ge> length data then None
      else
        (case ps of
           [] \<Rightarrow> bin_loop step start endTime (t + step) [] (Suc k) (data[k := Some (NullRawDataPoint t)])
         | p # rest \<Rightarrow> do {
             p \<leftarrow> p;
             (cur, rest') \<leftarrow>
               (if rp_Time p < start \<and> rp_Time p \<ge> t - step \<and> rp_Time p < t then
                  (case rest of
                     [] \<Rightarrow> None
                   | q # rest2 \<Rightarrow> do { q \<leftarrow> q; bin_points step t (p\<lparr>rp_Time := t\<rparr>) q rest2 })
                else bin_points step t (NullRawDataPoint t) p rest);
             bin_loop step start endTime (t + step) rest' (Suc k) (data[k := Some cur]) }))"
  by pat_completeness auto
termination
  by (relation "measure (\<lambda>(step, start, endTime, t, ps, k, data). length data - k)") auto

declare bin_loop.simps [simp del]

definition ResampleAndQuantize :: "u32 \<Rightarrow> RawRenderItem \<Rightarrow> RawRenderItem option" where
  "ResampleAndQuantize step r =
     (if length (ri_Data r) \<le> 1 then Some r
      else if step = 0 then None
      else
        let left = ri_Start r mod step;
            start = (if left \<noteq> 0 then ri_Start r - step + left else ri_Start r);
            endTime = (ri_End r - step) - ((ri_End r - step) mod step)
        in
        if endTime < start then do {
          let endTime = start + step;
          d \<leftarrow> merge_into (NullRawDataPoint start) (ri_Data r);
          Some (r\<lparr>ri_Start := start, RealStart := start, Step := step, ri_End := endTime,
            RealEnd := endTime, ri_Data := [Some d]\<rparr>) }
        else do {
          data \<leftarrow> bin_loop step start endTime start (ri_Data r) 0
            (replicate (unat ((endTime - start) div step + 1)) None);
          Some (r\<lparr>ri_Start := start, RealStart := start, Step := step, ri_End := endTime,
            RealEnd := endTime, ri_Data := data\<rparr>) })"

section \<open>Merging series\<close>

definition ri_Merge :: "RawRenderItem \<Rightarrow> RawRenderItem \<Rightarrow> RawRenderItem option" where
  "ri_Merge r m = do {
     let r = r\<lparr>ri_Start := (if ri_Start m < ri_Start r then ri_Start m else ri_Start r),
       ri_End := (if ri_End m > ri_End r then ri_End m else ri_End r),
       RealStart := (if RealStart m < RealStart r then RealStart m else RealStart r),
       RealEnd := (if RealEnd m > RealEnd r then RealEnd m else RealEnd r)\<rparr>;
     data \<leftarrow> sort_data (ri_Data r @ ri_Data m);
     Some (r\<lparr>ri_Data := data, ri_Tags := MergeTagLists (ri_Tags r) (ri_Tags m),
       ri_MetaTags := MergeTagLists (ri_MetaTags r) (ri_MetaTags m),
       InCache := (if InCache m then InCache m else InCache r)\<rparr>) }"

text \<open>The points of the two quantized series, slot by slot; a nil in the second one panics in \<open>Merge\<close>.\<close>

fun merge_slots :: "RawDataPoint option list \<Rightarrow> RawDataPoint option list \<Rightarrow> RawDataPoint option list option" where
  "merge_slots rs [] = Some rs"
| "merge_slots [] (m # ms) = None"
| "merge_slots (r # rs) (m # ms) = do {
     x \<leftarrow> (case r of
        None \<Rightarrow> Some m
      | Some d \<Rightarrow> if rp_IsNull d then Some m else do { e \<leftarrow> m; Some (Some (rp_Merge d e)) });
     xs \<leftarrow> merge_slots rs ms;
     Some (x # xs) }"

definition MergeAndAggregate :: "RawRenderItem \<Rightarrow> RawRenderItem \<Rightarrow>
    (metric_error option \<times> RawRenderItem \<times> RawRenderItem) option" where
  "MergeAndAggregate r m =
     (if Step r \<noteq> Step m then Some (Some ErrMergeStepSizeError, r, m)
      else
        let a = min (ri_Start m) (ri_Start r); b = max (ri_End m) (ri_End r);
            ra = min (RealStart m) (RealStart r); rb = max (RealEnd m) (RealEnd r);
            r = r\<lparr>ri_Start := a, ri_End := b, RealStart := ra, RealEnd := rb\<rparr>;
            m = m\<lparr>ri_Start := a, ri_End := b, RealStart := ra, RealEnd := rb\<rparr>
        in do {
          (err, r) \<leftarrow> Quantize r;
          if err \<noteq> None then Some (err, r, m)
          else do {
            (err, m) \<leftarrow> Quantize m;
            if err \<noteq> None then Some (err, r, m)
            else do {
              data \<leftarrow> merge_slots (ri_Data r) (ri_Data m);
              Some (None, r\<lparr>ri_Data := data, ri_Tags := MergeTagLists (ri_Tags r) (ri_Tags m),
                ri_MetaTags := MergeTagLists (ri_MetaTags r) (ri_MetaTags m),
                InCache := (if InCache m then InCache m else InCache r)\<rparr>, m) } } })"

text \<open>The points up to the time \<open>t\<close> at the front of a series.\<close>

fun take_until :: "u32 \<Rightarrow> RawDataPoint option list \<Rightarrow> RawDataPoint list \<times> RawDataPoint option list" where
  "take_until t [] = ([], [])"
| "take_until t (None # ps) = take_until t ps"
| "take_until t (Some p # ps) =
     (if rp_Time p > t then ([], Some p # ps)
      else (case take_until t ps of (xs, rest) \<Rightarrow> (p # xs, rest)))"

definition merge_list :: "RawDataPoint list \<Rightarrow> RawDataPoint list" where
  "merge_list ps =
     (case ps of
        [] \<Rightarrow> []
      | [p] \<Rightarrow> [p]
      | [p, q] \<Rightarrow> [rp_Merge p q]
      | _ \<Rightarrow> (case sort_points ps of [] \<Rightarrow> [] | x # xs \<Rightarrow> [fold (\<lambda>pt acc. rp_Merge acc pt) xs x]))"

partial_function (option) merge_loop ::
  "u32 \<Rightarrow> u32 \<Rightarrow> u32 \<Rightarrow> u32 \<Rightarrow> u32 \<Rightarrow> RawDataPoint option list \<Rightarrow> RawDataPoint option list \<Rightarrow> RawDataPoint list \<Rightarrow>
    RawDataPoint list option" where
  "merge_loop step endTime dEnd rEnd t ds rs out =
     (if t > endTime then Some out
      else
        let (xs, ds') = (if dEnd > 0 then take_until t ds else ([], ds));
            (ys, rs') = (if rEnd > 0 then take_until t rs else ([], rs))
        in merge_loop step endTime dEnd rEnd (t + step) ds' rs' (out @ merge_list (xs @ ys)))"

text \<open>The time of the last point, 0 without data.\<close>

definition last_time :: "RawDataPoint option list \<Rightarrow> u32 option" where
  "last_time ps = (if length ps > 0 then map_option rp_Time (last ps) else Some 0)"

definition MergeWithResample :: "u32 \<Rightarrow> RawRenderItem \<Rightarrow> RawRenderItem \<Rightarrow> (metric_error option \<times> RawRenderItem) option" where
  "MergeWithResample step d r =
     (if step \<le> 0 then Some (Some ErrQuantizeStepTooSmall, r)
      else do {
        let start = align_up (if RealStart d < RealStart r then RealStart d else RealStart r) step;
        let endTime = end_time (if RealEnd d > RealEnd r then RealEnd d else RealEnd r) step;
        rData \<leftarrow> sort_data (ri_Data r);
        dData \<leftarrow> sort_data (ri_Data d);
        dEndTime \<leftarrow> last_time dData;
        rEndTime \<leftarrow> last_time rData;
        out \<leftarrow> merge_loop step endTime dEndTime rEndTime start dData rData [];
        Some (None, r\<lparr>ri_Start := start, RealStart := start, Step := step, ri_End := endTime, RealEnd := endTime,
          ri_Data := map Some out, ri_Tags := MergeTagLists (ri_Tags r) (ri_Tags d),
          ri_MetaTags := MergeTagLists (ri_MetaTags r) (ri_MetaTags d),
          InCache := (if InCache d then InCache d else InCache r)\<rparr>) })"

text \<open>
  The last point of a step in the current series wins; a point of the other series counts only while
  none was found.
\<close>

fun join_own :: "u32 \<Rightarrow> u32 \<Rightarrow> RawDataPoint \<Rightarrow> RawDataPoint option list \<Rightarrow> RawDataPoint \<times> RawDataPoint option list" where
  "join_own step t dp [] = (dp, [])"
| "join_own step t dp (None # ps) = join_own step t dp ps"
| "join_own step t dp (Some p # ps) =
     (if rp_Time p \<le> t - step then join_own step t dp ps
      else if rp_Time p > t then (dp, Some p # ps)
      else join_own step t p ps)"

fun join_other :: "u32 \<Rightarrow> u32 \<Rightarrow> RawDataPoint \<Rightarrow> RawDataPoint option list \<Rightarrow> RawDataPoint \<times> RawDataPoint option list" where
  "join_other step t dp [] = (dp, [])"
| "join_other step t dp (None # ps) = join_other step t dp ps"
| "join_other step t dp (Some p # ps) =
     (if rp_Time p \<le> t - step then join_other step t dp ps
      else if rp_Time p > t then (dp, Some p # ps)
      else join_other step t (if rp_IsNull dp then p else dp) ps)"

partial_function (option) join_loop ::
  "u32 \<Rightarrow> u32 \<Rightarrow> u32 \<Rightarrow> RawDataPoint \<Rightarrow> RawDataPoint option list \<Rightarrow> RawDataPoint option list \<Rightarrow> RawDataPoint list \<Rightarrow>
    RawDataPoint list option" where
  "join_loop step endTime t dp rs ds out =
     (if t > endTime then Some out
      else
        let (dp, rs) = join_own step t dp rs;
            (dp, ds) = join_other step t dp ds
        in if \<not> rp_IsNull dp
           then join_loop step endTime (t + step) (NullRawDataPoint t) rs ds (out @ [dp])
           else join_loop step endTime (t + step) dp rs ds out)"

definition JoinWithResample :: "u32 \<Rightarrow> RawRenderItem \<Rightarrow> RawRenderItem \<Rightarrow> (metric_error option \<times> RawRenderItem) option" where
  "JoinWithResample step d r =
     (if step \<le> 0 then Some (Some ErrQuantizeStepTooSmall, r)
      else do {
        let start = align_up (if RealStart d < RealStart r then RealStart d else RealStart r) step;
        let endTime = end_time (if RealEnd d > RealEnd r then RealEnd d else RealEnd r) step;
        rData \<leftarrow> sort_data (ri_Data r);
        dData \<leftarrow> sort_data (ri_Data d);
        out \<leftarrow> join_loop step endTime start (NullRawDataPoint start) rData dData [];
        Some (None, r\<lparr>ri_Start := start, RealStart := start, Step := step, ri_End := endTime, RealEnd := endTime,
          ri_Data := map Some out, ri_Tags := MergeTagLists (ri_Tags r) (ri_Tags d),
          ri_MetaTags := MergeTagLists (ri_MetaTags r) (ri_MetaTags d),
          InCache := (if InCache d \<and> \<not> InCache r then InCache d else InCache r)\<rparr>) })"

end
