(* ===== verification/Quantize_Laws.thy ===== *)
theory Quantize_Laws
  imports Quantize Tag_Laws "HOL-Library.Multiset"
begin

text \<open>
  What quantizing and merging of rendered series give: the slots of a quantized series as a function
  of the points, and what the merges of series keep.
\<close>

section \<open>Slots\<close>

text \<open>The first point of the step that ends at \<open>T\<close>, stamped with the time of the slot.\<close>

definition slot :: "RawDataPoint list \<Rightarrow> nat \<Rightarrow> nat \<Rightarrow> RawDataPoint" where
  "slot ps S T =
     (case find (\<lambda>p. T < unat (rp_Time p) + S \<and> unat (rp_Time p) \<le> T) ps of
        None \<Rightarrow> NullRawDataPoint (of_nat T)
      | Some p \<Rightarrow> p\<lparr>rp_Time := of_nat T\<rparr>)"

lemma find_drop:
  "(\<And>p. p \<in> set (take i ps) \<Longrightarrow> \<not> P p) \<Longrightarrow> find P ps = find P (drop i ps)"
  by (induction ps arbitrary: i) (auto simp: take_Cons' drop_Cons' split: if_splits)

lemma find_None_sorted:
  "sorted (map f (x # xs)) \<Longrightarrow> (T::nat) < f x \<Longrightarrow> find (\<lambda>p. Q p \<and> f p \<le> T) (x # xs) = None"
  by (fastforce simp: find_None_iff)

lemma skip_old_spec:
  assumes "skip_old (map Some ps) lim n i = Some j" "i < length ps" "length ps \<le> i + n"
  shows "i \<le> j \<and> j < length ps \<and> (\<forall>m. i \<le> m \<and> m < j \<longrightarrow> rp_Time (ps ! m) \<le> lim)"
  using assms
proof (induction n arbitrary: i)
  case (Suc n)
  show ?case
  proof (cases "rp_Time (ps ! i) \<le> lim \<and> i < length ps - 1")
    case True
    then have "skip_old (map Some ps) lim n (Suc i) = Some j" "Suc i < length ps" "length ps \<le> Suc i + n"
      using Suc.prems by auto
    from Suc.IH [OF this] True show ?thesis by (metis Suc_leD Suc_leI le_neq_implies_less)
  next
    case False
    then have "j = i" using Suc.prems by auto
    then show ?thesis using Suc.prems(2) by auto
  qed
qed simp

lemma skip_old_total: "i < length ps \<Longrightarrow> \<exists>j. skip_old (map Some ps) lim n i = Some j"
proof (induction n arbitrary: i)
  case (Suc n)
  then show ?case by (cases "rp_Time (ps ! i) \<le> lim \<and> i < length ps - 1") auto
qed simp

text \<open>The setting of a quantizing loop: \<open>n\<close> slots of length \<open>S\<close> from \<open>T0\<close> on, without wrap-around.\<close>

definition grid :: "nat \<Rightarrow> nat \<Rightarrow> nat \<Rightarrow> u32 \<Rightarrow> u32 \<Rightarrow> bool" where
  "grid T0 S n step endTime \<longleftrightarrow> 0 < S \<and> S dvd T0 \<and> 0 < n \<and> T0 + n * S < 2 ^ 32 \<and>
     unat step = S \<and> unat endTime = T0 + (n - 1) * S"

lemma grid_time:
  assumes "grid T0 S n step endTime" "k \<le> n" "t = of_nat (T0 + k * S)"
  shows "unat t = T0 + k * S" "t > endTime \<longleftrightarrow> k = n" "t + step = of_nat (T0 + Suc k * S)"
    "t \<noteq> 0 \<Longrightarrow> unat (t - step) + S = T0 + k * S"
proof -
  have "k * S \<le> n * S" using assms(2) by (rule mult_le_mono1)
  then have lt: "T0 + k * S < 2 ^ 32" using assms(1) unfolding grid_def by linarith
  then show t: "unat t = T0 + k * S" unfolding assms(3) unat_of_nat using lt by (simp del: of_nat_add of_nat_mult add: take_bit_nat_eq_self)
  show "t > endTime \<longleftrightarrow> k = n"
    using assms(1,2) unfolding word_less_nat_alt t by (cases n) (auto simp: grid_def)
  have "step = of_nat S" using assms(1) unfolding grid_def by (metis of_nat_unat ucast_id)
  then show "t + step = of_nat (T0 + Suc k * S)" using assms(3) by (simp add: algebra_simps)
  assume "t \<noteq> 0"
  then have "0 < T0 + k * S" using t by (metis gr0I unat_eq_zero)
  moreover have "S dvd T0 + k * S" using assms(1) by (simp add: grid_def)
  ultimately have "S \<le> T0 + k * S" by (simp add: dvd_imp_le)
  then show "unat (t - step) + S = T0 + k * S"
    using assms(1) t by (simp add: unat_sub word_le_nat_alt grid_def)
qed

lemma take_upd_snoc: "k < length xs \<Longrightarrow> take (Suc k) (xs[k := v]) = take k xs @ [v]"
  by (simp add: take_Suc_conv_app_nth)

lemma quantize_loop_spec:
  assumes g: "grid T0 S n step endTime"
    and ps: "sorted (map (\<lambda>p. unat (rp_Time p)) ps)" "\<forall>p \<in> set ps. rp_Time p < endTime"
  shows "\<lbrakk>k \<le> n; i \<le> length ps; t = of_nat (T0 + k * S); length data = n;
      \<forall>p \<in> set (take i ps). unat (rp_Time p) + S \<le> T0 + k * S;
      \<forall>j. k \<le> j \<longrightarrow> j < n \<longrightarrow> data ! j = None\<rbrakk> \<Longrightarrow>
    quantize_loop (map Some ps) step endTime t i k data =
      Some (take k data @ map (\<lambda>j. Some (slot ps S (T0 + j * S))) [k..<n])"
proof (induction "(n - k) + (length ps - i)" arbitrary: k i t data rule: less_induct)
  case less
  note t = grid_time [OF g less.prems(1,3)]
  let ?P = "\<lambda>p. T0 + k * S < unat (rp_Time p) + S \<and> unat (rp_Time p) \<le> T0 + k * S"
  have fd: "find ?P ps = find ?P (drop i ps)"
    using less.prems(5) by (intro find_drop) auto
  have sl: "slot ps S (T0 + k * S) =
      (case find ?P (drop i ps) of None \<Rightarrow> NullRawDataPoint t | Some p \<Rightarrow> p\<lparr>rp_Time := t\<rparr>)"
    unfolding slot_def fd less.prems(3) ..
  show ?case
  proof (cases "k = n")
    case True
    then show ?thesis using t(2) less.prems(4) by (simp add: quantize_loop.simps)
  next
    case False
    then have k: "k < n" "\<not> t > endTime" using less.prems(1) t(2) by auto
    have step1: "quantize_loop (map Some ps) step endTime (t + step) i' (Suc k) (data[k := Some d]) =
        Some (take k data @ map (\<lambda>j. Some (slot ps S (T0 + j * S))) [k..<n])"
      if d: "d = slot ps S (T0 + k * S)" and i': "i \<le> i'" "i' \<le> length ps"
        and old: "\<forall>p \<in> set (take i' ps). unat (rp_Time p) \<le> T0 + k * S" for i' d
    proof -
      have "quantize_loop (map Some ps) step endTime (t + step) i' (Suc k) (data[k := Some d]) =
          Some (take (Suc k) (data[k := Some d]) @ map (\<lambda>j. Some (slot ps S (T0 + j * S))) [Suc k..<n])"
        using k i' old less.prems(4,6) by (intro less.hyps t(3)) auto
      then show ?thesis using k less.prems(4) d by (simp add: take_upd_snoc upt_conv_Cons)
    qed
    show ?thesis
    proof (cases "i < length ps")
      case False
      then have "drop i ps = []" by simp
      then have "slot ps S (T0 + k * S) = NullRawDataPoint t" by (simp add: sl)
      then show ?thesis
        using False k less.prems(2,4,5) step1 [of _ i]
        by (subst quantize_loop.simps) (auto simp: trans_le_add1 dest: add_leD1)
    next
      case i: True
      let ?p = "ps ! i"
      have dr: "drop i ps = ?p # drop (Suc i) ps" using i by (simp add: Cons_nth_drop_Suc)
      have so: "sorted (map (\<lambda>p. unat (rp_Time p)) (?p # drop (Suc i) ps))"
        using ps(1) unfolding dr [symmetric] drop_map [symmetric] by (rule sorted_wrt_drop)
      have tk: "set (take (Suc i) ps) = insert ?p (set (take i ps))"
        using i by (simp add: take_Suc_conv_app_nth)
      have old: "\<forall>p \<in> set (take i ps). unat (rp_Time p) \<le> T0 + k * S" using less.prems(5) by auto
      have none: "data ! k = None" "k < length data" using less.prems(4,6) k(1) by auto
      consider (eq) "rp_Time ?p = t" | (gt) "rp_Time ?p > t"
        | (fits) "rp_Time ?p > t - step" "rp_Time ?p < t" | (old) "rp_Time ?p \<le> t - step" "rp_Time ?p < t"
        by force
      then show ?thesis
      proof cases
        case eq
        then have "slot ps S (T0 + k * S) = ?p" using t(1) g unfolding sl dr grid_def by simp
        then show ?thesis using step1 [of ?p "Suc i"] eq i k tk old none t(1)
          by (subst quantize_loop.simps) auto
      next
        case gt
        then have "slot ps S (T0 + k * S) = NullRawDataPoint t"
          using find_None_sorted [OF so, of "T0 + k * S"] t(1) unfolding sl dr word_less_nat_alt by simp
        moreover have "\<not> rp_Time ?p \<ge> endTime" using ps(2) i by (auto simp: not_le)
        ultimately show ?thesis using step1 [of "NullRawDataPoint t" i] gt i k old none
          by (subst quantize_loop.simps) (auto simp: Let_def)
      next
        case fits
        then have T: "T0 + k * S < unat (rp_Time ?p) + S" "unat (rp_Time ?p) \<le> T0 + k * S"
          using t(1,4) unfolding word_less_nat_alt by fastforce+
        then have "slot ps S (T0 + k * S) = ?p\<lparr>rp_Time := t\<rparr>" unfolding sl dr by simp
        then show ?thesis using step1 [of "?p\<lparr>rp_Time := t\<rparr>" "Suc i"] fits i k old none tk T
          by (subst quantize_loop.simps) (auto simp: Let_def)
      next
        case old
        obtain j where j: "skip_old (map Some ps) (t - step) (length ps) i = Some j" using skip_old_total [OF i] by blast
        note sp = skip_old_spec [OF j i]
        let ?j = "if rp_Time (ps ! j) \<le> t - step then Suc j else j"
        have prog: "i < ?j" "?j \<le> length ps"
          using skip_old_progress [of "map Some ps" "t - step" i j ?p "ps ! j"] j sp old i by auto
        have "unat (rp_Time p) + S \<le> T0 + k * S" if p: "p \<in> set (take ?j ps)" for p
        proof -
          obtain m where m: "m < ?j" "p = ps ! m" using p prog by (auto simp: in_set_conv_nth)
          show ?thesis
          proof (cases "m < i")
            case True
            then have "p \<in> set (take i ps)" using m i by (auto simp: in_set_conv_nth)
            then show ?thesis using less.prems(5) by blast
          next
            case False
            then have "rp_Time p \<le> t - step" using m sp by (cases "m = j") (auto split: if_splits)
            moreover have "t \<noteq> 0" using old(2) by auto
            ultimately show ?thesis using t(4) unfolding word_le_nat_alt by simp
          qed
        qed
        then have "quantize_loop (map Some ps) step endTime t ?j k data =
            Some (take k data @ map (\<lambda>j. Some (slot ps S (T0 + j * S))) [k..<n])"
          using less.prems prog by (intro less.hyps) auto
        then show ?thesis using old i k j sp
          by (subst quantize_loop.simps) auto
      qed
    qed
  qed
qed

section \<open>Quantizing\<close>

text \<open>The least multiple of the step from the start on, and the one the end rounds up to.\<close>

definition up :: "nat \<Rightarrow> nat \<Rightarrow> nat" where
  "up S s = (s + S - 1) div S * S"

lemma up_mult: "0 < S \<Longrightarrow> S dvd s \<Longrightarrow> up S s = s"
proof -
  assume S: "0 < S" and "S dvd s"
  then obtain q where q: "s = q * S" by (metis dvd_div_mult_self)
  have "s + S - 1 = q * S + (S - 1)" using S q by simp
  moreover have "(q * S + (S - 1)) div S = q" using div_less [of "S - 1" S] S by (simp only: div_mult_self3)
  ultimately show "up S s = s" using q by (simp add: up_def)
qed

lemma unat_align_up:
  assumes "0 < unat step" "unat start + unat step < 2 ^ 32"
  shows "unat (align_up start step) = up (unat step) (unat start)" "unat start \<le> up (unat step) (unat start)"
    "unat step dvd up (unat step) (unat start)"
proof -
  let ?S = "unat step" and ?s = "unat start"
  show "?S dvd up ?S ?s" by (simp add: up_def)
  obtain q where q: "?s = q * ?S + ?s mod ?S" by (metis mult.commute mult_div_mod_eq)
  have l: "unat (start mod step) = ?s mod ?S" by (simp add: unat_mod)
  have lt: "?s mod ?S < ?S" using assms(1) by simp
  have u: "up ?S ?s = (if ?s mod ?S = 0 then ?s else ?s + ?S - ?s mod ?S)"
  proof (cases "?s mod ?S = 0")
    case True
    then show ?thesis using up_mult assms(1) by (simp add: mod_0_imp_dvd)
  next
    case False
    then have "?s + ?S - 1 = (q + 1) * ?S + (?s mod ?S - 1)" using q by (subst q) simp
    moreover have "((q + 1) * ?S + (?s mod ?S - 1)) div ?S = q + 1"
      using div_less [of "?s mod ?S - 1" ?S] lt assms(1) by (simp only: div_mult_self3)
    ultimately have "up ?S ?s = (q + 1) * ?S" by (simp add: up_def)
    then show ?thesis using False q lt by (simp; linarith)
  qed
  then show "?s \<le> up ?S ?s" using lt by auto
  have "unat (start + step) = ?s + ?S" using assms(2) unat_add_lem [of start step] by simp
  moreover have "unat (start + step - start mod step) = unat (start + step) - unat (start mod step)"
    using calculation l lt by (intro unat_sub) (simp add: word_le_nat_alt)
  moreover have "start mod step = 0 \<longleftrightarrow> ?s mod ?S = 0" using l by (metis unat_eq_zero)
  ultimately show "unat (align_up start step) = up ?S ?s"
    unfolding align_up_def Let_def u l by (cases "?s mod ?S = 0") (simp_all only: simp_thms if_True if_False)
qed

lemma unat_end_time:
  assumes "0 < unat step" "0 < unat end'" "unat end' + unat step < 2 ^ 32"
  shows "unat (end_time end' step) = ((unat end' - 1) div unat step + 1) * unat step"
proof -
  let ?S = "unat step" and ?e = "unat end' - 1"
  have e: "unat (end' - 1) = ?e" using assms(2) by (simp add: unat_sub word_le_nat_alt)
  have m: "unat ((end' - 1) mod step) = ?e mod ?S" by (simp add: unat_mod e)
  have "unat (end' - 1 - (end' - 1) mod step) = ?e div ?S * ?S"
    using unat_sub [of "(end' - 1) mod step" "end' - 1"] m e
    by (simp only: word_le_nat_alt mod_less_eq_dividend minus_mod_eq_div_mult)
  moreover have "?e div ?S * ?S + ?S < 2 ^ 32"
    using assms(3) div_times_less_eq_dividend [of ?e ?S] by linarith
  ultimately have "unat (end' - 1 - (end' - 1) mod step + step) = ?e div ?S * ?S + ?S"
    using unat_add_lem [of "end' - 1 - (end' - 1) mod step" step] by simp
  then show ?thesis unfolding end_time_def by (simp only: add_mult_distrib mult_1)
qed

lemma up_end: "0 < S \<Longrightarrow> 0 < e \<Longrightarrow> up S e = ((e - 1) div S + 1) * S"
proof -
  assume S: "0 < S" "0 < e"
  have "(e + S - 1) div S = (e - 1) div S + 1" using S div_add_self2 [of S "e - 1"] by simp
  then show "up S e = ((e - 1) div S + 1) * S" by (simp only: up_def)
qed

lemma up_mono: "a \<le> b \<Longrightarrow> up S a \<le> up S b"
  unfolding up_def by (intro mult_le_mono1 div_le_mono) simp

text \<open>The slots between a start and an end that leave room for a step.\<close>

definition room :: "u32 \<Rightarrow> u32 \<Rightarrow> u32 \<Rightarrow> bool" where
  "room step a b \<longleftrightarrow> 0 < step \<and> 0 < b \<and> a \<le> b \<and> unat b + 2 * unat step < 2 ^ 32"

definition slots :: "u32 \<Rightarrow> u32 \<Rightarrow> u32 \<Rightarrow> nat" where
  "slots step a b = (up (unat step) (unat b) - up (unat step) (unat a)) div unat step + 1"

lemma room_grid:
  assumes "room step a b"
  defines "T0 \<equiv> up (unat step) (unat a)" and "E \<equiv> up (unat step) (unat b)"
  shows "unat (align_up a step) = T0" "unat (end_time b step) = E"
    "align_up a step = of_nat T0" "end_time b step = of_nat E" "T0 \<le> E"
    "grid T0 (unat step) (slots step a b) step (end_time b step)"
proof -
  let ?S = "unat step" and ?n = "slots step a b"
  have S: "0 < ?S" "0 < unat b" "unat a \<le> unat b" "unat b + 2 * ?S < 2 ^ 32"
    using assms(1) by (simp_all add: room_def word_less_nat_alt word_le_nat_alt)
  show s: "unat (align_up a step) = T0" using unat_align_up [of step a] S by (simp add: T0_def)
  show e: "unat (end_time b step) = E" using unat_end_time [of step b] S up_end by (simp add: E_def)
  show "align_up a step = of_nat T0" "end_time b step = of_nat E" using s e by (metis of_nat_unat ucast_id)+
  show le: "T0 \<le> E" unfolding T0_def E_def using S(3) by (rule up_mono)
  have dv: "?S dvd T0" "?S dvd E" by (simp_all add: T0_def E_def up_def)
  then have "?S dvd E - T0" by simp
  then have En: "E = T0 + (?n - 1) * ?S" using le by (simp add: slots_def T0_def E_def)
  have pos: "0 < ?n" by (simp add: slots_def)
  then have top: "T0 + ?n * ?S = E + ?S" using En by (cases ?n) simp_all
  have "E + ?S < 2 ^ 32"
    using S(4) div_times_less_eq_dividend [of "unat b - 1" ?S]
    unfolding E_def up_end [OF S(1,2)] add_mult_distrib mult_1 by linarith
  then show "grid T0 ?S ?n step (end_time b step)"
    unfolding grid_def top e using S(1) dv(1) pos En by blast
qed

lemma sort_data_Some: "sort_data (map Some ps) = Some (map Some (sort_points ps))"
proof (cases "length ps \<le> 1")
  case True
  then have "sort_points ps = ps" by (cases ps) (auto simp: sort_points_def)
  then show ?thesis using True by (simp add: sort_data_def)
qed (auto simp: sort_data_def list_ex_iff comp_def)

lemma sort_points_props:
  "sorted (map (\<lambda>p. unat (rp_Time p)) (sort_points ps))" "set (sort_points ps) = set ps"
  "mset (sort_points ps) = mset ps"
proof -
  have "sorted (map (\<lambda>p. uint (rp_Time p)) (sort_points ps))" by (simp add: sort_points_def)
  then show "sorted (map (\<lambda>p. unat (rp_Time p)) (sort_points ps))"
    by (simp add: sorted_wrt_map flip: word_le_def word_le_nat_alt)
qed (simp_all add: sort_points_def)

text \<open>
  C23. Quantizing a series to a step whose grid fits the range of times, with all points before the
  end of the grid: the result has one point for every multiple of the step from the start to the end,
  none of them nil, and each is the first point of the step before it, stamped with the time of the
  slot, or a null point when there is none. What else falls into a step is dropped.
\<close>

theorem quantize_slots:
  assumes "room step (ri_Start r) (ri_End r)" "slots step (ri_Start r) (ri_End r) < 100000"
    and "T0 = up (unat step) (unat (ri_Start r))" "E = up (unat step) (unat (ri_End r))"
    and "ri_Data r = map Some ps" "\<forall>p \<in> set ps. unat (rp_Time p) < E"
  shows "QuantizeToStep step r = Some (None, r\<lparr>ri_Start := of_nat T0, RealStart := of_nat T0, Step := step,
      ri_End := of_nat E, RealEnd := of_nat E,
      ri_Data := map (\<lambda>j. Some (slot (sort_points ps) (unat step) (T0 + j * unat step)))
        [0..<slots step (ri_Start r) (ri_End r)]\<rparr>)"
proof -
  let ?start = "align_up (ri_Start r) step" and ?stop = "end_time (ri_End r) step"
  define n where "n = slots step (ri_Start r) (ri_End r)"
  note g = room_grid [OF assms(1), folded assms(3,4) n_def]
  have "unat ((?stop - ?start) div step) = n - 1"
    using g(1,2,5) by (simp add: unat_div unat_sub word_le_nat_alt n_def slots_def assms(3,4))
  moreover have pos: "0 < n" "n < 100000" using assms(2) by (simp_all add: n_def slots_def)
  ultimately have n: "unat ((?stop - ?start) div step + 1) = n"
    using unat_add_lem [of "(?stop - ?start) div step" 1] by simp
  have "quantize_loop (map Some (sort_points ps)) step ?stop ?start 0 0 (replicate n None) =
      Some (map (\<lambda>j. Some (slot (sort_points ps) (unat step) (T0 + j * unat step))) [0..<n])"
    using quantize_loop_spec [OF g(6) sort_points_props(1), of ps 0 0 ?start "replicate n None"]
      sort_points_props(2) [of ps] assms(6) g(2,3) by (auto simp: word_less_nat_alt)
  moreover have "\<not> ?stop < ?start" "\<not> MAX_QUANTIZE_POINTS \<le> (?stop - ?start) div step + 1" "\<not> step \<le> 0"
    using assms(1) g(1,2,5) n pos
    by (auto simp: word_less_nat_alt word_le_nat_alt MAX_QUANTIZE_POINTS_def room_def)
  ultimately show ?thesis
    unfolding QuantizeToStep_def assms(5) sort_data_Some n_def [symmetric] using n g(3,4) by (simp add: Let_def)
qed

text \<open>A point with one value, and a series of points.\<close>

definition one_point :: "u32 \<Rightarrow> f64 \<Rightarrow> RawDataPoint" where
  "one_point t v = \<lparr>rp_Time = t, rp_Sum = v, rp_Min = v, rp_Max = v, rp_Last = v, rp_Count = 1\<rparr>"

definition series_of :: "u32 \<Rightarrow> u32 \<Rightarrow> u32 \<Rightarrow> RawDataPoint list \<Rightarrow> RawRenderItem" where
  "series_of a b step ps = new_RawRenderItem\<lparr>ri_Start := a, ri_End := b, RealStart := a, RealEnd := b,
     Step := step, ri_Data := map Some ps\<rparr>"

lemma series_of_simps [simp]:
  "ri_Start (series_of a b step ps) = a" "ri_End (series_of a b step ps) = b"
  "RealStart (series_of a b step ps) = a" "RealEnd (series_of a b step ps) = b"
  "Step (series_of a b step ps) = step" "ri_Data (series_of a b step ps) = map Some ps"
  by (simp_all add: series_of_def)

theorem quantize_slots_witness:
  "\<exists>r. QuantizeToStep 10 (series_of 10 35 10 [one_point 14 1, one_point 16 2, one_point 30 3]) = Some (None, r) \<and>
     ri_Data r = [Some (NullRawDataPoint 10), Some (one_point 20 1), Some (one_point 30 3), Some (NullRawDataPoint 40)]"
proof -
  let ?ps = "[one_point 14 1, one_point 16 2, one_point 30 3]"
  have q: "QuantizeToStep 10 (series_of 10 35 10 ?ps) = Some (None, (series_of 10 35 10 ?ps)\<lparr>ri_Start := of_nat 10,
      RealStart := of_nat 10, Step := 10, ri_End := of_nat 40, RealEnd := of_nat 40,
      ri_Data := map (\<lambda>j. Some (slot (sort_points ?ps) (unat (10 :: u32)) (10 + j * unat (10 :: u32))))
        [0..<slots 10 (ri_Start (series_of 10 35 10 ?ps)) (ri_End (series_of 10 35 10 ?ps))]\<rparr>)"
    by (rule quantize_slots) (simp_all add: up_def room_def slots_def one_point_def)
  have "[0..<slots 10 10 35] = [0, 1, 2, 3 :: nat]" by code_simp
  moreover have "sort_points ?ps = ?ps" by (simp add: sort_points_def one_point_def)
  ultimately show ?thesis unfolding q by (simp add: slot_def one_point_def)
qed

text \<open>
  A point at the end of the grid is copied into the empty slots before it: of the points at 10
  and 40, with a step of 10, four points remain, and the three after the first are the one at 40.
\<close>

theorem quantize_smears_last:
  "map_option (\<lambda>(err, r). (err, map (map_option rp_Time) (ri_Data r), map (map_option rp_Count) (ri_Data r)))
     (Quantize (series_of 10 40 10 [one_point 10 1, one_point 40 2])) =
   Some (None, [Some 10, Some 40, Some 40, Some 40], [Some 1, Some 1, Some 1, Some 1])"
  by code_simp

section \<open>Truncating and rendering\<close>

lemma truncate_scan_out:
  assumes "\<forall>p \<in> set xs. \<not> (start \<le> rp_Time p \<and> rp_Time p \<le> end')"
  shows "truncate_scan start end' i (map Some xs @ ps) idx = truncate_scan start end' (i + length xs) ps idx"
  using assms by (induction xs arbitrary: i) auto

lemma truncate_scan_in:
  assumes "\<forall>p \<in> set ys. start \<le> rp_Time p \<and> rp_Time p \<le> end'" "ys \<noteq> []"
  shows "truncate_scan start end' i (map Some ys @ ps) (a, b) =
    truncate_scan start end' (i + length ys) ps (case a of None \<Rightarrow> Some i | Some j \<Rightarrow> Some j, i + length ys - 1)"
  using assms
proof (induction ys arbitrary: i a b)
  case (Cons y ys)
  then show ?case by (cases "ys = []") (auto split: option.splits)
qed simp

text \<open>
  C26. Truncating a series to a range, when the points of the range stand together and there is at
  least one, keeps the points of the range except the last one, although the comment on it says that
  the range includes its end; of a single point nothing is kept.
\<close>

theorem truncate_drops_last:
  assumes "ri_Data r = map Some (xs @ ys @ zs)" "ys \<noteq> []"
    "\<forall>p \<in> set ys. start \<le> rp_Time p \<and> rp_Time p \<le> end'"
    "\<forall>p \<in> set xs \<union> set zs. \<not> (start \<le> rp_Time p \<and> rp_Time p \<le> end')"
  shows "\<exists>r'. TruncateTo start end' r = Some (int (length ys) - 1, r') \<and> ri_Data r' = map Some (butlast ys)"
proof -
  have "truncate_scan start end' 0 (ri_Data r) (None, length (ri_Data r)) =
      Some (Some (length xs), length xs + length ys - 1)"
    using truncate_scan_out [of xs start end' 0] truncate_scan_in [OF assms(3,2)] truncate_scan_out [of zs start end' _ "[]"]
      assms(1,4) by simp
  moreover have "take (length xs + length ys - 1 - length xs) (drop (length xs) (ri_Data r)) = map Some (butlast ys)"
    using assms(1,2) by (simp add: butlast_conv_take take_map)
  ultimately have t: "TruncateTo start end' r =
      (let r1 = r\<lparr>ri_Data := map Some (butlast ys)\<rparr> in
       if length (ri_Data r1) > 0 then do {
         b \<leftarrow> last (ri_Data r1);
         a \<leftarrow> hd (ri_Data r1);
         Some (ri_Len r1, r1\<lparr>RealEnd := rp_Time b, RealStart := rp_Time a\<rparr>) }
       else Some (ri_Len r1, r1))"
    unfolding TruncateTo_def Let_def by (simp only: Option.bind.bind_lunit prod.case option.case)
  define d where "d = butlast ys"
  have "int (length ys) - 1 = int (length d)" unfolding d_def using assms(2) by (cases ys, simp_all)
  then show ?thesis
    unfolding t d_def [symmetric] by (cases "d = []") (simp_all add: Let_def ri_Len_def last_map hd_map)
qed

theorem truncate_drops_last_witness:
  "\<exists>r. TruncateTo 10 30 (series_of 10 40 10 [one_point 10 1, one_point 20 2, one_point 40 3]) = Some (1, r) \<and>
     ri_Data r = [Some (one_point 10 1)]"
  using truncate_drops_last [of "series_of 10 40 10 [one_point 10 1, one_point 20 2, one_point 40 3]" "[]"
      "[one_point 10 1, one_point 20 2]" "[one_point 40 3]" 10 30]
  by (simp add: one_point_def)

text \<open>
  The points rendered for graphite all have the value 0, whatever the series holds: the setter
  of the value works on a copy.
\<close>

theorem to_data_point_zero:
  assumes "ri_Data r = map Some ps"
  shows "ToDataPoint r = Some (map (\<lambda>p. \<lparr>dp_Time = rp_Time p, dp_Value = 0\<rparr>) ps)"
proof -
  have "to_data_points a (map Some ps) = Some (map (\<lambda>p. \<lparr>dp_Time = rp_Time p, dp_Value = 0\<rparr>) ps)" for a
    by (induction ps) (simp_all add: SetValue_def Let_def)
  then show ?thesis using assms by (simp add: ToDataPoint_def)
qed

theorem to_data_point_zero_witness:
  "ToDataPoint (series_of 10 20 10 [one_point 10 7]) = Some [\<lparr>dp_Time = 10, dp_Value = 0\<rparr>]"
  using to_data_point_zero [of "series_of 10 20 10 [one_point 10 7]" "[one_point 10 7]"]
  by (simp add: one_point_def)

section \<open>Resampling\<close>

lemma resample_loop_total:
  assumes g: "grid T0 S n step endTime"
  shows "k \<le> n \<Longrightarrow> t = of_nat (T0 + k * S) \<Longrightarrow>
    \<exists>new. resample_loop step endTime t dp data out = Some (out @ new) \<and>
      (\<forall>p \<in> set new. \<not> rp_IsNull p) \<and>
      sorted_wrt (<) (map (\<lambda>p. unat (rp_Time p)) new) \<and>
      (\<forall>p \<in> set new. T0 + k * S \<le> unat (rp_Time p) \<and> unat (rp_Time p) < T0 + n * S \<and> S dvd unat (rp_Time p))"
proof (induction "n - k" arbitrary: k t dp data out)
  case 0
  then show ?case using grid_time(2) [OF g 0(2,3)] by (simp add: resample_loop.simps)
next
  case (Suc m)
  note t = grid_time [OF g Suc(3,4)]
  have k: "m = n - Suc k" "Suc k \<le> n" "k \<noteq> n" using Suc(2) by auto
  note IH = Suc(1) [OF k(1,2) t(3)]
  have n: "k * S < n * S" using k g by (simp add: grid_def)
  have weak: "T0 + k * S \<le> x" if "T0 + Suc k * S \<le> x" for x using that by simp
  have strict: "T0 + k * S < x" if "T0 + Suc k * S \<le> x" for x using that g by (simp add: grid_def)
  obtain dp' data' where r: "resample_take step t dp data = (dp', data')" by fastforce
  show ?case
  proof (cases "rp_IsNull dp'")
    case True
    then have "resample_loop step endTime t dp data out = resample_loop step endTime (t + step) dp' data' out"
      using r k(3) t(2) by (subst resample_loop.simps) simp
    then show ?thesis using IH [of dp' data' out] weak by force
  next
    case False
    let ?p = "dp'\<lparr>rp_Time := t\<rparr>"
    obtain new where new: "resample_loop step endTime (t + step) (NullRawDataPoint t) data' (out @ [?p]) = Some ((out @ [?p]) @ new)"
      "\<forall>p \<in> set new. \<not> rp_IsNull p" "sorted_wrt (<) (map (\<lambda>p. unat (rp_Time p)) new)"
      "\<forall>p \<in> set new. T0 + Suc k * S \<le> unat (rp_Time p) \<and> unat (rp_Time p) < T0 + n * S \<and> S dvd unat (rp_Time p)"
      using IH by blast
    have S: "0 < S" "S dvd T0 + k * S" using g by (simp_all add: grid_def)
    have "resample_loop step endTime t dp data out = Some (out @ (?p # new))"
      using new(1) r k(3) t(2) False by (subst resample_loop.simps) simp
    moreover have "\<forall>p \<in> set (?p # new). \<not> rp_IsNull p" using new(2) False by (simp add: rp_IsNull_def)
    moreover have "sorted_wrt (<) (map (\<lambda>p. unat (rp_Time p)) (?p # new))"
      using new(3,4) strict t(1) by (force simp del: mult_Suc)
    moreover have "\<forall>p \<in> set (?p # new). T0 + k * S \<le> unat (rp_Time p) \<and> unat (rp_Time p) < T0 + n * S \<and> S dvd unat (rp_Time p)"
      using new(4) S(2) t(1) n weak by (force simp del: mult_Suc)
    ultimately show ?thesis by blast
  qed
qed

text \<open>
  C25. Resampling returns, with no error and no panic, on every series without nil points whose
  bounds leave room for a step before the times wrap around; the points it gives have values, and
  their times are multiples of the step that strictly increase within the new bounds.
\<close>

theorem resample_returns:
  assumes "room step (RealStart r) (RealEnd r)" "ri_Data r = map Some ps"
  shows "\<exists>r' new. Resample step r = Some (None, r') \<and> ri_Data r' = map Some new \<and>
    (\<forall>p \<in> set new. \<not> rp_IsNull p \<and> unat step dvd unat (rp_Time p) \<and> RealStart r' \<le> rp_Time p \<and> rp_Time p \<le> RealEnd r') \<and>
    sorted_wrt (<) (map (\<lambda>p. unat (rp_Time p)) new)"
proof -
  let ?a = "align_up (RealStart r) step" and ?b = "end_time (RealEnd r) step" and ?S = "unat step"
  let ?T0 = "up ?S (unat (RealStart r))" and ?n = "slots step (RealStart r) (RealEnd r)"
  note g = room_grid [OF assms(1)]
  have "?n = Suc (?n - 1)" by (simp add: slots_def)
  then have n: "?n * ?S = (?n - 1) * ?S + ?S" by (metis add.commute mult_Suc)
  obtain new where new: "resample_loop step ?b ?a (NullRawDataPoint ?a) (map Some (sort_points ps)) [] = Some ([] @ new)"
    "\<forall>p \<in> set new. \<not> rp_IsNull p" "sorted_wrt (<) (map (\<lambda>p. unat (rp_Time p)) new)"
    "\<forall>p \<in> set new. ?T0 + 0 * ?S \<le> unat (rp_Time p) \<and> unat (rp_Time p) < ?T0 + ?n * ?S \<and> ?S dvd unat (rp_Time p)"
    using resample_loop_total [OF g(6), of 0 ?a] g(3) by force
  have "unat (rp_Time p) \<le> unat ?b" if "p \<in> set new" for p
  proof -
    have "?S dvd ?T0" using g(6) by (simp add: grid_def)
    then have "unat (rp_Time p) < ?T0 + (?n - 1) * ?S + ?S \<Longrightarrow> ?S dvd unat (rp_Time p) \<Longrightarrow>
        unat (rp_Time p) \<le> ?T0 + (?n - 1) * ?S"
      by (auto elim!: dvdE simp flip: add_mult_distrib2 mult.commute [of ?S]) (metis add.commute
          add_mult_distrib2 less_Suc_eq_le mult_Suc_right mult_less_cancel1 mult_le_mono2)
    then show ?thesis using new(4) that n g(6) by (simp add: grid_def add.assoc)
  qed
  moreover have "Resample step r = Some (None, r\<lparr>ri_Start := ?a, RealStart := ?a, Step := step, ri_End := ?b,
      RealEnd := ?b, ri_Data := map Some new\<rparr>)"
    using assms new(1) by (auto simp: Resample_def room_def sort_data_Some Let_def)
  ultimately show ?thesis
    using new g(1) by (intro exI [of _ new] exI conjI) (assumption | auto simp: word_le_nat_alt)+
qed

theorem resample_returns_witness:
  "\<exists>r' new. Resample 10 (series_of 12 33 5 [one_point 12 1, one_point 33 2]) = Some (None, r') \<and>
     ri_Data r' = map Some new"
  using resample_returns [of 10 "series_of 12 33 5 [one_point 12 1, one_point 33 2]" "[one_point 12 1, one_point 33 2]"]
  by (auto simp: room_def)

end
