(* ===== verification/Merge_Laws.thy ===== *)
theory Merge_Laws
  imports Quantize_Laws
begin

text \<open>
  Merging two render items step by step (MergeWithResample of metrics.go): no sample is lost.
\<close>

section \<open>Merging\<close>

definition counts :: "RawDataPoint list \<Rightarrow> nat" where
  "counts ps = sum_list (map (\<lambda>p. unat (rp_Count p)) ps)"

text \<open>A point with values and samples, after the epoch.\<close>

definition live :: "RawDataPoint \<Rightarrow> bool" where
  "live p \<longleftrightarrow> \<not> rp_IsNull p \<and> rp_Count p \<noteq> 0 \<and> 0 < rp_Time p"

lemma counts_simps [simp]: "counts [] = 0" "counts (p # ps) = unat (rp_Count p) + counts ps"
  "counts (ps @ qs) = counts ps + counts qs"
  by (simp_all add: counts_def)

lemma counts_mset: "mset ps = mset qs \<Longrightarrow> counts ps = counts qs"
  unfolding counts_def by (metis mset_map sum_mset_sum_list)

lemma counts_sort [simp]: "counts (sort_points ps) = counts ps"
  by (rule counts_mset) (rule sort_points_props)

lemma sint_pos: "(x :: i64) \<noteq> 0 \<Longrightarrow> unat x < 2 ^ 63 \<Longrightarrow> 0 < sint x"
proof -
  assume x: "x \<noteq> 0" "unat x < 2 ^ 63"
  have u: "uint x = int (unat x)" by simp
  have "0 < unat x" "unat x < 9223372036854775808" using x by (simp_all add: unat_gt_0)
  then have "0 < uint x" "uint x < 9223372036854775808" using u by linarith+
  moreover from this have "sint x = uint x"
    unfolding sint_uint by (intro signed_take_bit_int_eq_self) simp_all
  ultimately show "0 < sint x" by simp
qed

lemma rp_Count_Merge:
  "rp_Count (rp_Merge r d) =
     (if rp_IsNull d then rp_Count r
      else if rp_Count r = 0 \<and> sint (rp_Count d) > 0 then rp_Count d
      else if sint (rp_Count r) > 0 \<and> sint (rp_Count d) > 0 then rp_Count r + rp_Count d
      else rp_Count r)"
proof -
  have "rp_Count (merge_max d r) = rp_Count r" "rp_Count (merge_min d r) = rp_Count r"
    "rp_Count (merge_sum d r) = rp_Count r" "rp_Count (merge_last d r) = rp_Count r"
    "rp_Count (merge_time d r) = rp_Count r" for r
    by (simp_all add: merge_max_def merge_min_def merge_sum_def merge_last_def merge_time_def Let_def)
  then show ?thesis by (simp add: rp_Merge_def merge_count_def)
qed

lemma rp_Merge_count:
  assumes "live d" "rp_Count r \<noteq> 0" "unat (rp_Count r) + unat (rp_Count d) < 2 ^ 63"
  shows "unat (rp_Count (rp_Merge r d)) = unat (rp_Count r) + unat (rp_Count d)"
    "rp_Count (rp_Merge r d) \<noteq> 0"
proof -
  have s: "0 < sint (rp_Count r)" "0 < sint (rp_Count d)"
    using assms by (auto intro!: sint_pos simp: live_def)
  have "rp_Count (rp_Merge r d) = rp_Count r + rp_Count d"
    using assms(1,2) s by (simp add: rp_Count_Merge live_def)
  then show "unat (rp_Count (rp_Merge r d)) = unat (rp_Count r) + unat (rp_Count d)"
    using assms(3) unat_add_lem [of "rp_Count r" "rp_Count d"] by simp
  then show "rp_Count (rp_Merge r d) \<noteq> 0" using assms(2) by (metis add_is_0 unat_eq_zero)
qed

lemma fold_merge_count:
  "\<lbrakk>\<forall>p \<in> set ps. live p; rp_Count r \<noteq> 0; unat (rp_Count r) + counts ps < 2 ^ 63\<rbrakk> \<Longrightarrow>
    unat (rp_Count (fold (\<lambda>pt acc. rp_Merge acc pt) ps r)) = unat (rp_Count r) + counts ps"
proof (induction ps arbitrary: r)
  case (Cons p ps)
  have "live p" "unat (rp_Count r) + unat (rp_Count p) < 2 ^ 63" using Cons.prems by simp_all
  note c = rp_Merge_count [OF this(1) Cons.prems(2) this(2)]
  show ?case using Cons.IH [OF _ c(2)] Cons.prems c(1) by simp
qed simp

lemma merge_list_count:
  assumes "\<forall>p \<in> set ps. live p" "counts ps < 2 ^ 63"
  shows "counts (merge_list ps) = counts ps"
proof -
  consider (short) "ps = []" | p where "ps = [p]" | (two) p q where "ps = [p, q]"
    | (long) p q r rs where "ps = p # q # r # rs" by (metis list.exhaust)
  then show ?thesis
  proof cases
    case (two p q)
    then have "live q" "rp_Count p \<noteq> 0" "unat (rp_Count p) + unat (rp_Count q) < 2 ^ 63"
      using assms by (simp_all add: live_def)
    then show ?thesis using rp_Merge_count(1) [of q p] two by (simp add: merge_list_def)
  next
    case (long p q r rs)
    obtain x xs where x: "sort_points ps = x # xs"
      using long by (cases "sort_points ps") (auto simp: sort_points_def dest: arg_cong [where f = length])
    have "\<forall>p \<in> set (x # xs). live p" using assms(1) sort_points_props(2) [of ps] x by simp
    moreover have "counts (x # xs) = counts ps" using counts_sort [of ps] x by simp
    ultimately have "unat (rp_Count (fold (\<lambda>pt acc. rp_Merge acc pt) xs x)) = counts ps"
      using fold_merge_count [of xs x] assms(2) by (simp add: live_def)
    moreover have "merge_list ps = [fold (\<lambda>pt acc. rp_Merge acc pt) xs x]"
      using x long by (simp add: merge_list_def)
    ultimately show ?thesis by simp
  qed (simp_all add: merge_list_def)
qed

text \<open>The points up to a time, and the later ones.\<close>

lemma take_until_Some:
  assumes "sorted (map (\<lambda>p. unat (rp_Time p)) ps)"
  shows "take_until t (map Some ps) =
    (takeWhile (\<lambda>p. rp_Time p \<le> t) ps, map Some (dropWhile (\<lambda>p. rp_Time p \<le> t) ps))"
  by (induction ps) (auto simp: not_le)

lemma sorted_map_dropWhile: "sorted (map f ps) \<Longrightarrow> sorted (map f (dropWhile P ps))"
  by (induction ps) auto

lemma counts_split: "counts (takeWhile P ps) + counts (dropWhile P ps) = counts ps"
  by (metis counts_simps(3) takeWhile_dropWhile_id)

lemma merge_loop_conserves:
  assumes g: "grid T0 S n step endTime"
  shows "\<lbrakk>k \<le> n; t = of_nat (T0 + k * S); \<forall>p \<in> set ds \<union> set rs. live p \<and> rp_Time p \<le> endTime;
      sorted (map (\<lambda>p. unat (rp_Time p)) ds); sorted (map (\<lambda>p. unat (rp_Time p)) rs);
      ds \<noteq> [] \<longrightarrow> 0 < dEnd; rs \<noteq> [] \<longrightarrow> 0 < rEnd; k = n \<longrightarrow> ds = [] \<and> rs = [];
      counts ds + counts rs < 2 ^ 63\<rbrakk> \<Longrightarrow>
    \<exists>new. merge_loop step endTime dEnd rEnd t (map Some ds) (map Some rs) out = Some (out @ new) \<and>
      counts new = counts ds + counts rs"
proof (induction "n - k" arbitrary: k t ds rs out)
  case 0
  then show ?case using grid_time(2) [OF g 0(2,3)] by (simp add: merge_loop.simps)
next
  case (Suc m)
  note t = grid_time [OF g Suc(3,4)]
  let ?P = "\<lambda>p. rp_Time p \<le> t"
  have k: "m = n - Suc k" "Suc k \<le> n" "k \<noteq> n" using Suc(2) by auto
  define out' where "out' = merge_list (takeWhile ?P ds @ takeWhile ?P rs)"
  have split: "(if 0 < e then take_until t (map Some ps) else ([], map Some ps)) =
      (takeWhile ?P ps, map Some (dropWhile ?P ps))"
    if "sorted (map (\<lambda>p. unat (rp_Time p)) ps)" "ps \<noteq> [] \<longrightarrow> 0 < e" for e :: u32 and ps
    using that by (cases "ps = []") (auto simp: take_until_Some)
  have c: "counts out' = counts (takeWhile ?P ds) + counts (takeWhile ?P rs)"
    unfolding out'_def using Suc.prems(3,9) counts_split [of ?P ds] counts_split [of ?P rs]
    by (subst merge_list_count) (auto dest: set_takeWhileD)
  have last: "dropWhile ?P ds = [] \<and> dropWhile ?P rs = []" if "Suc k = n"
  proof -
    have "endTime = t" using that t(1) g by (simp add: grid_def word_unat_eq_iff)
    then show ?thesis using Suc.prems(3) by (auto simp: dropWhile_eq_Nil_conv)
  qed
  have "\<exists>new. merge_loop step endTime dEnd rEnd (t + step) (map Some (dropWhile ?P ds)) (map Some (dropWhile ?P rs)) (out @ out') =
      Some ((out @ out') @ new) \<and> counts new = counts (dropWhile ?P ds) + counts (dropWhile ?P rs)"
    using Suc.prems(3-9) last counts_split [of ?P ds] counts_split [of ?P rs]
    by (intro Suc(1) [OF k(1,2) t(3)]) (auto dest: set_dropWhileD intro: sorted_map_dropWhile)
  then obtain new where new: "merge_loop step endTime dEnd rEnd (t + step) (map Some (dropWhile ?P ds))
      (map Some (dropWhile ?P rs)) (out @ out') = Some ((out @ out') @ new)"
    "counts new = counts (dropWhile ?P ds) + counts (dropWhile ?P rs)" by blast
  have "merge_loop step endTime dEnd rEnd t (map Some ds) (map Some rs) out = Some (out @ (out' @ new))"
    using new(1) split [OF Suc.prems(4,6)] split [OF Suc.prems(5,7)] k(3) t(2)
    by (subst merge_loop.simps) (simp add: out'_def)
  then show ?case using new(2) c counts_split [of ?P ds] counts_split [of ?P rs] by fastforce
qed

lemma up_ge: "0 < S \<Longrightarrow> s \<le> up S s"
proof -
  assume "0 < S"
  have "(s + S - 1) mod S < S" using \<open>0 < S\<close> by simp
  then show "s \<le> up S s" using div_mult_mod_eq [of "s + S - 1" S] unfolding up_def by linarith
qed

lemma last_time_sort:
  assumes "\<forall>p \<in> set ps. live p"
  obtains e where "last_time (map Some (sort_points ps)) = Some e" "sort_points ps \<noteq> [] \<longrightarrow> 0 < e"
proof (cases "sort_points ps = []")
  case True
  then show ?thesis using that [of 0] by (simp add: last_time_def)
next
  case False
  then have "last (sort_points ps) \<in> set ps" using last_in_set sort_points_props(2) by blast
  then have "0 < rp_Time (last (sort_points ps))" using assms by (simp add: live_def)
  then show ?thesis using that False by (simp add: last_time_def last_map)
qed

text \<open>
  C24. Merging two series with a resample returns without an error or a panic, and loses and invents
  no sample: the counts of the merged points add up to the counts of both series. It holds for points
  with values and samples whose times are not after the end of both series, bounds that leave room for a
  step before the times wrap around, and a total count below 2^63.
\<close>

theorem merge_with_resample_conserves:
  assumes "room step (min (RealStart d) (RealStart r)) (max (RealEnd d) (RealEnd r))"
    and "ri_Data d = map Some ds" "ri_Data r = map Some rs"
    and "\<forall>p \<in> set ds \<union> set rs. live p \<and> rp_Time p \<le> max (RealEnd d) (RealEnd r)"
    and "counts ds + counts rs < 2 ^ 63"
  shows "\<exists>r' out. MergeWithResample step d r = Some (None, r') \<and> ri_Data r' = map Some out \<and>
    counts out = counts ds + counts rs"
proof -
  define a where "a = min (RealStart d) (RealStart r)"
  define b where "b = max (RealEnd d) (RealEnd r)"
  note g = room_grid [OF assms(1), folded a_def b_def]
  obtain de where de: "last_time (map Some (sort_points ds)) = Some de" "sort_points ds \<noteq> [] \<longrightarrow> 0 < de"
    by (rule last_time_sort [of ds]) (use assms(4) in auto)
  obtain re where re: "last_time (map Some (sort_points rs)) = Some re" "sort_points rs \<noteq> [] \<longrightarrow> 0 < re"
    by (rule last_time_sort [of rs]) (use assms(4) in auto)
  have "0 < step" using assms(1) by (simp add: room_def)
  then have "unat b \<le> unat (end_time b step)"
    unfolding g(2) using up_ge [of "unat step" "unat b"] by (simp add: word_less_nat_alt)
  then have "\<forall>p \<in> set (sort_points ds) \<union> set (sort_points rs). live p \<and> rp_Time p \<le> end_time b step"
    using assms(4) unfolding b_def [symmetric] sort_points_props(2) by (meson order_trans word_le_nat_alt)
  moreover have "0 \<noteq> slots step a b" by (simp add: slots_def)
  ultimately obtain out where out: "merge_loop step (end_time b step) de re (align_up a step) (map Some (sort_points ds))
      (map Some (sort_points rs)) [] = Some ([] @ out)" "counts out = counts (sort_points ds) + counts (sort_points rs)"
    using merge_loop_conserves [OF g(6), of 0 "align_up a step" "sort_points ds" "sort_points rs" de re "[]"]
      g(3) sort_points_props(1) de(2) re(2) assms(5) by (auto simp: counts_sort)
  have "(if RealStart d < RealStart r then RealStart d else RealStart r) = a"
    "(if RealEnd d > RealEnd r then RealEnd d else RealEnd r) = b"
    by (auto simp: a_def b_def min_def max_def)
  then show ?thesis
    using out \<open>0 < step\<close> by (simp add: MergeWithResample_def assms(2,3) sort_data_Some de re Let_def counts_sort)
qed

theorem merge_with_resample_conserves_witness:
  "\<exists>r' out. MergeWithResample 10 (series_of 12 33 5 [one_point 12 1, one_point 33 2]) (series_of 11 30 5 [one_point 13 1]) = Some (None, r') \<and>
     ri_Data r' = map Some out \<and> counts out = 3"
proof -
  have "live (one_point 12 1)" "live (one_point 33 2)" "live (one_point 13 1)" by code_simp+
  then show ?thesis
    using merge_with_resample_conserves [of 10 "series_of 12 33 5 [one_point 12 1, one_point 33 2]" "series_of 11 30 5 [one_point 13 1]"
      "[one_point 12 1, one_point 33 2]" "[one_point 13 1]"]
    by (simp add: room_def one_point_def numeral_3_eq_3)
qed

end
