(* ===== verification/Go_Text.thy ===== *)
theory Go_Text
  imports Go_Strings Go_Strconv
begin

text \<open>
  More of the Go packages \<^verbatim>\<open>strings\<close>, \<^verbatim>\<open>bytes\<close> and \<^verbatim>\<open>strconv\<close>, for the parsers of metric lines:
  \<open>Fields\<close>, \<open>TrimSpace\<close>, \<open>Replace\<close>, replacers, \<open>ParseInt\<close> and \<open>ParseBool\<close>, and their laws.
\<close>

section \<open>Spaces\<close>

text \<open>
  The number of bytes of the space a string starts with, 0 if it starts with none: the ASCII spaces and
  the UTF-8 forms of the other spaces that \<^verbatim>\<open>unicode.IsSpace\<close> knows.
\<close>

fun space_len :: "nat list \<Rightarrow> nat" where
  "space_len (a # b # c # _) =
     (if a \<in> {9, 10, 11, 12, 13, 32} then 1
      else if a = 0xC2 \<and> b \<in> {0x85, 0xA0} then 2
      else if (a = 0xE1 \<and> b = 0x9A \<and> c = 0x80) \<or> (a = 0xE3 \<and> b = 0x80 \<and> c = 0x80) \<or>
        (a = 0xE2 \<and> b = 0x80 \<and> ((0x80 \<le> c \<and> c \<le> 0x8A) \<or> c \<in> {0xA8, 0xA9, 0xAF})) \<or>
        (a = 0xE2 \<and> b = 0x81 \<and> c = 0x9F) then 3
      else 0)"
| "space_len [a, b] =
     (if a \<in> {9, 10, 11, 12, 13, 32} then 1
      else if a = 0xC2 \<and> b \<in> {0x85, 0xA0} then 2 else 0)"
| "space_len [a] = (if a \<in> {9, 10, 11, 12, 13, 32} then 1 else 0)"
| "space_len [] = 0"

definition space_at :: "string \<Rightarrow> nat" where
  "space_at s = space_len (map of_char (take 3 s))"

lemma space_len_le: "space_len xs \<le> length xs"
  by (cases xs rule: space_len.cases) auto

lemma space_at_le: "space_at s \<le> length s"
  using space_len_le [of "map of_char (take 3 s)"] by (simp add: space_at_def)

text \<open>The maximal pieces without spaces.\<close>

function fields_from :: "string \<Rightarrow> string \<Rightarrow> string list" where
  "fields_from acc [] = (if acc = [] then [] else [acc])"
| "fields_from acc (c # s) =
     (let n = space_at (c # s) in
      if n = 0 then fields_from (acc @ [c]) s
      else if acc = [] then fields_from [] (drop n (c # s))
      else acc # fields_from [] (drop n (c # s)))"
  by pat_completeness auto
termination
  by (relation "measure (\<lambda>(acc, s). length s)") auto

definition Fields :: "string \<Rightarrow> string list" where
  "Fields s = fields_from [] s"

function trim_left :: "string \<Rightarrow> string" where
  "trim_left s = (if space_at s = 0 then s else trim_left (drop (space_at s) s))"
  by pat_completeness auto
termination
proof (relation "measure length")
  fix s assume "space_at s \<noteq> 0"
  then show "(drop (space_at s) s, s) \<in> measure length" using space_at_le [of s] by simp
qed simp

declare trim_left.simps [simp del]

text \<open>At the right end the last one, two or three bytes are looked at.\<close>

definition space_before :: "string \<Rightarrow> nat" where
  "space_before s =
     (if 1 \<le> length s \<and> space_at (drop (length s - 1) s) = 1 then 1
      else if 2 \<le> length s \<and> space_at (drop (length s - 2) s) = 2 then 2
      else if 3 \<le> length s \<and> space_at (drop (length s - 3) s) = 3 then 3
      else 0)"

function trim_right :: "string \<Rightarrow> string" where
  "trim_right s = (if space_before s = 0 then s else trim_right (take (length s - space_before s) s))"
  by pat_completeness auto
termination
  by (relation "measure length") (auto simp: space_before_def split: if_splits)

declare trim_right.simps [simp del]

definition TrimSpace :: "string \<Rightarrow> string" where
  "TrimSpace s = trim_right (trim_left s)"

section \<open>Replacing\<close>

text \<open>All occurrences of a pattern that is not empty, from the left and not overlapping.\<close>

function replace_all :: "string \<Rightarrow> string \<Rightarrow> string \<Rightarrow> string" where
  "replace_all old new [] = []"
| "replace_all old new (c # s) =
     (case strip_prefix old (c # s) of
        Some rest \<Rightarrow> if old = [] then c # s else new @ replace_all old new rest
      | None \<Rightarrow> c # replace_all old new s)"
  by pat_completeness auto
termination
  by (relation "measure (\<lambda>(old, new, s). length s)") (auto simp: strip_prefix_Some Cons_eq_append_conv)

text \<open>The first occurrence.\<close>

fun replace_first :: "string \<Rightarrow> string \<Rightarrow> string \<Rightarrow> string" where
  "replace_first old new [] = []"
| "replace_first old new (c # s) =
     (case strip_prefix old (c # s) of
        Some rest \<Rightarrow> new @ rest
      | None \<Rightarrow> c # replace_first old new s)"

text \<open>A replacer tries its pairs in order at every position.\<close>

fun first_match :: "(string \<times> string) list \<Rightarrow> string \<Rightarrow> (string \<times> string) option" where
  "first_match [] s = None"
| "first_match ((old, new) # ps) s =
     (case strip_prefix old s of
        Some rest \<Rightarrow> if old = [] then first_match ps s else Some (new, rest)
      | None \<Rightarrow> first_match ps s)"

lemma first_match_shorter: "first_match ps s = Some (new, rest) \<Longrightarrow> length rest < length s"
  by (induction ps s rule: first_match.induct)
    (auto simp: strip_prefix_Some split: option.splits if_splits)

function Replacer :: "(string \<times> string) list \<Rightarrow> string \<Rightarrow> string" where
  "Replacer ps [] = []"
| "Replacer ps (c # s) =
     (case first_match ps (c # s) of
        Some (new, rest) \<Rightarrow> new @ Replacer ps rest
      | None \<Rightarrow> c # Replacer ps s)"
  by pat_completeness auto
termination
  by (relation "measure (\<lambda>(ps, s). length s)") (auto dest: first_match_shorter)

section \<open>Numbers\<close>

definition ParseInt :: "string \<Rightarrow> int option" where
  "ParseInt s =
     (case s of
        [] \<Rightarrow> None
      | c # cs \<Rightarrow>
          let neg = (c = CHR ''-''); ds = (if c = CHR ''-'' \<or> c = CHR ''+'' then cs else s) in
          if ds = [] then None
          else (case parse_digits 10 0 ds of
             None \<Rightarrow> None
           | Some n \<Rightarrow>
               if neg then (if n \<le> 2 ^ 63 then Some (- int n) else None)
               else if n < 2 ^ 63 then Some (int n) else None))"

definition ParseBool :: "string \<Rightarrow> bool option" where
  "ParseBool s =
     (if s \<in> {''1'', ''t'', ''T'', ''true'', ''TRUE'', ''True''} then Some True
      else if s \<in> {''0'', ''f'', ''F'', ''false'', ''FALSE'', ''False''} then Some False
      else None)"

end
