(* ===== verification/Go_Float.thy ===== *)
theory Go_Float
  imports Float_Order Go_Strconv
begin

text \<open>
  More of Go's floating point numbers: multiplication, \<open>Floor\<close>, \<open>Ceil\<close>, \<open>Mod\<close> and \<open>Abs\<close> of the package
  \<^verbatim>\<open>math\<close>, the conversion to \<^verbatim>\<open>uint64\<close>, and \<open>ParseFloat\<close> of \<^verbatim>\<open>strconv\<close>, which rounds the decimal
  number to the nearest value.
\<close>

section \<open>Operations\<close>

definition f64_flip_sign :: "f64 \<Rightarrow> f64" where
  "f64_flip_sign x = x XOR 0x8000000000000000"

definition f64_Abs :: "f64 \<Rightarrow> f64" where
  "f64_Abs x = x AND 0x7FFFFFFFFFFFFFFF"

definition f64_mul :: "f64 \<Rightarrow> f64 \<Rightarrow> f64" where
  "f64_mul x y =
     (let neg = (f64_neg x \<noteq> f64_neg y); s = (if neg then 2 ^ 63 else 0) in
      if IsNaN x then f64_quiet x
      else if IsNaN y then f64_quiet y
      else if IsInf x \<or> IsInf y then
        (if (\<not> IsInf x \<and> f64_mant x = 0) \<or> (\<not> IsInf y \<and> f64_mant y = 0) then 0xFFF8000000000000
         else word_of_int (s + 2047 * 2 ^ 52))
      else f64_round neg (f64_mant x * f64_mant y) (f64_scale x + f64_scale y))"

definition f64_Floor :: "f64 \<Rightarrow> f64" where
  "f64_Floor x =
     (if IsNaN x \<or> IsInf x \<or> f64_scale x \<ge> 0 then x
      else f64_round (f64_neg x) (f64_mant x div 2 ^ nat (- f64_scale x)) 0)"

definition f64_Ceil :: "f64 \<Rightarrow> f64" where
  "f64_Ceil x = f64_flip_sign (f64_Floor (f64_flip_sign x))"

text \<open>The exact remainder, with the sign of the dividend.\<close>

definition f64_Mod :: "f64 \<Rightarrow> f64 \<Rightarrow> f64" where
  "f64_Mod x y =
     (if IsNaN x \<or> IsNaN y \<or> IsInf x \<or> (\<not> IsInf y \<and> f64_mant y = 0) then NaN
      else if IsInf y then x
      else
        let e = min (f64_scale x) (f64_scale y);
            a = f64_mant x * 2 ^ nat (f64_scale x - e);
            b = \<bar>f64_mant y * 2 ^ nat (f64_scale y - e)\<bar>
        in f64_round (f64_neg x) (sgn a * (\<bar>a\<bar> mod b)) e)"

text \<open>
  The conversion to \<^verbatim>\<open>uint64\<close> on amd64: values from 2^63 on are converted after 2^63 was taken off.
\<close>

definition f64_2_63 :: f64 where
  "f64_2_63 = 0x43E0000000000000"

definition u64_of_f64 :: "f64 \<Rightarrow> u64" where
  "u64_of_f64 x =
     (if f64_lt x f64_2_63 then i64_of_f64 x
      else i64_of_f64 (f64_sub x f64_2_63) XOR 0x8000000000000000)"

section \<open>Parsing\<close>

text \<open>A number without sign: digits with at most one point, then an exponent.\<close>

record decimal =
  dc_mant :: int
  dc_exp :: int
  dc_point :: bool
  dc_digits :: bool

definition dec_digit :: "char \<Rightarrow> int option" where
  "dec_digit c = (let n = of_char c in if 48 \<le> n \<and> n \<le> 57 then Some (n - 48) else None)"

fun read_mantissa :: "decimal \<Rightarrow> string \<Rightarrow> decimal \<times> string" where
  "read_mantissa d [] = (d, [])"
| "read_mantissa d (c # s) =
     (if c = CHR ''.'' then
        (if dc_point d then (d, c # s) else read_mantissa (d\<lparr>dc_point := True\<rparr>) s)
      else (case dec_digit c of
        Some v \<Rightarrow> read_mantissa (d\<lparr>dc_digits := True, dc_mant := 10 * dc_mant d + v,
          dc_exp := (if dc_point d then dc_exp d - 1 else dc_exp d)\<rparr>) s
      | None \<Rightarrow> (d, c # s)))"

fun read_exponent :: "int \<Rightarrow> string \<Rightarrow> int \<times> string" where
  "read_exponent e [] = (e, [])"
| "read_exponent e (c # s) =
     (case dec_digit c of
        Some v \<Rightarrow> read_exponent (if e < 10000 then 10 * e + v else e) s
      | None \<Rightarrow> (e, c # s))"

definition f64_of_decimal :: "bool \<Rightarrow> int \<Rightarrow> int \<Rightarrow> f64" where
  "f64_of_decimal neg m e =
     (if e \<ge> 0 then f64_round neg ((if neg then - 1 else 1) * (m * 10 ^ nat e)) 0
      else
        let d = 10 ^ nat (- e); k = 64 + bitlen d; n = m * 2 ^ k;
            q = 2 * (n div d) + (if n mod d = 0 then 0 else 1)
        in f64_round neg ((if neg then - 1 else 1) * q) (- int k - 1))"

definition special_float :: "string \<Rightarrow> f64 option" where
  "special_float s =
     (let l = ToLower s in
      if l \<in> {''+inf'', ''+infinity'', ''inf'', ''infinity''} then Some 0x7FF0000000000000
      else if l \<in> {''-inf'', ''-infinity''} then Some 0xFFF0000000000000
      else if l = ''nan'' then Some NaN
      else None)"

text \<open>A value too large for the format is an error, as is anything that is no number.\<close>

definition read_float :: "bool \<Rightarrow> string \<Rightarrow> f64 option" where
  "read_float neg s =
     (case read_mantissa \<lparr>dc_mant = 0, dc_exp = 0, dc_point = False, dc_digits = False\<rparr> s of (d, rest) \<Rightarrow>
        if \<not> dc_digits d then None
        else
          let finish = (\<lambda>e. let f = f64_of_decimal neg (dc_mant d) (dc_exp d + e) in
                if IsInf f then None else Some f) in
          (case rest of
             [] \<Rightarrow> finish 0
           | c # r \<Rightarrow>
               if c \<noteq> CHR ''e'' \<and> c \<noteq> CHR ''E'' then None
               else
                 let eneg = (case r of x # _ \<Rightarrow> x = CHR ''-'' | [] \<Rightarrow> False);
                     r' = (case r of x # r' \<Rightarrow> if x = CHR ''-'' \<or> x = CHR ''+'' then r' else r | [] \<Rightarrow> [])
                 in (case r' of
                       [] \<Rightarrow> None
                     | x # _ \<Rightarrow>
                         if dec_digit x = None then None
                         else (case read_exponent 0 r' of
                                 (e, []) \<Rightarrow> finish (if eneg then - e else e)
                               | (e, _ # _) \<Rightarrow> None))))"

definition ParseFloat :: "string \<Rightarrow> f64 option" where
  "ParseFloat s =
     (case special_float s of
        Some f \<Rightarrow> Some f
      | None \<Rightarrow>
          (case s of
             [] \<Rightarrow> None
           | c # cs \<Rightarrow>
               if c = CHR ''-'' then read_float True cs
               else if c = CHR ''+'' then read_float False cs
               else read_float False s))"

end
