(* ===== verification/Splitters.thy ===== *)
theory Splitters
  imports Repr Go_Text Go_Float
begin

text \<open>
  The splitters (\<^verbatim>\<open>splitter/*.go\<close>): each takes a line of one protocol to an item with the key that is hashed,
  the cleaned line, a time and tags. Items come from pools: the item a pool hands out (or none) is
  an argument, so that what an earlier use left in it is visible. A panic is \<open>None\<close>; the clock is an argument.
\<close>

section \<open>Items\<close>

datatype Phase = Parsed | AccumulatedParsed | Sent

datatype Origin = TCP | UDP | HTTP | Other

datatype split_error = ErrBadGraphiteLine | ErrBadGraphiteLineTime | InvalidStatsdLine string
  | CarbonTwoNotValid | BadOpenTSDBLine | RegexNotMatched | NamedMatchesNotFound | InvalidRegexLine
  | BadJsonLine | JsonError string | UnknownLine | InvalidSplitter string

text \<open>The fields all items have.\<close>

record SplitItem =
  inkey :: string
  inline :: string
  inphase :: Phase
  inorigin :: Origin
  inoname :: string
  tags :: "(string \<times> string) list"

record GraphiteSplitItem = SplitItem +
  gr_intime :: int

type_synonym StatsdSplitItem = SplitItem

record CarbonTwoSplitItem = SplitItem +
  c2_intime :: int
  c2_infields :: "string list"

record RegexSplitItem = SplitItem +
  rx_intime :: int
  regexed :: "string list list"

record JsonSplitItem = SplitItem +
  js_intime :: int

definition SetPhase :: "Phase \<Rightarrow> 'a SplitItem_scheme \<Rightarrow> 'a SplitItem_scheme" where
  "SetPhase n g = g\<lparr>inphase := n\<rparr>"

definition SetOrigin :: "Origin \<Rightarrow> 'a SplitItem_scheme \<Rightarrow> 'a SplitItem_scheme" where
  "SetOrigin n g = g\<lparr>inorigin := n\<rparr>"

definition SetOriginName :: "string \<Rightarrow> 'a SplitItem_scheme \<Rightarrow> 'a SplitItem_scheme" where
  "SetOriginName n g = g\<lparr>inoname := n\<rparr>"

definition IsValid :: "'a SplitItem_scheme \<Rightarrow> bool" where
  "IsValid g \<longleftrightarrow> length (inline g) > 0"

text \<open>A JSON item is judged by its key.\<close>

definition json_IsValid :: "JsonSplitItem \<Rightarrow> bool" where
  "json_IsValid g \<longleftrightarrow> length (inkey g) > 0"

definition regex_HasTime :: "RegexSplitItem \<Rightarrow> bool" where
  "regex_HasTime g \<longleftrightarrow> rx_intime g = zero_time"

text \<open>The item with the zero values of its fields that \<^verbatim>\<open>new\<close> makes, unless the pool has one.\<close>

definition getGraphiteItem :: "GraphiteSplitItem option \<Rightarrow> GraphiteSplitItem" where
  "getGraphiteItem x = (case x of
     None \<Rightarrow> \<lparr>inkey = [], inline = [], inphase = Parsed, inorigin = TCP, inoname = [], tags = [],
       gr_intime = zero_time\<rparr>
   | Some g \<Rightarrow> g)"

definition getStatsdItem :: "StatsdSplitItem option \<Rightarrow> StatsdSplitItem" where
  "getStatsdItem x = (case x of
     None \<Rightarrow> \<lparr>inkey = [], inline = [], inphase = Parsed, inorigin = TCP, inoname = [], tags = []\<rparr>
   | Some g \<Rightarrow> g)"

definition getCarbontTwoItem :: "CarbonTwoSplitItem option \<Rightarrow> CarbonTwoSplitItem" where
  "getCarbontTwoItem x = (case x of
     None \<Rightarrow> \<lparr>inkey = [], inline = [], inphase = Parsed, inorigin = TCP, inoname = [], tags = [],
       c2_intime = zero_time, c2_infields = []\<rparr>
   | Some g \<Rightarrow> g)"

definition getRegexItem :: "RegexSplitItem option \<Rightarrow> RegexSplitItem" where
  "getRegexItem x = (case x of
     None \<Rightarrow> \<lparr>inkey = [], inline = [], inphase = Parsed, inorigin = TCP, inoname = [], tags = [],
       rx_intime = zero_time, regexed = []\<rparr>
   | Some g \<Rightarrow> g)"

definition getJsonItem :: "JsonSplitItem option \<Rightarrow> JsonSplitItem" where
  "getJsonItem x = (case x of
     None \<Rightarrow> \<lparr>inkey = [], inline = [], inphase = Parsed, inorigin = TCP, inoname = [], tags = [],
       js_intime = zero_time\<rparr>
   | Some g \<Rightarrow> g)"

section \<open>Configuration and indices\<close>

datatype conf_value = ConfInt int | ConfBool bool | ConfString string | ConfStrings "string list"
  | ConfRegexp "string \<Rightarrow> string list list option"

type_synonym conf = "string \<Rightarrow> conf_value option"

text \<open>Indexing a slice by an \<^verbatim>\<open>int\<close>.\<close>

definition index :: "'a list \<Rightarrow> int \<Rightarrow> 'a option" where
  "index xs i = (if 0 \<le> i \<and> i < int (length xs) then Some (xs ! nat i) else None)"

text \<open>Times above 2^31 - 1 are nanoseconds, others seconds.\<close>

definition stamp :: "int \<Rightarrow> int" where
  "stamp i = (if i > 2147483647 then i else i * nanos)"

section \<open>Graphite\<close>

definition MinTimeDelta :: f64 where
  "MinTimeDelta = f64_of_i64 (362 * 24 * 60 * 60)"

text \<open>
  The initialiser of the package fills a local variable of the same name, so the table itself
  stays a nil map.
\<close>

definition GRAPHITE_REPLACER_BYTE_MAP :: "char \<Rightarrow> char option" where
  "GRAPHITE_REPLACER_BYTE_MAP = (\<lambda>_. None)"

definition graphiteByteReplace :: "string \<Rightarrow> string" where
  "graphiteByteReplace bs =
     (let bs = TrimSpace bs;
          bs = map (\<lambda>b. case GRAPHITE_REPLACER_BYTE_MAP b of Some g \<Rightarrow> g | None \<Rightarrow> b) bs;
          bs = replace_all ''..'' ''.'' bs
      in replace_all ''=='' ''='' bs)"

record GraphiteSplitter =
  keyIndex :: int
  timeIndex :: int
  failOnBadTime :: bool

definition NewGraphiteSplitter :: "conf \<Rightarrow> GraphiteSplitter" where
  "NewGraphiteSplitter conf =
     (let job = \<lparr>keyIndex = 0, timeIndex = 2, failOnBadTime = True\<rparr>;
          job = (case conf ''key_index'' of Some (ConfInt idx) \<Rightarrow> job\<lparr>keyIndex := idx\<rparr> | _ \<Rightarrow> job);
          job = (case conf ''time_index'' of Some (ConfInt idx) \<Rightarrow> job\<lparr>timeIndex := idx\<rparr> | _ \<Rightarrow> job)
      in (case conf ''fail_on_bad_time'' of Some (ConfBool b) \<Rightarrow> job\<lparr>failOnBadTime := b\<rparr> | _ \<Rightarrow> job))"

text \<open>The time of a line: \<open>Inl\<close> is the error, \<open>None\<close> an index out of range.\<close>

definition bad_time :: "int \<Rightarrow> int \<Rightarrow> bool" where
  "bad_time now t = f64_lt MinTimeDelta (f64_Abs (f64_of_i64 (word_of_int (t div nanos - now div nanos))))"

definition graphite_time :: "int \<Rightarrow> GraphiteSplitter \<Rightarrow> string list \<Rightarrow> (split_error + int) option" where
  "graphite_time now g fs =
     (if int (length fs) > timeIndex g then do {
        f \<leftarrow> index fs (timeIndex g);
        (case ParseInt f of
           Some i \<Rightarrow>
             if failOnBadTime g \<and> bad_time now (stamp i) then Some (Inl ErrBadGraphiteLineTime)
             else Some (Inr (stamp i))
         | None \<Rightarrow> if failOnBadTime g then Some (Inl ErrBadGraphiteLineTime) else Some (Inr zero_time)) }
      else Some (Inr zero_time))"

definition graphite_ProcessLine ::
  "int \<Rightarrow> GraphiteSplitItem option \<Rightarrow> GraphiteSplitter \<Rightarrow> string \<Rightarrow> (split_error + GraphiteSplitItem) option" where
  "graphite_ProcessLine now pooled g line =
     (let line = graphiteByteReplace line; fs = Fields line in
      if int (length fs) > keyIndex g then
        (case graphite_time now g fs of
           None \<Rightarrow> None
         | Some (Inl e) \<Rightarrow> Some (Inl e)
         | Some (Inr t) \<Rightarrow> do {
             key \<leftarrow> index fs (keyIndex g);
             Some (Inr ((getGraphiteItem pooled)\<lparr>inkey := key, inline := line, gr_intime := t,
               inphase := Parsed, inorigin := Other\<rparr>)) })
      else Some (Inl ErrBadGraphiteLine))"

section \<open>OpenTSDB\<close>

definition NewOpenTSDBSplitter :: "conf \<Rightarrow> GraphiteSplitter" where
  "NewOpenTSDBSplitter conf = \<lparr>keyIndex = 0, timeIndex = 2, failOnBadTime = False\<rparr>"

definition opentsdb_ProcessLine ::
  "int \<Rightarrow> GraphiteSplitItem option \<Rightarrow> GraphiteSplitter \<Rightarrow> string \<Rightarrow> (split_error + GraphiteSplitItem) option" where
  "opentsdb_ProcessLine now pooled g line =
     (if length line < 4 then Some (Inl BadOpenTSDBLine)
      else if ''put '' = take 4 line then graphite_ProcessLine now pooled g (drop 4 line)
      else Some (Inl BadOpenTSDBLine))"

section \<open>Statsd\<close>

definition statsd_ProcessLine :: "StatsdSplitItem option \<Rightarrow> string \<Rightarrow> split_error + StatsdSplitItem" where
  "statsd_ProcessLine pooled line =
     (let statd_array = Split line COLON_SEPARATOR in
      if length statd_array \<ge> 2 then
        Inr ((getStatsdItem pooled)\<lparr>inkey := statd_array ! 0, inline := line, inphase := Parsed, inorigin := Other\<rparr>)
      else Inl (InvalidStatsdLine line))"

section \<open>Carbon2\<close>

definition DOUBLE_SPACE_SEPARATOR :: string where
  "DOUBLE_SPACE_SEPARATOR = ''  ''"

definition CARBONTWO_REPLACER :: "string \<Rightarrow> string" where
  "CARBONTWO_REPLACER = Replacer [(''..'', ''.''), ('','', ''_''), (''*'', ''_''), (''('', ''_''), ('')'', ''_''),
     (''{'', ''_''), (''}'', ''_'')]"

text \<open>The key and the values: at two spaces, or the last two fields.\<close>

definition carbontwo_parts :: "string \<Rightarrow> (string \<times> string list) option" where
  "carbontwo_parts line =
     (let stats_arr = Split line DOUBLE_SPACE_SEPARATOR in
      if length stats_arr = 1 then
        (let t_vs = Fields line; l_f = length t_vs in
         if l_f < 3 then None
         else Some (Join (take (l_f - 2) t_vs) SPACE_SEPARATOR, drop (l_f - 2) t_vs))
      else Some (stats_arr ! 0, Fields (stats_arr ! 1)))"

text \<open>The meta tags; one without \<^verbatim>\<open>=\<close> is an index out of range.\<close>

fun carbontwo_tags :: "string list \<Rightarrow> (string \<times> string) list option" where
  "carbontwo_tags [] = Some []"
| "carbontwo_tags (v # vs) =
     (case Split v EQUAL_SEPARATOR of
        a # b # _ \<Rightarrow> map_option ((#) (a, b)) (carbontwo_tags vs)
      | _ \<Rightarrow> None)"

definition carbontwo_ProcessLine ::
  "int \<Rightarrow> CarbonTwoSplitItem option \<Rightarrow> string \<Rightarrow> (split_error + CarbonTwoSplitItem) option" where
  "carbontwo_ProcessLine now pooled inl =
     (let line = CARBONTWO_REPLACER inl in
      case carbontwo_parts line of
        None \<Rightarrow> Some (Inl CarbonTwoNotValid)
      | Some (key, vals) \<Rightarrow>
          if length vals < 2 then Some (Inl CarbonTwoNotValid)
          else
            let l_vals = length vals; i = ParseInt (vals ! (l_vals - 1)) in
            if (case i of Some i \<Rightarrow> i \<le> 0 | None \<Rightarrow> False) then Some (Inl CarbonTwoNotValid)
            else do {
              otags \<leftarrow> (if l_vals \<ge> 4 then carbontwo_tags (take (l_vals - 2) vals) else Some []);
              Some (Inr ((getCarbontTwoItem pooled)\<lparr>inkey := key, inline := line,
                c2_intime := (case i of Some i \<Rightarrow> stamp i | None \<Rightarrow> now), c2_infields := vals, tags := otags,
                inphase := Parsed, inorigin := Other\<rparr>)) })"

section \<open>Regular expressions\<close>

text \<open>
  The expression is what the configuration holds: a function that finds all matches with their groups.
  Reading a time by a layout is the argument \<open>time_Parse\<close>.
\<close>

record RegExSplitter =
  key_regex :: "string \<Rightarrow> string list list option"
  key_regex_names :: "string list"
  key_index :: int
  time_index :: int
  time_layout :: string

fun name_indices :: "int \<Rightarrow> string list \<Rightarrow> int \<times> int \<Rightarrow> int \<times> int" where
  "name_indices i [] ks = ks"
| "name_indices i (n # ns) (k, t) =
     name_indices (i + 1) ns (if n = ''Key'' then i else k, if n = ''Timestamp'' then i else t)"

definition NewRegExSplitter :: "conf \<Rightarrow> RegExSplitter option" where
  "NewRegExSplitter conf =
     (case (conf ''regexp'', conf ''regexpNames'') of
        (Some (ConfRegexp re), Some (ConfStrings names)) \<Rightarrow>
          (case name_indices 0 names (0, 0) of (k, t) \<Rightarrow>
            (case conf ''timeLayout'' of
               None \<Rightarrow> Some \<lparr>key_regex = re, key_regex_names = names, key_index = k, time_index = t, time_layout = []\<rparr>
             | Some (ConfString l) \<Rightarrow>
                 Some \<lparr>key_regex = re, key_regex_names = names, key_index = k, time_index = t, time_layout = l\<rparr>
             | Some _ \<Rightarrow> None))
      | _ \<Rightarrow> None)"

definition regex_ProcessLine ::
  "(string \<Rightarrow> string \<Rightarrow> int option) \<Rightarrow> RegexSplitItem option \<Rightarrow> RegExSplitter \<Rightarrow> string \<Rightarrow>
    (split_error + RegexSplitItem) option" where
  "regex_ProcessLine time_Parse pooled job line =
     (case key_regex job line of
        None \<Rightarrow> Some (Inl RegexNotMatched)
      | Some matched \<Rightarrow> do {
          m0 \<leftarrow> index matched 0;
          if int (length m0) < key_index job + 1 then Some (Inl NamedMatchesNotFound)
          else do {
            key_param \<leftarrow> index m0 (key_index job + 1);
            t \<leftarrow> (if time_index job > 0 \<and> length (time_layout job) > 0 then do {
                time_param \<leftarrow> index m0 (time_index job + 1);
                Some (case time_Parse (time_layout job) time_param of Some t \<Rightarrow> t | None \<Rightarrow> zero_time) }
              else Some zero_time);
            if length key_param > 0 then
              Some (Inr ((getRegexItem pooled)\<lparr>inkey := key_param, inline := line, rx_intime := t,
                regexed := matched, inphase := Parsed, inorigin := Other\<rparr>))
            else Some (Inl InvalidRegexLine) } })"

section \<open>JSON\<close>

text \<open>
  The decoded object. Decoding and encoding are arguments; the tags are a map, listed in the order in
  which the range over it gives them.
\<close>

record JsonStructSplitItem =
  js_Metric :: string
  js_Value :: f64
  js_Time :: i64
  js_Tags :: "(string \<times> string) list"

definition ParseJson ::
  "(JsonStructSplitItem \<Rightarrow> split_error + string) \<Rightarrow> JsonSplitItem option \<Rightarrow> JsonStructSplitItem \<Rightarrow>
    split_error + JsonSplitItem" where
  "ParseJson marshal pooled j =
     (if length (js_Metric j) = 0 then Inl BadJsonLine
      else
        let it = (getJsonItem pooled)\<lparr>inkey := js_Metric j, js_intime := stamp (sint (js_Time j))\<rparr>;
            it = (if length (js_Tags j) > 0 then it\<lparr>tags := js_Tags j\<rparr> else it)
        in case marshal j of
             Inl e \<Rightarrow> Inl e
           | Inr line \<Rightarrow> Inr (it\<lparr>inline := line\<rparr>))"

fun parse_jsons ::
  "(JsonStructSplitItem \<Rightarrow> split_error + string) \<Rightarrow> JsonSplitItem option list \<Rightarrow> JsonStructSplitItem list \<Rightarrow>
    split_error option \<times> JsonSplitItem list" where
  "parse_jsons marshal ps [] = (None, [])"
| "parse_jsons marshal ps (j # js) =
     (case ParseJson marshal (case ps of [] \<Rightarrow> None | p # _ \<Rightarrow> p) j of
        Inl e \<Rightarrow> (Some e, [])
      | Inr it \<Rightarrow> (case parse_jsons marshal (drop 1 ps) js of (e, its) \<Rightarrow> (e, it # its)))"

definition json_ProcessLines ::
  "(string \<Rightarrow> split_error + JsonStructSplitItem list) \<Rightarrow> (JsonStructSplitItem \<Rightarrow> split_error + string) \<Rightarrow>
    JsonSplitItem option list \<Rightarrow> string \<Rightarrow> split_error option \<times> JsonSplitItem list" where
  "json_ProcessLines unmarshal marshal pooled line =
     (case unmarshal line of
        Inl e \<Rightarrow> (Some e, [])
      | Inr js \<Rightarrow> if length js = 0 then (Some BadJsonLine, []) else parse_jsons marshal pooled js)"

definition json_ProcessLine ::
  "(string \<Rightarrow> split_error + JsonStructSplitItem) \<Rightarrow> (JsonStructSplitItem \<Rightarrow> split_error + string) \<Rightarrow>
    JsonSplitItem option \<Rightarrow> string \<Rightarrow> split_error + JsonSplitItem" where
  "json_ProcessLine unmarshal marshal pooled line =
     (case unmarshal line of Inl e \<Rightarrow> Inl e | Inr j \<Rightarrow> ParseJson marshal pooled j)"

section \<open>Registry\<close>

datatype Splitter = Statsd_splitter | Graphite_splitter GraphiteSplitter | CarbonTwo_splitter
  | Regex_splitter RegExSplitter | OpenTSDB_splitter GraphiteSplitter | Json_splitter

definition NewSplitterItem :: "string \<Rightarrow> conf \<Rightarrow> (split_error + Splitter) option" where
  "NewSplitterItem name conf =
     (if name = ''statsd'' then Some (Inr Statsd_splitter)
      else if name = ''graphite'' then Some (Inr (Graphite_splitter (NewGraphiteSplitter conf)))
      else if name = ''carbon2'' then Some (Inr CarbonTwo_splitter)
      else if name = ''regex'' then map_option (\<lambda>r. Inr (Regex_splitter r)) (NewRegExSplitter conf)
      else if name = ''opentsdb'' then Some (Inr (OpenTSDB_splitter (NewOpenTSDBSplitter conf)))
      else if name = ''json'' then Some (Inr Json_splitter)
      else Some (Inl (InvalidSplitter name)))"

end
