(* ===== verification/Splitter_Laws.thy ===== *)
theory Splitter_Laws
  imports Splitters
begin

text \<open>
  What the splitters promise: which items they give, that a line made of words splits into them, and
  where a line makes them panic or leaks the state of an earlier line.
\<close>

section \<open>Fields\<close>

definition ascii_space :: "char \<Rightarrow> bool" where
  "ascii_space c \<longleftrightarrow> (of_char c :: nat) \<in> {9, 10, 11, 12, 13, 32}"

text \<open>A printable ASCII character that is no space.\<close>

definition plain :: "char \<Rightarrow> bool" where
  "plain c \<longleftrightarrow> 32 < (of_char c :: nat) \<and> (of_char c :: nat) < 128"

definition word :: "string \<Rightarrow> bool" where
  "word w \<longleftrightarrow> w \<noteq> [] \<and> (\<forall>c \<in> set w. plain c)"

lemma space_at_space: "ascii_space c \<Longrightarrow> space_at (c # s) = 1"
  by (cases s; cases "tl s") (auto simp: ascii_space_def space_at_def)

lemma space_at_plain: "plain c \<Longrightarrow> space_at (c # s) = 0"
  by (cases s; cases "tl s") (auto simp: plain_def space_at_def)

lemma fields_from_Cons:
  "fields_from acc (c # s) =
     (if space_at (c # s) = 0 then fields_from (acc @ [c]) s
      else (if acc = [] then [] else [acc]) @ fields_from [] (drop (space_at (c # s)) (c # s)))"
  by (simp add: Let_def)

declare fields_from.simps(2) [simp del]

lemma fields_from_words:
  "\<forall>c \<in> set acc. \<not> ascii_space c \<Longrightarrow> f \<in> set (fields_from acc s) \<Longrightarrow>
    f \<noteq> [] \<and> (\<forall>c \<in> set f. \<not> ascii_space c)"
proof (induction acc s rule: fields_from.induct)
  case (1 acc)
  then show ?case by (cases "acc = []") simp_all
next
  case (2 acc c s)
  define n where "n = space_at (c # s)"
  define rest where "rest = drop n (c # s)"
  have f: "f \<in> set (if n = 0 then fields_from (acc @ [c]) s
      else (if acc = [] then [] else [acc]) @ fields_from [] rest)"
    using 2(5) by (simp only: fields_from_Cons n_def rest_def)
  have IH1: "n = 0 \<Longrightarrow> \<forall>c \<in> set (acc @ [c]). \<not> ascii_space c \<Longrightarrow> f \<in> set (fields_from (acc @ [c]) s) \<Longrightarrow> ?case"
    using 2(1) n_def by blast
  have IH2: "n \<noteq> 0 \<Longrightarrow> f \<in> set (fields_from [] rest) \<Longrightarrow> ?case"
    unfolding rest_def by (cases "acc = []") (rule 2(2,3) [OF n_def]; simp)+
  show ?case
  proof (cases "n = 0")
    case True
    then have "\<not> ascii_space c" using space_at_space [of c s] by (auto simp: n_def)
    then show ?thesis using f 2(4) True by (intro IH1) simp_all
  next
    case False
    then have "acc \<noteq> [] \<and> f = acc \<or> f \<in> set (fields_from [] rest)" using f by (cases "acc = []") simp_all
    then show ?thesis using IH2 [OF False] 2(4) by blast
  qed
qed

lemma Fields_words: "f \<in> set (Fields s) \<Longrightarrow> f \<noteq> [] \<and> (\<forall>c \<in> set f. \<not> ascii_space c)"
  unfolding Fields_def by (rule fields_from_words) simp_all

lemma Fields_Nil [simp]: "Fields [] = []"
  by (simp add: Fields_def)

lemma fields_from_plain: "\<forall>c \<in> set w. plain c \<Longrightarrow> fields_from acc (w @ s) = fields_from (acc @ w) s"
  by (induction w arbitrary: acc) (simp_all add: space_at_plain fields_from_Cons)

lemma Fields_Join: "\<forall>w \<in> set ws. word w \<Longrightarrow> Fields (Join ws '' '') = ws"
proof (induction ws)
  case (Cons w ws)
  show ?case
  proof (cases "ws = []")
    case True
    then show ?thesis using Cons fields_from_plain [of w "[]" "[]"] by (simp add: Fields_def word_def)
  next
    case False
    have "space_at (CHR '' '' # Join ws '' '') = 1" by (rule space_at_space) (simp add: ascii_space_def)
    then show ?thesis
      using Cons False fields_from_plain [of w "[]" "CHR '' '' # Join ws '' ''"]
      by (simp add: Fields_def word_def Join_Cons fields_from_Cons)
  qed
qed simp

lemma Join_ends: "ws \<noteq> [] \<Longrightarrow> \<forall>w \<in> set ws. word w \<Longrightarrow>
    Join ws '' '' \<noteq> [] \<and> plain (hd (Join ws '' '')) \<and> plain (last (Join ws '' ''))"
proof (induction ws)
  case (Cons w ws)
  have "w \<noteq> []" "plain (hd w)" "plain (last w)" using Cons.prems by (auto simp: word_def)
  then show ?case using Cons by (cases "ws = []") (auto simp: Join_Cons)
qed simp

section \<open>Trimming and replacing\<close>

lemma trim_left_plain: "plain c \<Longrightarrow> trim_left (c # s) = c # s"
  by (subst trim_left.simps) (simp add: space_at_plain)

lemma space_len_last:
  "(b :: nat) < 128 \<Longrightarrow> space_len [a, b] \<noteq> 2" "(c :: nat) < 128 \<Longrightarrow> space_len [a, b, c] \<noteq> 3"
  by simp_all

lemma space_at_last:
  assumes "n = 2 \<or> n = 3" "length xs = n" "plain (last xs)"
  shows "space_at xs \<noteq> n"
proof -
  have "length xs = 2 \<Longrightarrow> \<exists>a b. xs = [a, b]" "length xs = 3 \<Longrightarrow> \<exists>a b c. xs = [a, b, c]"
    by (auto simp: numeral_2_eq_2 numeral_3_eq_3 length_Suc_conv)
  then consider a b where "xs = [a, b]" "n = 2" | a b c where "xs = [a, b, c]" "n = 3"
    using assms(1,2) by auto
  then show ?thesis
  proof cases
    case 1
    then show ?thesis using assms(3) by (simp add: space_at_def plain_def space_len_last del: space_len.simps)
  next
    case 2
    then show ?thesis using assms(3) by (simp add: space_at_def plain_def space_len_last del: space_len.simps)
  qed
qed

lemma trim_right_plain:
  assumes "s \<noteq> []" "plain (last s)" shows "trim_right s = s"
proof -
  obtain u c where s: "s = u @ [c]" "plain c" using assms by (cases s rule: rev_cases) auto
  then have "space_at (drop (length s - 1) s) = 0" by (simp add: space_at_plain)
  moreover have "space_at (drop (length s - n) s) \<noteq> n" if "n = 2 \<or> n = 3" "n \<le> length s" for n
    using that assms by (intro space_at_last) (auto intro!: last_drop [THEN arg_cong, THEN iffD2, of _ _ plain] simp: diff_less)
  ultimately have "space_before s = 0" by (simp add: space_before_def)
  then show ?thesis by (subst trim_right.simps) simp
qed

lemma TrimSpace_words:
  assumes "plain (hd s)" "plain (last s)" "s \<noteq> []" shows "TrimSpace s = s"
proof -
  obtain c t where "s = c # t" using assms(3) by (cases s) auto
  then have "trim_left s = s" using assms(1) trim_left_plain [of c t] by simp
  then show ?thesis using assms trim_right_plain [of s] by (simp add: TrimSpace_def)
qed

lemma replace_all_absent: "\<not> Contains s old \<Longrightarrow> replace_all old new s = s"
proof (induction old new s rule: replace_all.induct)
  case (2 old new c s)
  then have "strip_prefix old (c # s) = None" by (simp add: strip_prefix_None)
  then show ?case using 2 by simp
qed simp

lemma graphiteByteReplace_id:
  assumes "plain (hd s)" "plain (last s)" "s \<noteq> []" "\<not> Contains s ''..''" "\<not> Contains s ''==''"
  shows "graphiteByteReplace s = s"
  using assms by (simp add: graphiteByteReplace_def TrimSpace_words replace_all_absent GRAPHITE_REPLACER_BYTE_MAP_def)

section \<open>Numbers\<close>

lemma digits_of_10: "c \<in> set (digits_of 10 n) \<Longrightarrow> 48 \<le> (of_char c :: nat) \<and> (of_char c :: nat) \<le> 57"
proof (induction "10 :: nat" n rule: digits_of.induct)
  case (1 n)
  have d: "48 \<le> (of_char (digit_char d) :: nat) \<and> (of_char (digit_char d) :: nat) \<le> 57" if "d < 10" for d
    using that by (simp add: digit_char_def)
  show ?case
  proof (cases "n < 10")
    case True
    then show ?thesis using 1(2) d by (auto simp: digits_of.simps [of 10 n])
  next
    case False
    then have "c \<in> set (digits_of 10 (n div 10)) \<or> c = digit_char (n mod 10)"
      using 1(2) by (auto simp: digits_of.simps [of 10 n])
    then show ?thesis using 1(1) False d by auto
  qed
qed

lemma digits_of_word: "word (digits_of 10 n)"
  using digits_of_10 [of _ n] by (fastforce simp: word_def plain_def)

lemma FormatInt_word: "word (FormatInt n)"
  using digits_of_word by (auto simp: FormatInt_def word_def plain_def)

lemma ParseInt_FormatInt:
  assumes "- (2 ^ 63) \<le> n" "n < 2 ^ 63"
  shows "ParseInt (FormatInt n) = Some n"
proof (cases "n < 0")
  case True
  then have "nat (- n) \<le> 2 ^ 63" using assms(1) by simp
  then have "nat (- n) < 2 ^ 64" by simp
  from parse_digits_of [OF _ _ this, of 10] show ?thesis
    using True \<open>nat (- n) \<le> 2 ^ 63\<close> by (simp add: FormatInt_def ParseInt_def)
next
  case False
  then have n: "nat n < 2 ^ 63" using assms(2) by simp
  obtain c cs where d: "digits_of 10 (nat n) = c # cs" by (cases "digits_of 10 (nat n)") auto
  then have "(48 :: nat) \<le> of_char c" using digits_of_10 [of c "nat n"] by simp
  then have "c \<noteq> CHR ''-''" "c \<noteq> CHR ''+''" by auto
  moreover have "parse_digits 10 0 (c # cs) = Some (nat n)"
    using parse_digits_of [of 10 "nat n"] n d by simp
  ultimately show ?thesis using False n d by (simp add: FormatInt_def ParseInt_def del: parse_digits.simps)
qed

section \<open>Graphite\<close>

text \<open>What every parsed graphite item looks like.\<close>

definition graphite_item_ok :: "GraphiteSplitter \<Rightarrow> GraphiteSplitItem \<Rightarrow> bool" where
  "graphite_item_ok g it \<longleftrightarrow> inphase it = Parsed \<and> inorigin it = Other \<and> IsValid it \<and>
     inkey it = Fields (inline it) ! nat (keyIndex g) \<and> inkey it \<noteq> [] \<and> (\<forall>c \<in> set (inkey it). \<not> ascii_space c)"

lemma index_nonneg: "0 \<le> i \<Longrightarrow> i < int (length xs) \<Longrightarrow> index xs i = Some (xs ! nat i)"
  by (simp add: index_def)

lemma graphite_time_total: "0 \<le> timeIndex g \<Longrightarrow> graphite_time now g fs \<noteq> None"
  by (auto simp: graphite_time_def index_nonneg split: option.split)

text \<open>
  C27. With indices that are not negative a graphite splitter never panics; what it gives for any line is
  an error (the invalid-line error exactly when the cleaned line has too few fields), or an
  item that is parsed, valid, and has as key a field of its line, not empty and without spaces.
\<close>

theorem graphite_items:
  fixes line :: string
  assumes "0 \<le> keyIndex g" "0 \<le> timeIndex g"
  defines "fs \<equiv> Fields (graphiteByteReplace line)"
  shows "case graphite_ProcessLine now pooled g line of
      None \<Rightarrow> False
    | Some (Inl e) \<Rightarrow> if int (length fs) \<le> keyIndex g then e = ErrBadGraphiteLine
        else e = ErrBadGraphiteLineTime \<and> failOnBadTime g
    | Some (Inr it) \<Rightarrow> keyIndex g < int (length fs) \<and> graphite_item_ok g it"
proof (cases "keyIndex g < int (length fs)")
  case True
  then have idx: "index fs (keyIndex g) = Some (fs ! nat (keyIndex g))" using assms(1) by (rule index_nonneg [rotated])
  have mem: "fs ! nat (keyIndex g) \<in> set fs" using True assms(1) by (simp add: nat_less_iff)
  have ne: "graphiteByteReplace line \<noteq> []" using True assms(1) by (auto simp: fs_def)
  note w = Fields_words [OF mem [unfolded fs_def]]
  show ?thesis
  proof (cases "graphite_time now g fs")
    case None
    then show ?thesis using graphite_time_total [OF assms(2)] by blast
  next
    case (Some r)
    then show ?thesis
    proof (cases r)
      case (Inl e)
      then have "e = ErrBadGraphiteLineTime \<and> failOnBadTime g"
        using Some by (auto simp: graphite_time_def split: if_splits option.splits bind_splits)
      then show ?thesis using True Some Inl by (simp add: graphite_ProcessLine_def Let_def fs_def [symmetric])
    next
      case (Inr t)
      then show ?thesis
        using True Some idx ne w
        by (simp add: graphite_ProcessLine_def Let_def fs_def [symmetric] graphite_item_ok_def IsValid_def)
    qed
  qed
qed (simp add: graphite_ProcessLine_def Let_def fs_def [symmetric])

theorem graphite_items_witness:
  "case graphite_ProcessLine 0 None (NewGraphiteSplitter (\<lambda>_. None)) '' a.b 1 2 '' of
      None \<Rightarrow> False | Some (Inl e) \<Rightarrow> e = ErrBadGraphiteLineTime | Some (Inr it) \<Rightarrow> graphite_item_ok (NewGraphiteSplitter (\<lambda>_. None)) it"
proof -
  have "keyIndex (NewGraphiteSplitter (\<lambda>_. None)) = 0" "timeIndex (NewGraphiteSplitter (\<lambda>_. None)) = 2"
    by (simp_all add: NewGraphiteSplitter_def)
  moreover have "length (Fields (graphiteByteReplace '' a.b 1 2 '')) = 3" by code_simp
  ultimately show ?thesis
    using graphite_items [of "NewGraphiteSplitter (\<lambda>_. None)" "'' a.b 1 2 ''" 0 None]
    by (simp split: option.splits sum.splits)
qed

text \<open>
  C28. A line of words separated by single spaces that holds neither two dots nor two equal signs in a row, with a
  time in decimals that is not rejected, is taken as it is: the item has the first word as its key, the
  line unchanged and the time read as seconds or nanoseconds.
\<close>

theorem graphite_split:
  assumes "word key" "word val" "\<forall>w \<in> set rest. word w"
    and "- (2 ^ 63) \<le> t" "t < 2 ^ 63" "failOnBadTime g \<longrightarrow> \<not> bad_time now (stamp t)"
    and "keyIndex g = 0" "timeIndex g = 2"
    and line: "line = Join (key # val # FormatInt t # rest) '' ''"
    and "\<not> Contains line ''..''" "\<not> Contains line ''==''"
  shows "\<exists>it. graphite_ProcessLine now pooled g line = Some (Inr it) \<and>
    inkey it = key \<and> inline it = line \<and> gr_intime it = stamp t"
proof -
  have ws: "\<forall>w \<in> set (key # val # FormatInt t # rest). word w" using assms(1-3) FormatInt_word by simp
  have "plain (hd line)" "plain (last line)" "line \<noteq> []"
    using Join_ends [OF _ ws] by (simp_all add: line)
  then have "graphiteByteReplace line = line" using assms(10,11) by (rule graphiteByteReplace_id)
  moreover have "Fields line = key # val # FormatInt t # rest" unfolding line by (rule Fields_Join [OF ws])
  moreover have "index (key # val # FormatInt t # rest) 2 = Some (FormatInt t)"
    "index (key # val # FormatInt t # rest) 0 = Some key" by (simp_all add: index_def)
  moreover have "ParseInt (FormatInt t) = Some t" using assms(4,5) by (rule ParseInt_FormatInt)
  ultimately show ?thesis
    using assms(6-8) by (auto simp: graphite_ProcessLine_def graphite_time_def Let_def)
qed

theorem graphite_split_witness:
  "\<exists>it. graphite_ProcessLine 0 None (NewOpenTSDBSplitter (\<lambda>_. None)) ''a.b 1.5 15 x=y'' = Some (Inr it) \<and>
    inkey it = ''a.b'' \<and> inline it = ''a.b 1.5 15 x=y'' \<and> gr_intime it = 15 * nanos"
proof -
  have e: "Join (''a.b'' # ''1.5'' # FormatInt 15 # [''x=y'']) '' '' = ''a.b 1.5 15 x=y''"
    "\<not> Contains ''a.b 1.5 15 x=y'' ''..''" "\<not> Contains ''a.b 1.5 15 x=y'' ''==''"
    "stamp 15 = 15 * nanos" "word ''a.b'' \<and> word ''1.5'' \<and> word ''x=y''" by code_simp+
  show ?thesis
    using graphite_split [of "''a.b''" "''1.5''" "[''x=y'']" 15 "NewOpenTSDBSplitter (\<lambda>_. None)" 0 "''a.b 1.5 15 x=y''" None] e
    by (simp add: NewOpenTSDBSplitter_def)
qed

section \<open>Other formats\<close>

lemma split_from_single: "split_from x [] acc s = [acc @ s] \<longleftrightarrow> x \<notin> set s"
proof (induction s arbitrary: acc)
  case (Cons a s)
  then show ?case using Cons.IH [of "acc @ [a]"] by (cases "x = a") simp_all
qed simp

lemma Split_equal: "(\<exists>a b cs. Split v ''='' = a # b # cs) \<longleftrightarrow> Contains v ''=''"
proof -
  have c: "Contains v ''='' \<longleftrightarrow> CHR ''='' \<in> set v" by (induction v) auto
  have "Split v ''='' = [v] \<longleftrightarrow> \<not> Contains v ''=''" using split_from_single [of "CHR ''=''" "[]" v] by (simp add: c Split_def)
  moreover have "length (Split v ''='') = 1 \<longleftrightarrow> Split v ''='' = [v]"
    using Join_Split [of "''=''" v] by (auto simp: length_Suc_conv)
  ultimately show ?thesis using Split_not_Nil [of "''=''" v] by (cases "Split v ''=''"; cases "tl (Split v ''='')") auto
qed

lemma carbontwo_tags_None: "carbontwo_tags vs = None \<longleftrightarrow> (\<exists>v \<in> set vs. \<not> Contains v ''='')"
proof (induction vs)
  case (Cons v vs)
  then show ?case
    using Split_equal [of v] by (auto simp: EQUAL_SEPARATOR_def split: list.splits)
qed simp

text \<open>
  C29. The carbon2 splitter panics exactly on the lines with at least two meta tags and an acceptable time of
  which some meta tag has no equal sign.
\<close>

theorem carbontwo_panics:
  "carbontwo_ProcessLine now pooled line = None \<longleftrightarrow>
    (\<exists>key vals. carbontwo_parts (CARBONTWO_REPLACER line) = Some (key, vals) \<and> 4 \<le> length vals \<and>
      (\<forall>i. ParseInt (last vals) = Some i \<longrightarrow> 0 < i) \<and>
      (\<exists>v \<in> set (take (length vals - 2) vals). \<not> Contains v ''=''))"
proof (cases "carbontwo_parts (CARBONTWO_REPLACER line)")
  case (Some kv)
  obtain key vals where kv: "kv = (key, vals)" by (cases kv)
  have l: "vals ! (length vals - 1) = last vals" if "2 \<le> length vals"
    using that by (cases vals rule: rev_cases) simp_all
  have "carbontwo_ProcessLine now pooled line = None \<longleftrightarrow> 4 \<le> length vals \<and>
      (\<forall>i. ParseInt (last vals) = Some i \<longrightarrow> 0 < i) \<and> carbontwo_tags (take (length vals - 2) vals) = None"
    using l by (auto simp: carbontwo_ProcessLine_def Some kv Let_def not_le not_less split: option.splits bind_splits)
  then show ?thesis using Some kv by (simp add: carbontwo_tags_None)
qed (simp add: carbontwo_ProcessLine_def Let_def)

lemma FormatInt_2: "FormatInt 2 = ''2''" by code_simp

theorem carbontwo_panics_witness: "carbontwo_ProcessLine 0 None ''a=b  x y=z 1 2'' = None"
proof -
  have "CARBONTWO_REPLACER ''a=b  x y=z 1 2'' = ''a=b  x y=z 1 2''" by (simp add: CARBONTWO_REPLACER_def)
  moreover have "carbontwo_parts ''a=b  x y=z 1 2'' = Some (''a=b'', [''x'', ''y=z'', ''1'', ''2''])" by code_simp
  moreover have "ParseInt ''2'' = Some 2" using ParseInt_FormatInt [of 2] by (simp add: FormatInt_2)
  moreover have "\<not> Contains ''x'' ''=''" by code_simp
  ultimately show ?thesis using carbontwo_panics [of 0 None "''a=b  x y=z 1 2''"] by simp
qed

text \<open>
  An item of the JSON splitter for an object without tags has the tags of the object that used the pooled item
  before, and its phase and origin.
\<close>

theorem json_pool_leaks:
  assumes "js_Metric j \<noteq> []" "js_Tags j = []" "marshal j = Inr line"
  shows "\<exists>it. ParseJson marshal (Some old) j = Inr it \<and> inkey it = js_Metric j \<and> inline it = line \<and>
    tags it = tags old \<and> inphase it = inphase old \<and> inorigin it = inorigin old"
  using assms by (simp add: ParseJson_def getJsonItem_def Let_def)

definition json_object :: "string \<Rightarrow> (string \<times> string) list \<Rightarrow> JsonStructSplitItem" where
  "json_object m ts = \<lparr>js_Metric = m, js_Value = 0, js_Time = 1, js_Tags = ts\<rparr>"

theorem json_pool_leaks_witness:
  "\<exists>old it. ParseJson (\<lambda>j. Inr (js_Metric j)) None (json_object ''a'' [(''x'', ''y'')]) = Inr old \<and>
    ParseJson (\<lambda>j. Inr (js_Metric j)) (Some old) (json_object ''b'' []) = Inr it \<and> tags it = [(''x'', ''y'')]"
  using json_pool_leaks [of "json_object ''b'' []" "\<lambda>j. Inr (js_Metric j)" "''b''"]
  by (force simp: ParseJson_def [of _ None] json_object_def getJsonItem_def Let_def)

end
