(* ===== verification/Indexer_Utils.thy ===== *)
theory Indexer_Utils
  imports Tags Go_Text
begin

text \<open>
  The helpers of the indexers (\<^verbatim>\<open>writers/indexer/utils.go\<close>): graphite globs as regular expressions and
  as trie queries, splitting of lists of metric paths, and the tag queries of OpenTSDB. Strings are
  valid UTF-8, so that a range over the runes of a string puts the same bytes together again.
\<close>

definition any_of :: "string \<Rightarrow> string \<Rightarrow> bool" where
  "any_of s chars \<longleftrightarrow> list_ex (\<lambda>c. c \<in> set chars) s"

definition needRegex :: "string \<Rightarrow> bool" where
  "needRegex metric = any_of metric ''(|*?[{^$''"

definition regifyKeyString :: "string \<Rightarrow> string" where
  "regifyKeyString name =
     (let r = replace_all ''..'' ''.'' name;
          r = replace_all ''{'' ''('' r;
          r = replace_all ''}'' '')'' r;
          r = replace_all '','' ''|'' r;
          r = replace_all ''.'' [CHR 0x5C, CHR ''.''] r
      in replace_all ''*'' ''.*'' r)"

definition regifyMysqlKeyString :: "string \<Rightarrow> string" where
  "regifyMysqlKeyString name =
     (let r = replace_all ''..'' ''.'' name;
          r = replace_all ''{'' ''('' r;
          r = replace_all ''}'' '')'' r;
          r = replace_all '','' ''|'' r
      in replace_all ''*'' ''.*'' r)"

fun non_regex_prefix :: "string list \<Rightarrow> string list" where
  "non_regex_prefix [] = []"
| "non_regex_prefix (s # ss) = (if needRegex s then [] else s # non_regex_prefix ss)"

definition findFirstNonRegexSegment :: "string \<Rightarrow> string" where
  "findFirstNonRegexSegment name = Join (non_regex_prefix (Split name ''.'')) ''.''"

definition fullRegString :: "string \<Rightarrow> string" where
  "fullRegString name =
     (let r = regifyKeyString name;
          r = (if \<not> HasPrefix r ''^'' then ''^'' @ r else r)
      in if \<not> HasSuffix r ''$'' then r @ ''$'' else r)"

text \<open>The compiler of regular expressions is an argument: a matcher, or none on an error.\<close>

type_synonym regexp = "string \<Rightarrow> bool"

definition regifyKey :: "(string \<Rightarrow> regexp option) \<Rightarrow> string \<Rightarrow> regexp option" where
  "regifyKey compile name = compile (fullRegString name)"

definition isUid :: "string \<Rightarrow> bool" where
  "isUid nm \<longleftrightarrow>
     (if length nm > 14 then False
      else nm \<noteq> [] \<and> list_all (\<lambda>c. let n = (of_char c :: nat) in
        (48 \<le> n \<and> n \<le> 57) \<or> (65 \<le> n \<and> n \<le> 90) \<or> (97 \<le> n \<and> n \<le> 122)) nm)"

record glob_state =
  outgs :: "string list"
  gotFirst :: bool
  pGlob :: string
  regStr :: string

definition glob_step :: "char \<Rightarrow> glob_state \<Rightarrow> glob_state" where
  "glob_step c s =
     (if c = CHR ''{'' then s\<lparr>gotFirst := True, regStr := regStr s @ ''(''\<rparr>
      else if c = CHR ''}'' then
        (if gotFirst s \<and> length (pGlob s) > 0
         then s\<lparr>outgs := outgs s @ [pGlob s], regStr := regStr s @ '')'', gotFirst := False\<rparr> else s)
      else if c = CHR '','' then (if gotFirst s then s\<lparr>regStr := regStr s @ ''|''\<rparr> else s)
      else (let s1 = (if gotFirst s then s\<lparr>pGlob := pGlob s @ [c]\<rparr> else s) in s1\<lparr>regStr := regStr s1 @ [c]\<rparr>))"

definition toGlob :: "string \<Rightarrow> string \<times> string list" where
  "toGlob metric =
     (let s = fold glob_step metric \<lparr>outgs = [], gotFirst = False, pGlob = [], regStr = []\<rparr>
      in (replace_all ''*'' ''.*'' (regStr s), outgs s))"

text \<open>The list so far, whether a brace is open, and the current piece.\<close>

fun split_paths :: "string list \<Rightarrow> bool \<Rightarrow> string \<Rightarrow> string \<Rightarrow> string list" where
  "split_paths out inside cur [] = (if length cur > 0 then out @ [cur] else out)"
| "split_paths out inside cur (c # s) =
     (if c = CHR ''{'' then split_paths out True (cur @ [c]) s
      else if c = CHR ''}'' then split_paths out False (cur @ [c]) s
      else if c = CHR '','' then
        (if \<not> inside then split_paths (out @ [cur]) inside [] s else split_paths out inside (cur @ [c]) s)
      else split_paths out inside (cur @ [c]) s)"

definition splitMetricsPath :: "string \<Rightarrow> string list" where
  "splitMetricsPath metric = split_paths [] False [] metric"

text \<open>The test looks at the whole metric for each of its parts.\<close>

definition toTrieQuery :: "string \<Rightarrow> string" where
  "toTrieQuery metric =
     Join (map (\<lambda>spl. if any_of metric ''*?[{^$}])('' then ''*'' else spl) (Split metric ''.'')) ''.''"

record tsdb_state =
  q_inner :: string
  q_key :: string
  collecting :: bool
  keyCollecting :: bool

definition tsdb_step :: "char \<Rightarrow> tsdb_state \<Rightarrow> tsdb_state" where
  "tsdb_step c s =
     (if c = CHR ''{'' then s\<lparr>collecting := True, keyCollecting := False\<rparr>
      else if c = CHR ''}'' then s\<lparr>collecting := False\<rparr>
      else
        let s1 = (if collecting s then s\<lparr>q_inner := q_inner s @ [c]\<rparr> else s)
        in if keyCollecting s1 then s1\<lparr>q_key := q_key s1 @ [c]\<rparr> else s1)"

definition tsdb_tag :: "string \<Rightarrow> SortingTags \<Rightarrow> SortingTags" where
  "tsdb_tag tg ts =
     (let t_split = Split (TrimSpace tg) ''='' in
      if length t_split = 2 then tags_Set ts (t_split ! 0) (t_split ! 1) else ts)"

text \<open>The key and the tags, and whether the query is accepted.\<close>

definition ParseOpenTSDBTags :: "string \<Rightarrow> string \<times> SortingTags \<times> bool" where
  "ParseOpenTSDBTags query =
     (let s = fold tsdb_step query \<lparr>q_inner = [], q_key = [], collecting = False, keyCollecting = True\<rparr> in
      if length (q_inner s) = 0 \<or> collecting s then (q_key s, [], False)
      else (q_key s, fold tsdb_tag (Split (q_inner s) '','') [], True))"

end
