(* ===== verification/Tag_Index.thy ===== *)
theory Tag_Index
  imports Indexer_Utils "HOL-Library.AList"
begin

text \<open>
  The index of tags in memory (\<^verbatim>\<open>writers/indexer/tag_ram.go\<close>), with its locks: the number of
  readers that hold each lock. An operation that takes a lock for writing waits until there is no reader; in a
  run of one operation after the other nobody else gives a lock back, so that such an operation
  never returns, which is \<open>None\<close>.
\<close>

record TagIndex =
  nameIndex :: "(string \<times> string list) list"
  uidIndex :: "string \<Rightarrow> string list option"
  uidInvertIndex :: "string \<Rightarrow> Tag list option"
  nmLock :: nat
  uidLock :: nat
  uidInvLoc :: nat

definition NewTagIndex :: TagIndex where
  "NewTagIndex = \<lparr>nameIndex = [], uidIndex = (\<lambda>_. None), uidInvertIndex = (\<lambda>_. None),
     nmLock = 0, uidLock = 0, uidInvLoc = 0\<rparr>"

text \<open>Taking a lock for writing.\<close>

definition Lock :: "nat \<Rightarrow> unit option" where
  "Lock readers = (if readers = 0 then Some () else None)"

definition name_value :: "Tag \<Rightarrow> string" where
  "name_value t = Name t @ ''='' @ Value t"

definition add_name :: "Tag \<Rightarrow> (string \<times> string list) list \<Rightarrow> (string \<times> string list) list" where
  "add_name t idx =
     (case map_of idx (Name t) of
        Some g \<Rightarrow> if Value t \<in> set g then idx else AList.update (Name t) (g @ [Value t]) idx
      | None \<Rightarrow> AList.update (Name t) [Value t] idx)"

definition nil_or :: "'a list option \<Rightarrow> 'a list" where
  "nil_or x = (case x of None \<Rightarrow> [] | Some xs \<Rightarrow> xs)"

definition add_tag :: "string \<Rightarrow> Tag \<Rightarrow> TagIndex \<Rightarrow> TagIndex option" where
  "add_tag uid t tv = do {
     let nv = name_value t;
     Lock (uidInvLoc tv);
     let isNew = (uidInvertIndex tv uid = None);
     tv1 \<leftarrow> (if isNew then do {
         Lock (uidLock tv);
         Some (tv\<lparr>uidIndex := (uidIndex tv)(nv \<mapsto> [uid]), uidInvertIndex := (uidInvertIndex tv)(uid \<mapsto> [t])\<rparr>) }
       else Some tv);
     Lock (nmLock tv1);
     let tv2 = tv1\<lparr>nameIndex := add_name t (nameIndex tv1)\<rparr>;
     if \<not> isNew then do {
       Lock (uidLock tv2);
       Some (tv2\<lparr>uidInvertIndex := (uidInvertIndex tv2)(uid \<mapsto> nil_or (uidInvertIndex tv2 uid) @ [t]),
         uidIndex := (uidIndex tv2)(nv \<mapsto> nil_or (uidIndex tv2 nv) @ [uid])\<rparr>) }
     else Some tv2 }"

fun ti_Add :: "string \<Rightarrow> Tag list \<Rightarrow> TagIndex \<Rightarrow> TagIndex option" where
  "ti_Add uid [] tv = Some tv"
| "ti_Add uid (t # ts) tv = do { tv1 \<leftarrow> add_tag uid t tv; ti_Add uid ts tv1 }"

definition drop_uid :: "string \<Rightarrow> Tag \<Rightarrow> (string \<Rightarrow> string list option) \<Rightarrow> string \<Rightarrow> string list option" where
  "drop_uid uid t idx =
     (case idx (name_value t) of
        None \<Rightarrow> idx
      | Some uids \<Rightarrow> idx(name_value t \<mapsto> filter (\<lambda>u. u \<noteq> uid) uids))"

definition ti_DeleteByUid :: "string \<Rightarrow> TagIndex \<Rightarrow> TagIndex option" where
  "ti_DeleteByUid uid tv = do {
     Lock (uidInvLoc tv);
     Lock (uidLock tv);
     Some (case uidInvertIndex tv uid of
        None \<Rightarrow> tv
      | Some tags \<Rightarrow> tv\<lparr>uidIndex := fold (drop_uid uid) tags (uidIndex tv),
          uidInvertIndex := (uidInvertIndex tv)(uid := None)\<rparr>) }"

definition FindTagsByUid :: "string \<Rightarrow> TagIndex \<Rightarrow> Tag list option" where
  "FindTagsByUid uid tv = uidInvertIndex tv uid"

text \<open>
  The queries take their lock for reading, and where they should give it back they take it once more.
\<close>

definition hold_names :: "TagIndex \<Rightarrow> TagIndex" where
  "hold_names tv = tv\<lparr>nmLock := nmLock tv + 2\<rparr>"

definition hold_uids :: "TagIndex \<Rightarrow> TagIndex" where
  "hold_uids tv = tv\<lparr>uidLock := uidLock tv + 2\<rparr>"

text \<open>The pairs of a name and a value, or none on an expression that does not compile.\<close>

definition matching_names :: "regexp \<Rightarrow> TagIndex \<Rightarrow> (string \<times> string) list" where
  "matching_names reg tv =
     concat (map (\<lambda>(nm, vs). if reg nm then map (\<lambda>v. (nm, v)) vs else []) (nameIndex tv))"

definition GetTagsByName ::
  "(string \<Rightarrow> regexp option) \<Rightarrow> string \<Rightarrow> TagIndex \<Rightarrow> (string \<times> string) list option \<times> TagIndex" where
  "GetTagsByName compile nm tv =
     ((case (if needRegex nm then None else map_of (nameIndex tv) nm) of
         Some g \<Rightarrow> Some (map (\<lambda>v. (nm, v)) g)
       | None \<Rightarrow> map_option (\<lambda>reg. matching_names reg tv) (regifyKey compile nm)),
      hold_names tv)"

definition FindTagValuesByName ::
  "(string \<Rightarrow> regexp option) \<Rightarrow> string \<Rightarrow> TagIndex \<Rightarrow> string list option \<times> TagIndex" where
  "FindTagValuesByName compile nm tv =
     ((case (if needRegex nm then None else map_of (nameIndex tv) nm) of
         Some g \<Rightarrow> Some g
       | None \<Rightarrow> map_option (\<lambda>reg. map snd (matching_names reg tv)) (regifyKey compile nm)),
      hold_names tv)"

text \<open>Values are compared by an expression or without regard to case (\<open>fold_eq\<close>).\<close>

definition matching_values ::
  "(string \<Rightarrow> regexp option) \<Rightarrow> (string \<Rightarrow> string \<Rightarrow> bool) \<Rightarrow> string \<Rightarrow> string \<Rightarrow> TagIndex \<Rightarrow> Tag list option" where
  "matching_values compile fold_eq nm value tv =
     (case map_of (nameIndex tv) nm of
        None \<Rightarrow> Some []
      | Some gotNm \<Rightarrow>
          if needRegex value then
            map_option (\<lambda>reg. map (\<lambda>v. \<lparr>Name = nm, Value = v\<rparr>) (filter reg gotNm)) (regifyKey compile value)
          else Some (map (\<lambda>v. \<lparr>Name = nm, Value = v\<rparr>) (filter (\<lambda>v. fold_eq v value) gotNm)))"

definition FindTagsByValue ::
  "(string \<Rightarrow> regexp option) \<Rightarrow> (string \<Rightarrow> string \<Rightarrow> bool) \<Rightarrow> string \<Rightarrow> string \<Rightarrow> TagIndex \<Rightarrow> Tag list option \<times> TagIndex" where
  "FindTagsByValue compile fold_eq nm value tv = (matching_values compile fold_eq nm value tv, hold_names tv)"

definition GetTagsByNameValue ::
  "(string \<Rightarrow> regexp option) \<Rightarrow> (string \<Rightarrow> string \<Rightarrow> bool) \<Rightarrow> string \<Rightarrow> string \<Rightarrow> TagIndex \<Rightarrow>
    (string \<times> string) list option \<times> TagIndex" where
  "GetTagsByNameValue compile fold_eq nm value tv =
     (map_option (map (\<lambda>t. (Name t, Value t))) (matching_values compile fold_eq nm value tv), hold_names tv)"

definition FindUidByTag :: "Tag \<Rightarrow> TagIndex \<Rightarrow> string list \<times> TagIndex" where
  "FindUidByTag tag tv = (nil_or (uidIndex tv (name_value tag)), hold_uids tv)"

text \<open>The uids of any of the tags, each once.\<close>

definition see_uid :: "string \<Rightarrow> string list \<Rightarrow> string list" where
  "see_uid uid outSet = (if uid \<in> set outSet then outSet else outSet @ [uid])"

definition FindUidByTags :: "SortingTags \<Rightarrow> TagIndex \<Rightarrow> string list \<times> TagIndex" where
  "FindUidByTags tags tv =
     (fold (\<lambda>tag. fold see_uid (nil_or (uidIndex tv (name_value tag)))) tags [], hold_uids tv)"

end
