(* ===== verification/Tag_Index_Laws.thy ===== *)
theory Tag_Index_Laws
  imports Tag_Index
begin

text \<open>
  What the index of tags keeps: the tags of an id exactly, the ids of a tag only in one direction; and
  that it takes no more writes after a query.
\<close>

section \<open>Writes with free locks\<close>

definition unlocked :: "TagIndex \<Rightarrow> bool" where
  "unlocked tv \<longleftrightarrow> nmLock tv = 0 \<and> uidLock tv = 0 \<and> uidInvLoc tv = 0"

lemma nil_or_simps [simp]: "nil_or None = []" "nil_or (Some xs) = xs"
  by (simp_all add: nil_or_def)

lemma add_tag_unlocked:
  assumes "unlocked tv"
  shows "add_tag uid t tv = Some (tv\<lparr>nameIndex := add_name t (nameIndex tv),
    uidInvertIndex := (uidInvertIndex tv)(uid \<mapsto> nil_or (uidInvertIndex tv uid) @ [t]),
    uidIndex := (uidIndex tv)(name_value t \<mapsto>
      (if uidInvertIndex tv uid = None then [] else nil_or (uidIndex tv (name_value t))) @ [uid])\<rparr>)"
  using assms by (auto simp: add_tag_def unlocked_def Lock_def Let_def)

lemma unlocked_update [simp]:
  "unlocked (tv\<lparr>nameIndex := a, uidInvertIndex := b, uidIndex := c\<rparr>) = unlocked tv"
  "unlocked (tv\<lparr>uidIndex := c, uidInvertIndex := b\<rparr>) = unlocked tv"
  by (simp_all add: unlocked_def)

lemma add_tag_fields:
  assumes "unlocked tv"
  obtains tv1 where "add_tag uid t tv = Some tv1" "unlocked tv1"
    "nameIndex tv1 = add_name t (nameIndex tv)"
    "uidInvertIndex tv1 = (uidInvertIndex tv)(uid \<mapsto> nil_or (uidInvertIndex tv uid) @ [t])"
    "uidIndex tv1 = (uidIndex tv)(name_value t \<mapsto>
      (if uidInvertIndex tv uid = None then [] else nil_or (uidIndex tv (name_value t))) @ [uid])"
  using assms that by (simp add: add_tag_unlocked)

lemma ti_Add_total: "unlocked tv \<Longrightarrow> \<exists>tv'. ti_Add uid ts tv = Some tv' \<and> unlocked tv'"
  by (induction ts arbitrary: tv) (simp_all add: add_tag_unlocked)

lemma ti_Add_tags:
  "unlocked tv \<Longrightarrow> ti_Add uid ts tv = Some tv' \<Longrightarrow>
    uidInvertIndex tv' = (if ts = [] then uidInvertIndex tv
      else (uidInvertIndex tv)(uid \<mapsto> nil_or (uidInvertIndex tv uid) @ ts))"
proof (induction ts arbitrary: tv)
  case (Cons t ts)
  obtain tv1 where tv1: "add_tag uid t tv = Some tv1" "unlocked tv1"
    "uidInvertIndex tv1 = (uidInvertIndex tv)(uid \<mapsto> nil_or (uidInvertIndex tv uid) @ [t])"
    by (rule add_tag_fields [OF Cons.prems(1)])
  then have "ti_Add uid ts tv1 = Some tv'" using Cons.prems(2) by simp
  from Cons.IH [OF tv1(2) this] show ?case using tv1(3) by (cases "ts = []") auto
qed simp

lemma ti_Add_other_uids:
  "unlocked tv \<Longrightarrow> ti_Add uid ts tv = Some tv' \<Longrightarrow> nv \<notin> name_value ` set ts \<Longrightarrow> uidIndex tv' nv = uidIndex tv nv"
proof (induction ts arbitrary: tv)
  case (Cons t ts)
  obtain tv1 where tv1: "add_tag uid t tv = Some tv1" "unlocked tv1"
    "uidIndex tv1 = (uidIndex tv)(name_value t \<mapsto>
      (if uidInvertIndex tv uid = None then [] else nil_or (uidIndex tv (name_value t))) @ [uid])"
    by (rule add_tag_fields [OF Cons.prems(1)])
  then have "ti_Add uid ts tv1 = Some tv'" using Cons.prems(2) by simp
  then show ?case using Cons.IH [OF tv1(2)] Cons.prems(3) tv1(3) by simp
qed simp

section \<open>The invariant\<close>

text \<open>An id listed under a tag has that tag.\<close>

definition indexed :: "TagIndex \<Rightarrow> bool" where
  "indexed tv \<longleftrightarrow> (\<forall>nv u. u \<in> set (nil_or (uidIndex tv nv)) \<longrightarrow>
     (\<exists>t \<in> set (nil_or (uidInvertIndex tv u)). name_value t = nv))"

text \<open>The values of a name are known, each once.\<close>

definition named :: "TagIndex \<Rightarrow> bool" where
  "named tv \<longleftrightarrow> (\<forall>nm. distinct (nil_or (map_of (nameIndex tv) nm))) \<and>
     (\<forall>u. \<forall>t \<in> set (nil_or (uidInvertIndex tv u)). Value t \<in> set (nil_or (map_of (nameIndex tv) (Name t))))"

lemma add_name_values:
  "set (nil_or (map_of (add_name t idx) nm)) =
     (if nm = Name t then insert (Value t) else (\<lambda>s. s)) (set (nil_or (map_of idx nm)))"
  "\<forall>nm. distinct (nil_or (map_of idx nm)) \<Longrightarrow> distinct (nil_or (map_of (add_name t idx) nm))"
  unfolding add_name_def
  by (auto simp: update_conv' split: option.splits) (metis nil_or_simps(2))

lemma indexed_add:
  assumes "indexed tv" "uidInvertIndex tv1 = (uidInvertIndex tv)(uid \<mapsto> nil_or (uidInvertIndex tv uid) @ [t])"
    "uidIndex tv1 = (uidIndex tv)(name_value t \<mapsto> us @ [uid])" "set us \<subseteq> set (nil_or (uidIndex tv (name_value t)))"
  shows "indexed tv1"
  unfolding indexed_def
proof (intro allI impI)
  fix nv u assume u: "u \<in> set (nil_or (uidIndex tv1 nv))"
  have sub: "set (nil_or (uidInvertIndex tv v)) \<subseteq> set (nil_or (uidInvertIndex tv1 v))" for v
    using assms(2) by auto
  show "\<exists>s \<in> set (nil_or (uidInvertIndex tv1 u)). name_value s = nv"
  proof (cases "nv = name_value t \<and> u = uid")
    case True
    then show ?thesis using assms(2) by simp
  next
    case False
    then have "u \<in> set (nil_or (uidIndex tv nv))" using u assms(3,4) by (auto split: if_splits)
    then show ?thesis using assms(1) sub [of u] unfolding indexed_def by blast
  qed
qed

lemma named_add:
  assumes "named tv" "uidInvertIndex tv1 = (uidInvertIndex tv)(uid \<mapsto> nil_or (uidInvertIndex tv uid) @ [t])"
    "nameIndex tv1 = add_name t (nameIndex tv)"
  shows "named tv1"
proof -
  have v: "set (nil_or (map_of (nameIndex tv1) nm)) =
      (if nm = Name t then insert (Value t) else (\<lambda>s. s)) (set (nil_or (map_of (nameIndex tv) nm)))" for nm
    using assms(3) add_name_values(1) by simp
  have "Value s \<in> set (nil_or (map_of (nameIndex tv1) (Name s)))" if "s \<in> set (nil_or (uidInvertIndex tv1 u))" for s u
  proof (cases "s = t")
    case False
    then have "s \<in> set (nil_or (uidInvertIndex tv u))" using that assms(2) by (auto split: if_splits)
    then have "Value s \<in> set (nil_or (map_of (nameIndex tv) (Name s)))" using assms(1) unfolding named_def by blast
    then show ?thesis using v [of "Name s"] by (cases "Name s = Name t") simp_all
  qed (use v in simp)
  moreover have "distinct (nil_or (map_of (nameIndex tv1) nm))" for nm
    using assms(1,3) add_name_values(2) by (simp add: named_def)
  ultimately show ?thesis by (simp add: named_def)
qed

lemma add_tag_indexed:
  assumes "unlocked tv" "indexed tv" "named tv" "add_tag uid t tv = Some tv'"
  shows "indexed tv' \<and> named tv'"
proof -
  obtain tv1 where tv1: "add_tag uid t tv = Some tv1" "nameIndex tv1 = add_name t (nameIndex tv)"
    "uidInvertIndex tv1 = (uidInvertIndex tv)(uid \<mapsto> nil_or (uidInvertIndex tv uid) @ [t])"
    "uidIndex tv1 = (uidIndex tv)(name_value t \<mapsto>
      (if uidInvertIndex tv uid = None then [] else nil_or (uidIndex tv (name_value t))) @ [uid])"
    by (rule add_tag_fields [OF assms(1)])
  have "indexed tv1" by (rule indexed_add [OF assms(2) tv1(3,4)]) simp
  moreover have "named tv1" by (rule named_add [OF assms(3) tv1(3,2)])
  ultimately show ?thesis using tv1(1) assms(4) by simp
qed

lemma ti_Add_indexed:
  "unlocked tv \<Longrightarrow> indexed tv \<Longrightarrow> named tv \<Longrightarrow> ti_Add uid ts tv = Some tv' \<Longrightarrow> indexed tv' \<and> named tv'"
proof (induction ts arbitrary: tv)
  case (Cons t ts)
  obtain tv1 where tv1: "add_tag uid t tv = Some tv1" "ti_Add uid ts tv1 = Some tv'"
    using Cons.prems(4) by (auto split: bind_splits)
  then have "unlocked tv1" using add_tag_fields [OF Cons.prems(1)] by (metis option.inject)
  then show ?case using Cons.IH [of tv1] add_tag_indexed [OF Cons.prems(1-3) tv1(1)] tv1(2) by blast
qed simp

lemma fold_drop_uid:
  "set (nil_or (fold (drop_uid uid) tags idx nv)) =
     set (nil_or (idx nv)) - (if nv \<in> name_value ` set tags then {uid} else {})"
proof (induction tags arbitrary: idx)
  case (Cons t ts)
  have "set (nil_or (drop_uid uid t idx nv)) = set (nil_or (idx nv)) - (if nv = name_value t then {uid} else {})"
    by (auto simp: drop_uid_def split: option.splits)
  then show ?case using Cons by auto
qed simp

lemma ti_DeleteByUid_unlocked:
  assumes "unlocked tv" "indexed tv" "named tv"
  shows "\<exists>tv'. ti_DeleteByUid uid tv = Some tv' \<and> unlocked tv' \<and> indexed tv' \<and> named tv' \<and>
    uidInvertIndex tv' = (uidInvertIndex tv)(uid := None)"
proof (cases "uidInvertIndex tv uid")
  case None
  then have "(uidInvertIndex tv)(uid := None) = uidInvertIndex tv" by auto
  then show ?thesis using assms None by (simp add: ti_DeleteByUid_def unlocked_def Lock_def)
next
  case (Some ts)
  define tv' where "tv' = tv\<lparr>uidIndex := fold (drop_uid uid) ts (uidIndex tv),
    uidInvertIndex := (uidInvertIndex tv)(uid := None)\<rparr>"
  have "indexed tv'"
    unfolding indexed_def
  proof (intro allI impI)
    fix nv u assume u: "u \<in> set (nil_or (uidIndex tv' nv))"
    then have "u \<in> set (nil_or (uidIndex tv nv))" "nv \<in> name_value ` set ts \<longrightarrow> u \<noteq> uid"
      by (auto simp: tv'_def fold_drop_uid split: if_splits)
    moreover from this obtain t where t: "t \<in> set (nil_or (uidInvertIndex tv u))" "name_value t = nv"
      using assms(2) unfolding indexed_def by blast
    ultimately have "u \<noteq> uid" using Some by auto
    then show "\<exists>t \<in> set (nil_or (uidInvertIndex tv' u)). name_value t = nv" using t by (auto simp: tv'_def)
  qed
  moreover have "named tv'" using assms(3) by (auto simp: named_def tv'_def)
  moreover have "ti_DeleteByUid uid tv = Some tv'"
    using assms(1) Some by (simp add: ti_DeleteByUid_def unlocked_def Lock_def tv'_def)
  ultimately show ?thesis using assms(1) by (auto simp: tv'_def)
qed

section \<open>Runs\<close>

datatype ti_write = Add_tags string "Tag list" | Delete_uid string

fun ti_run :: "ti_write list \<Rightarrow> TagIndex \<Rightarrow> TagIndex option" where
  "ti_run [] tv = Some tv"
| "ti_run (Add_tags u ts # ops) tv = do { tv1 \<leftarrow> ti_Add u ts tv; ti_run ops tv1 }"
| "ti_run (Delete_uid u # ops) tv = do { tv1 \<leftarrow> ti_DeleteByUid u tv; ti_run ops tv1 }"

text \<open>The tags an id was given since it was deleted last.\<close>

fun tags_after :: "ti_write list \<Rightarrow> (string \<Rightarrow> Tag list option) \<Rightarrow> string \<Rightarrow> Tag list option" where
  "tags_after [] m = m"
| "tags_after (Add_tags u ts # ops) m =
     tags_after ops (if ts = [] then m else m(u \<mapsto> nil_or (m u) @ ts))"
| "tags_after (Delete_uid u # ops) m = tags_after ops (m(u := None))"

lemma ti_run_refines:
  "unlocked tv \<Longrightarrow> indexed tv \<Longrightarrow> named tv \<Longrightarrow>
    \<exists>tv'. ti_run ops tv = Some tv' \<and> uidInvertIndex tv' = tags_after ops (uidInvertIndex tv) \<and> indexed tv' \<and> named tv'"
proof (induction ops arbitrary: tv)
  case (Cons op ops)
  show ?case
  proof (cases op)
    case (Add_tags u ts)
    obtain tv1 where tv1: "ti_Add u ts tv = Some tv1" "unlocked tv1"
      using ti_Add_total [OF Cons.prems(1)] by blast
    then have "indexed tv1" "named tv1" using ti_Add_indexed Cons.prems by blast+
    then show ?thesis using Cons.IH [of tv1] tv1 ti_Add_tags [OF Cons.prems(1) tv1(1)] Add_tags by simp
  next
    case (Delete_uid u)
    then show ?thesis using ti_DeleteByUid_unlocked [OF Cons.prems, of u] Cons.IH by fastforce
  qed
qed simp

text \<open>
  C30. Whatever tags are added and ids deleted, the index returns from every call; it gives for an id the tags
  it was given since it was last deleted, in order; an id it finds under a tag has that tag, so
  that a deleted id is found nowhere; and the values it knows for a name hold those of all present tags, each once.
\<close>

theorem tag_index_sound:
  "\<exists>tv. ti_run ops NewTagIndex = Some tv \<and> (\<forall>u. FindTagsByUid u tv = tags_after ops (\<lambda>_. None) u) \<and>
    (\<forall>t. \<forall>u \<in> set (fst (FindUidByTag t tv)).
      \<exists>s \<in> set (nil_or (tags_after ops (\<lambda>_. None) u)). name_value s = name_value t) \<and>
    (\<forall>u. \<forall>t \<in> set (nil_or (tags_after ops (\<lambda>_. None) u)).
      Value t \<in> set (nil_or (map_of (nameIndex tv) (Name t))) \<and> distinct (nil_or (map_of (nameIndex tv) (Name t))))"
proof -
  have "unlocked NewTagIndex" "indexed NewTagIndex" "named NewTagIndex"
    by (simp_all add: NewTagIndex_def unlocked_def indexed_def named_def)
  from ti_run_refines [OF this, of ops] show ?thesis
    by (auto simp: NewTagIndex_def FindTagsByUid_def FindUidByTag_def indexed_def named_def)
qed

definition tag :: "string \<Rightarrow> string \<Rightarrow> Tag" where
  "tag n v = \<lparr>Name = n, Value = v\<rparr>"

theorem tag_index_sound_witness:
  "\<exists>tv. ti_run [Add_tags ''u'' [tag ''a'' ''1'', tag ''b'' ''2''], Delete_uid ''w''] NewTagIndex = Some tv \<and>
    FindTagsByUid ''u'' tv = Some [tag ''a'' ''1'', tag ''b'' ''2''] \<and> FindTagsByUid ''w'' tv = None"
  using tag_index_sound [of "[Add_tags ''u'' [tag ''a'' ''1'', tag ''b'' ''2''], Delete_uid ''w'']"] by fastforce

text \<open>
  The first tag of a new id makes the index forget the other ids of that tag: after adding, the new id is the
  only one found under it.
\<close>

theorem tag_index_forgets:
  assumes "unlocked tv" "FindTagsByUid uid tv = None" "name_value t \<notin> name_value ` set ts"
  shows "\<exists>tv'. ti_Add uid (t # ts) tv = Some tv' \<and> fst (FindUidByTag t tv') = [uid]"
proof -
  obtain tv1 where tv1: "add_tag uid t tv = Some tv1" "unlocked tv1" "uidIndex tv1 (name_value t) = Some [uid]"
    using assms(1,2) by (auto simp: add_tag_unlocked FindTagsByUid_def)
  obtain tv' where tv': "ti_Add uid ts tv1 = Some tv'" using ti_Add_total [OF tv1(2)] by blast
  have "uidIndex tv' (name_value t) = Some [uid]" using ti_Add_other_uids [OF tv1(2) tv' assms(3)] tv1(3) by simp
  then show ?thesis using tv1(1) tv' by (simp add: FindUidByTag_def)
qed

theorem tag_index_forgets_witness:
  "\<exists>tv tv'. ti_Add ''u'' [tag ''a'' ''1''] NewTagIndex = Some tv \<and> fst (FindUidByTag (tag ''a'' ''1'') tv) = [''u''] \<and>
    ti_Add ''w'' [tag ''a'' ''1''] tv = Some tv' \<and> fst (FindUidByTag (tag ''a'' ''1'') tv') = [''w'']"
proof -
  have u: "unlocked NewTagIndex" by (simp add: NewTagIndex_def unlocked_def)
  obtain tv where tv: "ti_Add ''u'' [tag ''a'' ''1''] NewTagIndex = Some tv" "unlocked tv"
    using ti_Add_total [OF u] by blast
  then have "FindTagsByUid ''w'' tv = None" "fst (FindUidByTag (tag ''a'' ''1'') tv) = [''u'']"
    using u by (auto simp: add_tag_unlocked FindTagsByUid_def FindUidByTag_def NewTagIndex_def)
  then show ?thesis using tag_index_forgets [OF tv(2), of "''w''" "tag ''a'' ''1''" "[]"] tv(1) by auto
qed

section \<open>Queries\<close>

datatype ti_op = Write ti_write | Tags_by_name string | Values_by_name string | Tags_by_value string string
  | Tags_by_name_value string string | Uids_by_tag Tag | Uids_by_tags SortingTags | Tags_by_uid string

fun ti_step :: "(string \<Rightarrow> regexp option) \<Rightarrow> (string \<Rightarrow> string \<Rightarrow> bool) \<Rightarrow> ti_op \<Rightarrow> TagIndex \<Rightarrow> TagIndex option" where
  "ti_step re eq (Write w) tv = ti_run [w] tv"
| "ti_step re eq (Tags_by_name nm) tv = Some (snd (GetTagsByName re nm tv))"
| "ti_step re eq (Values_by_name nm) tv = Some (snd (FindTagValuesByName re nm tv))"
| "ti_step re eq (Tags_by_value nm v) tv = Some (snd (FindTagsByValue re eq nm v tv))"
| "ti_step re eq (Tags_by_name_value nm v) tv = Some (snd (GetTagsByNameValue re eq nm v tv))"
| "ti_step re eq (Uids_by_tag t) tv = Some (snd (FindUidByTag t tv))"
| "ti_step re eq (Uids_by_tags ts) tv = Some (snd (FindUidByTags ts tv))"
| "ti_step re eq (Tags_by_uid u) tv = Some tv"

fun ti_steps :: "(string \<Rightarrow> regexp option) \<Rightarrow> (string \<Rightarrow> string \<Rightarrow> bool) \<Rightarrow> ti_op list \<Rightarrow> TagIndex \<Rightarrow> TagIndex option" where
  "ti_steps re eq [] tv = Some tv"
| "ti_steps re eq (op # ops) tv = do { tv1 \<leftarrow> ti_step re eq op tv; ti_steps re eq ops tv1 }"

lemma add_tag_locks: "add_tag uid t tv = Some tv' \<Longrightarrow> nmLock tv' = nmLock tv \<and> uidLock tv' = uidLock tv"
  by (auto simp: add_tag_def Let_def split: bind_splits if_splits)

lemma ti_Add_locks: "ti_Add uid ts tv = Some tv' \<Longrightarrow> nmLock tv' = nmLock tv \<and> uidLock tv' = uidLock tv"
  by (induction ts arbitrary: tv) (auto dest: add_tag_locks split: bind_splits)

lemma ti_step_locks:
  "ti_step re eq op tv = Some tv' \<Longrightarrow> nmLock tv \<le> nmLock tv' \<and> uidLock tv \<le> uidLock tv'"
proof (cases op)
  case (Write w)
  then show "ti_step re eq op tv = Some tv' \<Longrightarrow> ?thesis"
    by (cases w) (auto simp: ti_DeleteByUid_def split: bind_splits option.splits dest: ti_Add_locks)
qed (auto simp: GetTagsByName_def FindTagValuesByName_def FindTagsByValue_def GetTagsByNameValue_def
    FindUidByTag_def FindUidByTags_def hold_names_def hold_uids_def)

lemma ti_steps_locks:
  "ti_steps re eq ops tv = Some tv' \<Longrightarrow> nmLock tv \<le> nmLock tv' \<and> uidLock tv \<le> uidLock tv'"
  by (induction ops arbitrary: tv) (fastforce dest: ti_step_locks split: bind_splits)+

fun is_query :: "ti_op \<Rightarrow> bool" where
  "is_query (Write _) = False" | "is_query (Tags_by_uid _) = False" | "is_query _ = True"

fun is_uid_query :: "ti_op \<Rightarrow> bool" where
  "is_uid_query (Uids_by_tag _) = True" | "is_uid_query (Uids_by_tags _) = True" | "is_uid_query _ = False"

lemma query_holds:
  "is_query q \<Longrightarrow> ti_step re eq q tv = Some tv' \<Longrightarrow> if is_uid_query q then uidLock tv' > 0 else nmLock tv' > 0"
  by (cases q) (auto simp: GetTagsByName_def FindTagValuesByName_def FindTagsByValue_def GetTagsByNameValue_def
    FindUidByTag_def FindUidByTags_def hold_names_def hold_uids_def)

lemma ti_steps_append: "ti_steps re eq (xs @ ys) tv = do { tv1 \<leftarrow> ti_steps re eq xs tv; ti_steps re eq ys tv1 }"
  by (induction xs arbitrary: tv) (auto simp: bind_assoc split: bind_splits)

text \<open>
  C31. After one query for the tags of a name or for the ids of tags, whatever is done before it and after it, adding
  tags never returns; after a query for ids, deleting an id does not return either.
\<close>

theorem tag_index_stuck:
  assumes "ti_steps re eq (before @ q # after) tv = Some tv'" "is_query q" "ts \<noteq> []"
  shows "ti_Add u ts tv' = None \<and> (is_uid_query q \<longrightarrow> ti_DeleteByUid u tv' = None)"
proof -
  obtain a b where "ti_step re eq q a = Some b" "ti_steps re eq after b = Some tv'"
    using assms(1) by (auto simp: ti_steps_append split: bind_splits)
  then have h: "if is_uid_query q then uidLock tv' > 0 else nmLock tv' > 0"
    using query_holds [OF assms(2)] ti_steps_locks by (metis less_le_trans)
  have "add_tag u t tv' = None" if "nmLock tv' > 0 \<or> uidLock tv' > 0" for t
    using that by (auto simp: add_tag_def Lock_def Let_def split: bind_splits)
  then have "ti_Add u ts tv' = None" using h assms(3) by (cases ts) (auto split: if_splits)
  then show ?thesis using h by (auto simp: ti_DeleteByUid_def Lock_def)
qed

theorem tag_index_stuck_witness:
  "\<exists>tv. ti_steps (\<lambda>_. None) (=) [Write (Add_tags ''u'' [tag ''a'' ''1'']), Uids_by_tag (tag ''a'' ''1'')] NewTagIndex = Some tv \<and>
    ti_Add ''w'' [tag ''b'' ''2''] tv = None"
proof -
  have "unlocked NewTagIndex" by (simp add: NewTagIndex_def unlocked_def)
  then obtain tv where tv: "ti_steps (\<lambda>_. None) (=) [Write (Add_tags ''u'' [tag ''a'' ''1'']), Uids_by_tag (tag ''a'' ''1'')]
      NewTagIndex = Some tv" by (simp add: add_tag_unlocked)
  then show ?thesis
    using tag_index_stuck [of "\<lambda>_. None" "(=)" "[Write (Add_tags ''u'' [tag ''a'' ''1''])]" "Uids_by_tag (tag ''a'' ''1'')" "[]"
        NewTagIndex tv "[tag ''b'' ''2'']" "''w''"] by (simp del: ti_Add.simps)
qed

end
