(* ===== verification/Metric_Index.thy ===== *)
theory Metric_Index
  imports Trie Indexer_Utils Repr
begin

text \<open>
  The index of metric paths (\<^verbatim>\<open>writers/indexer/metric_ram.go\<close>): paths to ids, ids to paths, the times
  an id was seen, and the trie of paths. A search gives the errors of its expressions by their paths. The level databases hold nothing, since the code that filled them is commented
  out; what deleting from one returns is the argument \<open>db_Delete\<close>, by partition and key. Times are
  nanoseconds, the clock is an argument; an index out of range is \<open>None\<close>.
\<close>

record trieItem =
  ti_Uid :: string
  LastHit :: int
  ti_Path :: string

record MetricIndex =
  mi_nameIndex :: "(string \<times> string) list"
  mi_uidIndex :: "(string \<times> string) list"
  lastHit :: "string \<Rightarrow> int option"
  numPartitions :: int
  TrieIndex :: "trieItem Trie"

datatype index_error = ErrorCannotDeleteByRegex | LevelDBError string | RegexErrors "string list"

definition METRIC_RAM_NUM_PARITIIONS :: int where
  "METRIC_RAM_NUM_PARITIIONS = 16"

definition NewMetricIndex :: MetricIndex where
  "NewMetricIndex = \<lparr>mi_nameIndex = [], mi_uidIndex = [], lastHit = (\<lambda>_. None),
     numPartitions = METRIC_RAM_NUM_PARITIIONS, TrieIndex = New ''.''\<rparr>"

definition whichPartition :: "MetricIndex \<Rightarrow> string \<Rightarrow> nat option" where
  "whichPartition mi met =
     (let part = int (count_list met (CHR ''.'')) + 1; s = part mod numPartitions mi - 1 in
      if 0 \<le> s \<and> s < numPartitions mi then Some (nat s) else None)"

text \<open>What is to be deleted, and deleting one entry.\<close>

definition expired :: "int \<Rightarrow> MetricIndex \<Rightarrow> string \<Rightarrow> bool" where
  "expired limit mi uid = (case lastHit mi uid of Some t \<Rightarrow> t < limit | None \<Rightarrow> True)"

definition cull_one :: "string \<times> string \<Rightarrow> MetricIndex \<Rightarrow> MetricIndex" where
  "cull_one up mi =
     (case up of (uid, path) \<Rightarrow>
        mi\<lparr>TrieIndex := snd (Pop path (TrieIndex mi)), lastHit := (lastHit mi)(uid := None),
          mi_uidIndex := AList.delete uid (mi_uidIndex mi), mi_nameIndex := AList.delete uid (mi_nameIndex mi)\<rparr>)"

definition CullExpired :: "int \<Rightarrow> int \<Rightarrow> MetricIndex \<Rightarrow> (string \<times> string) list \<times> MetricIndex" where
  "CullExpired now dur mi =
     (let dur = (if dur > 0 then - dur else dur);
          toDel = filter (\<lambda>up. expired (now + dur) mi (fst up)) (mi_uidIndex mi)
      in (toDel, fold cull_one toDel mi))"

definition mi_Add :: "int \<Rightarrow> string \<Rightarrow> string \<Rightarrow> MetricIndex \<Rightarrow> MetricIndex" where
  "mi_Add now uid path mi =
     (if map_of (mi_nameIndex mi) path \<noteq> None then mi\<lparr>lastHit := (lastHit mi)(uid \<mapsto> now)\<rparr>
      else mi\<lparr>mi_nameIndex := AList.update path uid (mi_nameIndex mi),
        mi_uidIndex := AList.update uid path (mi_uidIndex mi),
        TrieIndex := Put path (Some \<lparr>ti_Uid = uid, LastHit = now, ti_Path = path\<rparr>) (TrieIndex mi)\<rparr>)"

definition SetLastSeen :: "string \<Rightarrow> int \<Rightarrow> MetricIndex \<Rightarrow> MetricIndex" where
  "SetLastSeen uid lastseen mi = mi\<lparr>lastHit := (lastHit mi)(uid \<mapsto> lastseen)\<rparr>"

definition GetLastSeen :: "string \<Rightarrow> MetricIndex \<Rightarrow> int" where
  "GetLastSeen uid mi = (case lastHit mi uid of Some t \<Rightarrow> t | None \<Rightarrow> zero_time)"

definition mi_Contains :: "string \<Rightarrow> MetricIndex \<Rightarrow> string" where
  "mi_Contains metric mi = (case map_of (mi_nameIndex mi) metric of Some g \<Rightarrow> g | None \<Rightarrow> '''')"

definition ContainsUid :: "string \<Rightarrow> MetricIndex \<Rightarrow> string" where
  "ContainsUid uid mi = (case map_of (mi_uidIndex mi) uid of Some g \<Rightarrow> g | None \<Rightarrow> '''')"

definition FindAll :: "MetricIndex \<Rightarrow> string list" where
  "FindAll mi = map fst (mi_nameIndex mi)"

text \<open>The longest chunk of a path without wildcards, with which a search starts.\<close>

fun long_chunk :: "string \<Rightarrow> string list \<Rightarrow> string option" where
  "long_chunk chunk [] = None"
| "long_chunk chunk (pth # segs) =
     (if needRegex pth then Some chunk
      else long_chunk ((if length chunk > 0 then chunk @ ''.'' else chunk) @ pth) segs)"

definition lowest_prefix :: "string \<Rightarrow> string" where
  "lowest_prefix path =
     (let segs = Split path ''.'';
          useKey = (if needRegex path then (case long_chunk '''' segs of Some k \<Rightarrow> k | None \<Rightarrow> path) else path)
      in FormatInt (int (length segs) - 1) @ '':'' @ useKey)"

text \<open>An item of an answer.\<close>

record MetricFindItem =
  mf_Text :: string
  mf_Id :: string
  mf_Path :: string
  mf_UniqueId :: string
  Expandable :: u32
  Leaf :: u32
  AllowChildren :: u32
  mf_Tags :: "Tag list"
  mf_MetaTags :: "Tag list"

text \<open>An item for a name, with its path and id, that has data or has children.\<close>

definition data_item :: "string \<Rightarrow> string \<Rightarrow> string \<Rightarrow> MetricFindItem" where
  "data_item nm pth uid = \<lparr>mf_Text = nm, mf_Id = pth, mf_Path = pth, mf_UniqueId = uid,
     Expandable = 0, Leaf = 1, AllowChildren = 0, mf_Tags = [], mf_MetaTags = []\<rparr>"

definition branch_item :: "string \<Rightarrow> string \<Rightarrow> MetricFindItem" where
  "branch_item nm pth = \<lparr>mf_Text = nm, mf_Id = pth, mf_Path = pth, mf_UniqueId = [],
     Expandable = 1, Leaf = 0, AllowChildren = 1, mf_Tags = [], mf_MetaTags = []\<rparr>"

definition FindByUid :: "string \<Rightarrow> MetricIndex \<Rightarrow> MetricFindItem list" where
  "FindByUid uid mi =
     (case map_of (mi_uidIndex mi) uid of
        None \<Rightarrow> []
      | Some pth \<Rightarrow> [data_item pth pth []])"

section \<open>Searches\<close>

text \<open>
  A range over a map visits its keys in any order: \<open>visit\<close> is the list of the keys in the order of the visit. At the root the switch
  asks for a type (a time) that is never stored.
\<close>

definition FindRoot :: "((string \<Rightarrow> trieItem child_result option) \<Rightarrow> string list) \<Rightarrow> MetricIndex \<Rightarrow> MetricFindItem list" where
  "FindRoot visit mi = map (\<lambda>k. branch_item k k) (visit (Children ''*'' (TrieIndex mi)))"

text \<open>The items found, the keys seen, and the paths whose expressions do not compile.\<close>

record find_state =
  mt :: "MetricFindItem list"
  seenList :: "string list"
  errorList :: "string list"

definition last_part :: "string \<Rightarrow> string" where
  "last_part pth = last (Split pth ''.'')"

definition find_node ::
  "bool \<Rightarrow> regexp option \<Rightarrow> (string \<Rightarrow> trieItem child_result option) \<Rightarrow> string \<Rightarrow> find_state \<Rightarrow> find_state" where
  "find_node hasDataOnly reg have_map k s =
     (if k \<in> set (seenList s) then s
      else if (case reg of Some r \<Rightarrow> \<not> r k | None \<Rightarrow> False) then s
      else case have_map k of
          Some (child_result.Leaf (Some item)) \<Rightarrow>
            s\<lparr>mt := mt s @ [data_item (last_part k) k (ti_Uid item)], seenList := seenList s @ [k]\<rparr>
        | _ \<Rightarrow> if hasDataOnly then s
            else s\<lparr>mt := mt s @ [branch_item (last_part k) k], seenList := seenList s @ [k]\<rparr>)"

definition find_targ ::
  "((string \<Rightarrow> trieItem child_result option) \<Rightarrow> string list) \<Rightarrow> (string \<Rightarrow> regexp option) \<Rightarrow> string \<Rightarrow> bool \<Rightarrow> MetricIndex \<Rightarrow>
    string \<Rightarrow> find_state \<Rightarrow> find_state" where
  "find_targ visit compile metric hasDataOnly mi targ s =
     (case map_of (mi_nameIndex mi) targ of
        Some got \<Rightarrow>
          if metric \<in> set (seenList s) then s
          else s\<lparr>mt := mt s @ [data_item (last_part targ) metric got], seenList := seenList s @ [metric]\<rparr>
      | None \<Rightarrow>
          if needRegex targ then
            (case regifyKey compile targ of
               None \<Rightarrow> s\<lparr>errorList := errorList s @ [targ]\<rparr>
             | Some reg \<Rightarrow>
                 let have_map = ChildrenFlat (toTrieQuery targ) (TrieIndex mi)
                 in fold (find_node hasDataOnly (Some reg) have_map) (visit have_map) s)
          else
            let have_map = ChildrenFlat metric (TrieIndex mi)
            in fold (find_node hasDataOnly None have_map) (visit have_map) s)"

definition mi_Find ::
  "((string \<Rightarrow> trieItem child_result option) \<Rightarrow> string list) \<Rightarrow> (string \<Rightarrow> regexp option) \<Rightarrow> string \<Rightarrow> bool \<Rightarrow> MetricIndex \<Rightarrow>
    MetricFindItem list \<times> index_error option" where
  "mi_Find visit compile metric hasDataOnly mi =
     (if metric = ''*'' then (FindRoot visit mi, None)
      else
        let s = fold (find_targ visit compile metric hasDataOnly mi) (splitMetricsPath metric)
          \<lparr>mt = [], seenList = [], errorList = []\<rparr>
        in (mt s, if errorList s = [] then None else Some (RegexErrors (errorList s))))"

section \<open>Deletions\<close>

definition mi_Delete ::
  "(nat \<Rightarrow> string \<Rightarrow> index_error option) \<Rightarrow> string \<Rightarrow> MetricIndex \<Rightarrow> (index_error option \<times> MetricIndex) option" where
  "mi_Delete db_Delete pth mi =
     (if needRegex pth then Some (Some ErrorCannotDeleteByRegex, mi)
      else do {
        let mi1 = (case map_of (mi_nameIndex mi) pth of
             None \<Rightarrow> mi
           | Some uid \<Rightarrow> mi\<lparr>mi_nameIndex := AList.delete pth (mi_nameIndex mi), mi_uidIndex := AList.delete uid (mi_uidIndex mi)\<rparr>);
        let mi2 = mi1\<lparr>lastHit := (lastHit mi1)(pth := None)\<rparr>;
        let mi3 = mi2\<lparr>TrieIndex := snd (Pop pth (TrieIndex mi2))\<rparr>;
        p \<leftarrow> whichPartition mi3 pth;
        Some (db_Delete p (FormatInt (int (length (Split pth ''.'')) - 1) @ '':'' @ pth), mi3) })"

definition mi_DeleteByUid ::
  "(nat \<Rightarrow> string \<Rightarrow> index_error option) \<Rightarrow> string \<Rightarrow> MetricIndex \<Rightarrow> (index_error option \<times> MetricIndex) option" where
  "mi_DeleteByUid db_Delete uid mi =
     (case map_of (mi_uidIndex mi) uid of
        Some pth \<Rightarrow> mi_Delete db_Delete pth mi
      | None \<Rightarrow> Some (None, mi))"

end
