(* ===== verification/Metric_Index_Laws.thy ===== *)
theory Metric_Index_Laws
  imports Metric_Index Trie_Laws
begin

text \<open>
  The index of metric paths as a set of paths; where deleting a path panics; and what culling does to
  a path that comes back.
\<close>

section \<open>The set of paths\<close>

definition mi_ok :: "(string \<Rightarrow> string) \<Rightarrow> string set \<Rightarrow> MetricIndex \<Rightarrow> bool" where
  "mi_ok uid_of S mi \<longleftrightarrow> numPartitions mi = 16 \<and> trie_ok (TrieIndex mi) \<and>
     (\<forall>p. map_of (mi_nameIndex mi) p = (if p \<in> S then Some (uid_of p) else None)) \<and>
     (\<forall>u p. map_of (mi_uidIndex mi) u = Some p \<longleftrightarrow> p \<in> S \<and> u = uid_of p) \<and>
     (\<forall>p. Has p (TrieIndex mi) \<longleftrightarrow> p \<in> S)"

lemma mi_ok_new: "mi_ok uid_of {} NewMetricIndex"
  by (simp add: mi_ok_def NewMetricIndex_def METRIC_RAM_NUM_PARITIIONS_def trie_ok_def Has_def New_def [of "''.''", symmetric])
    (simp add: New_def)

lemma mi_ok_Add:
  assumes "mi_ok uid_of S mi" "inj_on uid_of (insert p S)"
  shows "mi_ok uid_of (insert p S) (mi_Add now (uid_of p) p mi)"
proof (cases "p \<in> S")
  case True
  then show ?thesis using assms(1) by (simp add: mi_ok_def mi_Add_def insert_absorb)
next
  case False
  then show ?thesis
    using assms trie.ok_put [of "TrieIndex mi" p] trie.get_put [of "TrieIndex mi"]
    by (auto simp: mi_ok_def mi_Add_def update_conv' Has_def split: if_splits)
qed

lemma mi_ok_Delete:
  assumes "mi_ok uid_of S mi" "inj_on uid_of S" "mi_Delete db p mi = Some (e, mi')"
  shows "mi_ok uid_of (if needRegex p then S else S - {p}) mi'"
proof (cases "needRegex p")
  case True
  then show ?thesis using assms by (simp add: mi_Delete_def)
next
  case False
  then show ?thesis
    using assms trie.ok_pop [of "TrieIndex mi" p] trie.get_pop [of "TrieIndex mi" _ p]
    by (auto simp: mi_ok_def mi_Delete_def Let_def AList.delete_conv' Has_def dest: inj_onD split: bind_splits if_splits)
qed

lemma whichPartition_16:
  assumes "numPartitions mi = 16"
  shows "whichPartition mi p = None \<longleftrightarrow> 16 dvd length (Split p ''.'')"
proof -
  have c: "length (split_from (CHR ''.'') [] acc s) = Suc (count_list s (CHR ''.''))" for acc s
    by (induction s arbitrary: acc) auto
  have "whichPartition mi p = None \<longleftrightarrow> (int (length (Split p ''.'')) mod 16 = 0)"
    using assms by (auto simp: whichPartition_def Split_def c Let_def add.commute)
  moreover have "int n mod 16 = 0 \<longleftrightarrow> 16 dvd n" for n by presburger
  ultimately show ?thesis by simp
qed

lemma mi_Delete_None:
  assumes "numPartitions mi = 16"
  shows "mi_Delete db p mi = None \<longleftrightarrow> \<not> needRegex p \<and> 16 dvd length (Split p ''.'')"
proof -
  define mi3 where "mi3 = (let mi1 = (case map_of (mi_nameIndex mi) p of
        None \<Rightarrow> mi
      | Some uid \<Rightarrow> mi\<lparr>mi_nameIndex := AList.delete p (mi_nameIndex mi), mi_uidIndex := AList.delete uid (mi_uidIndex mi)\<rparr>);
      mi2 = mi1\<lparr>lastHit := (lastHit mi1)(p := None)\<rparr> in mi2\<lparr>TrieIndex := snd (Pop p (TrieIndex mi2))\<rparr>)"
  have "numPartitions mi3 = 16" using assms by (simp add: mi3_def Let_def split: option.split)
  from whichPartition_16 [OF this, of p] show ?thesis
    unfolding mi_Delete_def Let_def mi3_def by (auto split: bind_splits)
qed

text \<open>
  C33. Deleting a path without wildcards from the index panics exactly when the number of its parts is a multiple of 16.
\<close>

theorem metric_delete_panics:
  assumes "numPartitions mi = METRIC_RAM_NUM_PARITIIONS"
  shows "mi_Delete db p mi = None \<longleftrightarrow> \<not> needRegex p \<and> 16 dvd length (Split p ''.'')"
  using assms by (intro mi_Delete_None) (simp add: METRIC_RAM_NUM_PARITIIONS_def)

theorem metric_delete_panics_witness:
  "mi_Delete (\<lambda>_ _. None) ''a.a.a.a.a.a.a.a.a.a.a.a.a.a.a.a'' NewMetricIndex = None"
proof -
  have "length (Split ''a.a.a.a.a.a.a.a.a.a.a.a.a.a.a.a'' ''.'') = 16" "\<not> needRegex ''a.a.a.a.a.a.a.a.a.a.a.a.a.a.a.a''"
    by code_simp+
  then show ?thesis
    using metric_delete_panics [of NewMetricIndex "\<lambda>_ _. None" "''a.a.a.a.a.a.a.a.a.a.a.a.a.a.a.a''"]
    by (simp add: NewMetricIndex_def)
qed

section \<open>Runs\<close>

datatype mi_op = Index string | Remove string | Seen string int

fun mi_run :: "(string \<Rightarrow> string) \<Rightarrow> int \<Rightarrow> (nat \<Rightarrow> string \<Rightarrow> index_error option) \<Rightarrow> mi_op list \<Rightarrow> MetricIndex \<Rightarrow> MetricIndex option" where
  "mi_run uid_of now db [] mi = Some mi"
| "mi_run uid_of now db (Index p # ops) mi = mi_run uid_of now db ops (mi_Add now (uid_of p) p mi)"
| "mi_run uid_of now db (Remove p # ops) mi = do { (e, mi1) \<leftarrow> mi_Delete db p mi; mi_run uid_of now db ops mi1 }"
| "mi_run uid_of now db (Seen u t # ops) mi = mi_run uid_of now db ops (SetLastSeen u t mi)"

fun paths_after :: "mi_op list \<Rightarrow> string set \<Rightarrow> string set" where
  "paths_after [] S = S"
| "paths_after (Index p # ops) S = paths_after ops (insert p S)"
| "paths_after (Remove p # ops) S = paths_after ops (if needRegex p then S else S - {p})"
| "paths_after (Seen u t # ops) S = paths_after ops S"

definition added :: "mi_op list \<Rightarrow> string set" where
  "added ops = {p. Index p \<in> set ops}"

lemma added_simps [simp]:
  "added [] = {}" "added (Index p # ops) = insert p (added ops)" "added (Remove p # ops) = added ops" "added (Seen u t # ops) = added ops"
  by (auto simp: added_def)

lemma mi_run_ok:
  "\<lbrakk>mi_ok uid_of S mi; inj_on uid_of (S \<union> added ops); \<forall>p. Remove p \<in> set ops \<longrightarrow> \<not> 16 dvd length (Split p ''.'')\<rbrakk> \<Longrightarrow>
    \<exists>mi'. mi_run uid_of now db ops mi = Some mi' \<and> mi_ok uid_of (paths_after ops S) mi'"
proof (induction uid_of now db ops mi arbitrary: S rule: mi_run.induct)
  case (2 uid_of now db p ops mi)
  have "inj_on uid_of (insert p S)" by (rule inj_on_subset [OF 2(3)]) auto
  then show ?case using 2 mi_ok_Add [of uid_of S mi p now] by simp
next
  case (3 uid_of now db p ops mi)
  have "mi_Delete db p mi \<noteq> None"
    using mi_Delete_None [of mi db p] 3(2,4) by (simp add: mi_ok_def)
  then obtain e mi1 where d: "mi_Delete db p mi = Some (e, mi1)" by auto
  have "inj_on uid_of S" by (rule inj_on_subset [OF 3(3)]) auto
  note ok = mi_ok_Delete [OF 3(2) this d]
  have "inj_on uid_of ((if needRegex p then S else S - {p}) \<union> added ops)" by (rule inj_on_subset [OF 3(3)]) auto
  from 3(1) [OF d refl ok this] 3(4) show ?case using d by simp
next
  case (4 uid_of now db u t ops mi)
  have "mi_ok uid_of S (SetLastSeen u t mi)" using 4(2) by (simp add: mi_ok_def SetLastSeen_def)
  then show ?case using 4 by simp
qed simp

text \<open>
  C32. With different ids for the paths added, any sequence of additions, deletions (of paths whose number of parts is no multiple of
  16) and updates of the times leaves an index that is the set of the paths added and not deleted since: it
  lists them, finds each by its id, and its trie holds exactly them.
\<close>

theorem metric_index_is_set:
  assumes "inj_on uid_of (added ops)" "\<forall>p. Remove p \<in> set ops \<longrightarrow> \<not> 16 dvd length (Split p ''.'')"
  shows "\<exists>mi. mi_run uid_of now db ops NewMetricIndex = Some mi \<and> set (FindAll mi) = paths_after ops {} \<and>
    (\<forall>p. Has p (TrieIndex mi) \<longleftrightarrow> p \<in> paths_after ops {}) \<and>
    (\<forall>p \<in> paths_after ops {}. mi_Contains p mi = uid_of p \<and> ContainsUid (uid_of p) mi = p \<and> map mf_Path (FindByUid (uid_of p) mi) = [p]) \<and>
    (\<forall>u. u \<notin> uid_of ` paths_after ops {} \<longrightarrow> FindByUid u mi = [])"
proof -
  obtain mi where run: "mi_run uid_of now db ops NewMetricIndex = Some mi" and ok: "mi_ok uid_of (paths_after ops {}) mi"
    using mi_run_ok [OF mi_ok_new, of uid_of ops now db] assms by auto
  let ?S = "paths_after ops {}"
  have nm: "map_of (mi_nameIndex mi) p = (if p \<in> ?S then Some (uid_of p) else None)" for p using ok by (simp add: mi_ok_def)
  have u: "map_of (mi_uidIndex mi) u = Some p \<longleftrightarrow> p \<in> ?S \<and> u = uid_of p" for u p using ok by (simp add: mi_ok_def)
  have "set (FindAll mi) = dom (map_of (mi_nameIndex mi))" by (simp add: FindAll_def dom_map_of_conv_image_fst)
  also have "\<dots> = ?S" by (auto simp: nm split: if_splits)
  finally have all: "set (FindAll mi) = ?S" .
  have has: "Has p (TrieIndex mi) \<longleftrightarrow> p \<in> ?S" for p using ok by (simp add: mi_ok_def)
  have "mi_Contains p mi = uid_of p \<and> ContainsUid (uid_of p) mi = p \<and> map mf_Path (FindByUid (uid_of p) mi) = [p]" if "p \<in> ?S" for p
    using that u [of "uid_of p" p] by (simp add: nm mi_Contains_def ContainsUid_def FindByUid_def data_item_def)
  moreover have "FindByUid v mi = []" if "v \<notin> uid_of ` ?S" for v
    using that u by (cases "map_of (mi_uidIndex mi) v") (auto simp: FindByUid_def)
  ultimately show ?thesis using run all has by blast
qed

theorem metric_index_is_set_witness:
  "\<exists>mi. mi_run (\<lambda>p. p) 0 (\<lambda>_ _. None) [Index ''a.b'', Index ''a.c'', Remove ''a.b''] NewMetricIndex = Some mi \<and>
    set (FindAll mi) = {''a.c''} \<and> \<not> Has ''a.b'' (TrieIndex mi)"
proof -
  let ?ops = "[Index ''a.b'', Index ''a.c'', Remove ''a.b'']"
  have "\<not> needRegex ''a.b''" by code_simp
  then have after: "paths_after ?ops {} = {''a.c''}" by auto
  have "length (Split ''a.b'' ''.'') = 2" by code_simp
  then have safe: "\<forall>p. Remove p \<in> set ?ops \<longrightarrow> \<not> 16 dvd length (Split p ''.'')" by (simp add: dvd_eq_mod_eq_0)
  show ?thesis
    using metric_index_is_set [OF inj_on_id2 safe, of 0 "\<lambda>_ _. None", unfolded after]
    by (elim exE conjE) (intro exI conjI, assumption+, simp)
qed

section \<open>Culling\<close>

lemma cull_all_fields:
  "map_of (mi_nameIndex (fold cull_one ups mi)) p = (if p \<in> fst ` set ups then None else map_of (mi_nameIndex mi) p)"
  "map_of (mi_uidIndex (fold cull_one ups mi)) u = (if u \<in> fst ` set ups then None else map_of (mi_uidIndex mi) u)"
  by (induction ups arbitrary: mi) (auto simp: cull_one_def AList.delete_conv' split: prod.splits)

lemma cull_all_trie:
  "trie_ok (TrieIndex mi) \<Longrightarrow> trie_ok (TrieIndex (fold cull_one ups mi)) \<and>
    (Has p (TrieIndex (fold cull_one ups mi)) \<longleftrightarrow> p \<notin> snd ` set ups \<and> Has p (TrieIndex mi))"
proof (induction ups arbitrary: mi)
  case (Cons up ups)
  obtain u q where up: "up = (u, q)" by (cases up)
  have "trie_ok (TrieIndex (cull_one up mi))" "Has p (TrieIndex (cull_one up mi)) \<longleftrightarrow> p \<noteq> q \<and> Has p (TrieIndex mi)"
    using trie.ok_pop [OF Cons.prems] trie.get_pop [OF Cons.prems] by (simp_all add: cull_one_def up Has_def)
  then show ?case using Cons.IH [of "cull_one up mi"] up by auto
qed simp

text \<open>A path that is listed by name only stays so.\<close>

definition lost :: "string \<Rightarrow> string \<Rightarrow> MetricIndex \<Rightarrow> bool" where
  "lost u p mi \<longleftrightarrow> map_of (mi_nameIndex mi) p = Some u \<and> map_of (mi_uidIndex mi) u = None \<and> \<not> Has p (TrieIndex mi)"

lemma lost_Add: "lost u p mi \<Longrightarrow> lost u p (fold (\<lambda>t. mi_Add t u p) later mi)"
  by (induction later arbitrary: mi) (simp_all add: lost_def mi_Add_def)

text \<open>
  C34. A path that is new to the index is culled by the next run of the cull, however recent it is, and never comes back: the index
  goes on to say that it contains the path, and for this reason adding it again, however often, puts
  it neither under its id nor into the trie. (No path is the id of another one.)
\<close>

theorem metric_cull_loses:
  assumes "mi_ok uid_of S mi" "inj_on uid_of (insert p S)" "p \<notin> S" "lastHit mi (uid_of p) = None" "p \<notin> uid_of ` insert p S"
    and mi': "mi' = fold (\<lambda>t. mi_Add t (uid_of p) p) later (snd (CullExpired now dur (mi_Add now (uid_of p) p mi)))"
  shows "map_of (mi_nameIndex mi') p = Some (uid_of p) \<and> FindByUid (uid_of p) mi' = [] \<and> \<not> Has p (TrieIndex mi')"
proof -
  define mi1 where "mi1 = mi_Add now (uid_of p) p mi"
  have ok: "mi_ok uid_of (insert p S) mi1" unfolding mi1_def by (rule mi_ok_Add [OF assms(1,2)])
  have "lastHit mi1 (uid_of p) = None" using assms(1,3,4) by (simp add: mi1_def mi_Add_def mi_ok_def)
  moreover have "(uid_of p, p) \<in> set (mi_uidIndex mi1)" using ok by (auto simp: mi_ok_def intro: map_of_SomeD)
  moreover define ups where "ups = fst (CullExpired now dur mi1)"
  ultimately have "(uid_of p, p) \<in> set ups" by (simp add: CullExpired_def Let_def expired_def)
  moreover have "p \<notin> fst ` set ups"
  proof
    assume "p \<in> fst ` set ups"
    then have "p \<in> fst ` set (mi_uidIndex mi1)" by (auto simp: ups_def CullExpired_def Let_def)
    then obtain q where "map_of (mi_uidIndex mi1) p = Some q" by (metis domD dom_map_of_conv_image_fst)
    then show False using ok assms(5) by (auto simp: mi_ok_def)
  qed
  moreover have "snd (CullExpired now dur mi1) = fold cull_one ups mi1" by (simp add: ups_def CullExpired_def Let_def)
  ultimately have "lost (uid_of p) p (snd (CullExpired now dur mi1))"
    using ok cull_all_trie [of mi1 ups p] imageI [of "(uid_of p, p)" "set ups" fst] imageI [of "(uid_of p, p)" "set ups" snd]
    by (simp add: cull_all_fields mi_ok_def lost_def)
  then have "lost (uid_of p) p mi'" unfolding mi' mi1_def by (rule lost_Add)
  then show ?thesis by (simp add: FindByUid_def lost_def)
qed

theorem metric_cull_loses_witness:
  "FindByUid ''u'' (fold (\<lambda>t. mi_Add t ''u'' []) [5, 6]
    (snd (CullExpired 4 100 (mi_Add 4 ''u'' [] NewMetricIndex)))) = []"
proof -
  show ?thesis
    using metric_cull_loses [OF mi_ok_new, of "(#) (CHR ''u'')" "[]" _ "[5, 6]" 4 100, OF _ _ _ _ refl]
    by (simp add: inj_def NewMetricIndex_def)
qed

end
