(* ===== verification/Metric_Find_Laws.thy ===== *)
theory Metric_Find_Laws
  imports Metric_Index_Laws
begin

text \<open>
  What a search of the index of metric paths with a wildcard finds.
\<close>

section \<open>Children of the nodes that fit a pattern\<close>

lemma children_parts_Some:
  "wf_tree x t \<Longrightarrow> \<forall>p\<in>set keys. x \<notin> set p \<Longrightarrow> children_parts [x] keys parts t k = Some v \<longleftrightarrow>
    (\<exists>path d. list_all2 seg_match parts path \<and> node path t = Some d \<and> Some (child_value d) = Some v
      \<and> k = Join (keys @ path) [x])"
proof (induction parts arbitrary: keys t v)
  case Nil
  then show ?case by auto
next
  case (Cons part parts)
  show ?case
  proof (cases "part = ''*''")
    case True
    have "children_parts [x] (keys @ [s]) parts c k = Some v \<longleftrightarrow> (\<exists>path d. list_all2 seg_match parts path
        \<and> node path c = Some d \<and> Some (child_value d) = Some v \<and> k = Join (keys @ s # path) [x])"
      if "(s, c) \<in> set (tree_children t)" for s c v
    proof -
      have "wf_tree x c" "\<forall>p\<in>set (keys @ [s]). x \<notin> set p"
        using that wf_tree_children [OF Cons.prems(1)] Cons.prems(2) by auto
      from Cons.IH [OF this] show ?thesis by simp
    qed
    from merge_children [where f = "\<lambda>s. children_parts [x] (keys @ [s]) parts" and val = "\<lambda>d. Some (child_value d)"
        and P = "list_all2 seg_match parts", OF Cons.prems this, of v] True show ?thesis
      by (auto simp: list_all2_Cons1 simp del: node.simps)
  next
    case False
    show ?thesis
    proof (cases "map_of (tree_children t) part")
      case (Some c)
      have "wf_tree x c" "\<forall>p\<in>set (keys @ [part]). x \<notin> set p"
        using wf_tree_child [OF Cons.prems(1) Some] Cons.prems(2) by auto
      from Cons.IH [OF this] Some False show ?thesis by (simp add: list_all2_Cons1 seg_match_def) auto
    qed (use False in \<open>auto simp: list_all2_Cons1 seg_match_def\<close>)
  qed
qed

definition depth :: "string \<Rightarrow> nat" where
  "depth p = length (Split p ''.'')"

definition node_at :: "string \<Rightarrow> MetricIndex \<Rightarrow> trieItem Tree option" where
  "node_at p mi = node (Split p ''.'') (root (TrieIndex mi))"

lemma any_of_iff: "any_of s cs \<longleftrightarrow> set s \<inter> set cs \<noteq> {}"
  by (auto simp: any_of_def list_ex_iff)

text \<open>
  A pattern: it has a character that calls for a regular expression, and one (not the bar alone)
  that turns all its parts into stars for the walk of the trie.
\<close>

definition glob :: "string \<Rightarrow> bool" where
  "glob targ \<longleftrightarrow> needRegex targ \<and> any_of targ ''*?[{^$}])(''"

lemma toTrieQuery_glob:
  assumes "glob metric"
  shows "Split (toTrieQuery metric) ''.'' = replicate (depth metric) ''*''"
proof -
  have "toTrieQuery metric = Join (map (\<lambda>_. ''*'') (Split metric ''.'')) ''.''"
    using assms by (simp add: glob_def toTrieQuery_def)
  moreover have "Split metric ''.'' \<noteq> []" by (simp add: Split_not_Nil)
  ultimately show ?thesis
    using Split_Join [of "map (\<lambda>_. ''*'') (Split metric ''.'')" "CHR ''.''"] by (simp add: depth_def map_replicate_const)
qed

lemma ChildrenFlat_Children: "ChildrenFlat pattern tr = Children pattern tr"
  by (simp add: ChildrenFlat_def flat_childs_def HasPrefix_def)

lemma Children_glob:
  assumes "trie_wf (CHR ''.'') (TrieIndex mi)" "Split pattern ''.'' = replicate n ''*''" "0 < n"
  shows "Children pattern (TrieIndex mi) k = (if depth k = n then map_option child_value (node_at k mi) else None)"
proof (rule option_ext)
  fix v
  have wf: "delim (TrieIndex mi) = ''.''" "wf_tree (CHR ''.'') (root (TrieIndex mi))" using assms(1) by (auto simp: trie_wf_def)
  have key: "path = Split k ''.'' \<longleftrightarrow> k = Join path ''.''" if "length path = n" "node path (root (TrieIndex mi)) = Some d" for path d
  proof -
    have "path \<noteq> []" using that(1) assms(3) by auto
    with Split_Join [OF this] node_free [OF wf(2) that(2)] Join_Split [of "''.''" k] show ?thesis by auto
  qed
  have "list_all2 seg_match (replicate n ''*'') path \<longleftrightarrow> length path = n" for path
    by (auto simp: list_all2_conv_all_nth)
  then have "Children pattern (TrieIndex mi) k = Some v \<longleftrightarrow>
      (\<exists>path d. length path = n \<and> node path (root (TrieIndex mi)) = Some d \<and> child_value d = v \<and> k = Join path ''.'')"
    using children_parts_Some [OF wf(2), of "[]" "replicate n ''*''" k v] by (simp add: Children_def wf(1) assms(2))
  also have "\<dots> \<longleftrightarrow> (\<exists>path d. length path = n \<and> node path (root (TrieIndex mi)) = Some d \<and> child_value d = v \<and> path = Split k ''.'')"
    using key by blast
  also have "\<dots> \<longleftrightarrow> (if depth k = n then map_option child_value (node_at k mi) else None) = Some v"
    by (auto simp: depth_def node_at_def)
  finally show "Children pattern (TrieIndex mi) k = Some v \<longleftrightarrow>
    (if depth k = n then map_option child_value (node_at k mi) else None) = Some v" .
qed

section \<open>The trie of an index\<close>

text \<open>The trie of an index is well formed, and a path has its id there.\<close>

definition find_ok :: "(string \<Rightarrow> string) \<Rightarrow> MetricIndex \<Rightarrow> bool" where
  "find_ok uid_of mi \<longleftrightarrow> trie_wf (CHR ''.'') (TrieIndex mi) \<and>
     (\<forall>p it. Get p (TrieIndex mi) = Some it \<longrightarrow> ti_Uid it = uid_of p)"

lemma trie_wf_ok: "trie_wf x tr \<Longrightarrow> trie_ok tr"
  by (simp add: trie_wf_def trie_ok_def)

lemma trie_wf_step: "trie_wf x tr \<Longrightarrow> trie_wf x (Put k (Some v) tr) \<and> trie_wf x (snd (Pop k tr))"
  using trie_wf_run [of x tr "[Put_key k v]"] trie_wf_run [of x tr "[Pop_key k]"] by simp

lemma find_ok_New: "find_ok uid_of NewMetricIndex"
  using trie_wf_New [of "CHR ''.''"] by (simp add: find_ok_def NewMetricIndex_def)

lemma find_ok_Add: "find_ok uid_of mi \<Longrightarrow> find_ok uid_of (mi_Add now (uid_of p) p mi)"
  using trie_wf_ok [of "CHR ''.''" "TrieIndex mi"]
  by (auto simp: find_ok_def mi_Add_def trie_wf_step Get_Put)

lemma find_ok_Delete:
  assumes "find_ok uid_of mi" "mi_Delete db p mi = Some (e, mi')"
  shows "find_ok uid_of mi'"
proof (cases "needRegex p")
  case False
  then have "TrieIndex mi' = snd (Pop p (TrieIndex mi))"
    using assms(2) by (auto simp: mi_Delete_def Let_def split: bind_splits option.splits)
  moreover have wf: "trie_wf (CHR ''.'') (TrieIndex mi)" using assms(1) by (simp add: find_ok_def)
  moreover have "Get j (snd (Pop p (TrieIndex mi))) = (if j = p then None else Get j (TrieIndex mi))" for j
    by (rule trie.get_pop [OF trie_wf_ok [OF wf]])
  ultimately show ?thesis using assms(1) by (simp add: find_ok_def trie_wf_step)
qed (use assms in \<open>simp add: mi_Delete_def\<close>)

lemma find_ok_run: "find_ok uid_of mi \<Longrightarrow> mi_run uid_of now db ops mi = Some mi' \<Longrightarrow> find_ok uid_of mi'"
proof (induction ops arbitrary: mi)
  case (Cons op ops)
  obtain mi1 where "find_ok uid_of mi1" "mi_run uid_of now db ops mi1 = Some mi'"
  proof (cases op)
    case (Index p)
    then show ?thesis using that [OF find_ok_Add [OF Cons.prems(1)]] Cons.prems(2) by simp
  next
    case (Remove p)
    then obtain e mi1 where "mi_Delete db p mi = Some (e, mi1)" "mi_run uid_of now db ops mi1 = Some mi'"
      using Cons.prems(2) by (auto split: bind_splits)
    then show ?thesis using that find_ok_Delete [OF Cons.prems(1)] by blast
  next
    case (Seen u t)
    have "find_ok uid_of (SetLastSeen u t mi)" using Cons.prems(1) by (simp add: find_ok_def SetLastSeen_def)
    then show ?thesis using that Cons.prems(2) Seen by simp
  qed
  then show ?case by (rule Cons.IH)
qed simp

section \<open>The loop over the nodes\<close>

definition node_item :: "bool \<Rightarrow> (string \<Rightarrow> trieItem child_result option) \<Rightarrow> string \<Rightarrow> MetricFindItem list" where
  "node_item h have_map k =
     (case have_map k of
        Some (child_result.Leaf (Some item)) \<Rightarrow> [data_item (last_part k) k (ti_Uid item)]
      | _ \<Rightarrow> if h then [] else [branch_item (last_part k) k])"

text \<open>
  The state of a search that has met the nodes \<open>K\<close>: their items, each node once; a node with an
  item is in the list of those seen.
\<close>

definition found :: "(string \<Rightarrow> MetricFindItem list) \<Rightarrow> string set \<Rightarrow> find_state \<Rightarrow> bool" where
  "found item K s \<longleftrightarrow> (\<exists>ks. distinct ks \<and> set ks = K \<and> mt s = concat (map item ks)) \<and>
     set (seenList s) = {k \<in> K. item k \<noteq> []} \<and> errorList s = []"

lemma found_new:
  assumes "found item K s" "k \<notin> K" "item k \<noteq> []"
  shows "found item (insert k K) (s\<lparr>mt := mt s @ item k, seenList := seenList s @ [k]\<rparr>)"
proof -
  from assms(1) obtain ks where ks: "distinct ks" "set ks = K" "mt s = concat (map item ks)"
    and s: "set (seenList s) = {j \<in> K. item j \<noteq> []}" "errorList s = []"
    unfolding found_def by blast
  have "distinct (ks @ [k])" "set (ks @ [k]) = insert k K" using ks(1,2) assms(2) by simp_all
  moreover have "mt s @ item k = concat (map item (ks @ [k]))" using ks(3) by simp
  ultimately have "\<exists>js. distinct js \<and> set js = insert k K \<and> mt s @ item k = concat (map item js)" by blast
  moreover have "set (seenList s @ [k]) = {j \<in> insert k K. item j \<noteq> []}" using s(1) assms(3) by auto
  ultimately show ?thesis using s(2) by (simp add: found_def)
qed

lemma found_none: "found item K s \<Longrightarrow> item k = [] \<Longrightarrow> found item (insert k K) s"
proof (cases "k \<in> K")
  case False
  assume f: "found item K s" and e: "item k = []"
  from f obtain ks where "distinct ks" "set ks = K" "mt s = concat (map item ks)"
    unfolding found_def by blast
  then have "distinct (ks @ [k])" "set (ks @ [k]) = insert k K" "mt s = concat (map item (ks @ [k]))"
    using False e by auto
  moreover have "set (seenList s) = {j \<in> insert k K. item j \<noteq> []}" "errorList s = []"
    using f e unfolding found_def by auto
  ultimately show ?thesis unfolding found_def by blast
qed (simp add: insert_absorb)

lemma found_node:
  assumes "found (node_item h m) K s" "have_map k = m k"
  shows "found (node_item h m) (if reg k then insert k K else K) (find_node h (Some reg) have_map k s)"
proof -
  let ?item = "node_item h m"
  have seen: "k \<in> set (seenList s) \<longleftrightarrow> k \<in> K \<and> ?item k \<noteq> []" using assms(1) by (auto simp: found_def)
  have step: "find_node h (Some reg) have_map k s = (if k \<in> set (seenList s) \<or> \<not> reg k \<or> ?item k = [] then s
      else s\<lparr>mt := mt s @ ?item k, seenList := seenList s @ [k]\<rparr>)"
    using assms(2) by (auto simp: find_node_def node_item_def split: option.splits child_result.splits)
  consider "k \<in> K" "?item k \<noteq> []" | "?item k = []" | "k \<notin> K" "?item k \<noteq> []" by blast
  then show ?thesis
  proof cases
    case 1
    then show ?thesis using assms(1) by (simp add: step seen insert_absorb)
  next
    case 2
    then show ?thesis using assms(1) found_none [OF assms(1), of k] by (simp add: step)
  next
    case 3
    then show ?thesis using assms(1) found_new [OF assms(1) 3] by (simp add: step seen)
  qed
qed

lemma found_nodes:
  "found (node_item h m) K s \<Longrightarrow> \<forall>k\<in>set ks. have_map k = m k \<Longrightarrow>
    found (node_item h m) (K \<union> {k \<in> set ks. reg k}) (fold (find_node h (Some reg) have_map) ks s)"
proof (induction ks arbitrary: K s)
  case (Cons k ks)
  have "(if reg k then insert k K else K) \<union> {k \<in> set ks. reg k} = K \<union> {j \<in> set (k # ks). reg j}" by auto
  then show ?case
    using Cons.IH [OF found_node [OF Cons.prems(1), of have_map k reg]] Cons.prems(2) by simp
qed simp

lemma node_item_path: "i \<in> set (node_item h m k) \<Longrightarrow> mf_Path i = k"
  by (auto simp: node_item_def data_item_def branch_item_def split: option.splits child_result.splits if_splits)

lemma node_items_distinct: "distinct ks \<Longrightarrow> distinct (map mf_Path (concat (map (node_item h m) ks)))"
proof (induction ks)
  case (Cons k ks)
  have "distinct (map mf_Path (node_item h m k))"
    by (auto simp: node_item_def split: option.splits child_result.splits)
  then show ?case using Cons by (auto dest!: node_item_path)
qed simp

lemma child_value_Leaf: "child_value d = child_result.Leaf v \<longleftrightarrow> tree_children d = [] \<and> tree_value d = v"
  by (auto simp: child_value_def)

lemma node_item_data:
  "{i \<in> set (node_item h m k). MetricFindItem.Leaf i = 1} =
    (\<lambda>it. data_item (last_part k) k (ti_Uid it)) ` {it. m k = Some (child_result.Leaf (Some it))}"
  by (auto simp: node_item_def data_item_def branch_item_def split: option.splits child_result.splits)

lemma node_item_branch:
  "{i \<in> set (node_item h m k). MetricFindItem.Leaf i \<noteq> 1} =
    (if \<not> h \<and> (\<nexists>it. m k = Some (child_result.Leaf (Some it))) then {branch_item (last_part k) k} else {})"
  by (auto simp: node_item_def data_item_def branch_item_def split: option.splits child_result.splits)

lemma concat_filter: "{i \<in> set (concat (map f ks)). P i} = (\<Union>k\<in>set ks. {i \<in> set (f k). P i})"
  by auto

lemma node_items:
  "(\<lambda>i. (mf_Path i, mf_UniqueId i)) ` {i \<in> set (concat (map (node_item h m) ks)). MetricFindItem.Leaf i = 1} =
    {(k, ti_Uid it) | k it. k \<in> set ks \<and> m k = Some (child_result.Leaf (Some it))}"
  "mf_Path ` {i \<in> set (concat (map (node_item h m) ks)). MetricFindItem.Leaf i \<noteq> 1} =
    {k. k \<in> set ks \<and> \<not> h \<and> (\<nexists>it. m k = Some (child_result.Leaf (Some it)))}"
  unfolding concat_filter node_item_data node_item_branch image_UN image_image
  by (auto simp: data_item_def branch_item_def split: if_splits)

lemma Get_node_at: "trie_wf (CHR ''.'') (TrieIndex mi) \<Longrightarrow> Get p (TrieIndex mi) = Option.bind (node_at p mi) tree_value"
  by (simp add: Get_def node_at_def trie_wf_def get_parts_node)

lemma leaf_nodes:
  assumes "mi_ok uid_of S mi" "find_ok uid_of mi"
  shows "(\<exists>it. u = ti_Uid it \<and> (\<exists>t. node_at p mi = Some t \<and> tree_children t = [] \<and> tree_value t = Some it)) \<longleftrightarrow>
    u = uid_of p \<and> p \<in> S \<and> map_option tree_children (node_at p mi) = Some []"
proof -
  have "trie_wf (CHR ''.'') (TrieIndex mi)" using assms(2) by (simp add: find_ok_def)
  note g = Get_node_at [OF this]
  have "p \<in> S \<longleftrightarrow> (\<exists>it. Get p (TrieIndex mi) = Some it)" using assms(1) by (simp add: mi_ok_def Has_def)
  moreover have "\<forall>it. Get p (TrieIndex mi) = Some it \<longrightarrow> ti_Uid it = uid_of p" using assms(2) by (simp add: find_ok_def)
  ultimately show ?thesis unfolding g by (cases "node_at p mi") auto
qed

text \<open>The nodes of the trie that a pattern names: as deep as the pattern, and matched by its expression.\<close>

definition named :: "(string \<Rightarrow> regexp) \<Rightarrow> string set \<Rightarrow> string \<Rightarrow> bool" where
  "named reg targs p \<longleftrightarrow> (\<exists>targ\<in>targs. depth p = depth targ \<and> reg targ p)"

definition node_map :: "MetricIndex \<Rightarrow> string \<Rightarrow> trieItem child_result option" where
  "node_map mi k = map_option child_value (node_at k mi)"

lemma find_targ_found:
  assumes wf: "trie_wf (CHR ''.'') (TrieIndex mi)"
    and targ: "glob targ" "map_of (mi_nameIndex mi) targ = None" "regifyKey compile targ = Some reg"
    and visit: "set (visit (Children (toTrieQuery targ) (TrieIndex mi))) = dom (Children (toTrieQuery targ) (TrieIndex mi))"
    and s: "found (node_item h (node_map mi)) K s"
  shows "found (node_item h (node_map mi)) (K \<union> {k. node_at k mi \<noteq> None \<and> depth k = depth targ \<and> reg k})
    (find_targ visit compile metric h mi targ s)"
proof -
  define have_map where "have_map = Children (toTrieQuery targ) (TrieIndex mi)"
  have "0 < depth targ" by (simp add: depth_def)
  then have m: "have_map k = (if depth k = depth targ then node_map mi k else None)" for k
    using Children_glob [OF wf toTrieQuery_glob [OF targ(1)]] by (simp add: have_map_def node_map_def)
  have vis: "set (visit have_map) = dom have_map" using visit have_map_def by simp
  have "\<forall>k\<in>set (visit have_map). have_map k = node_map mi k"
    unfolding vis dom_def by (simp add: m)
  note * = found_nodes [OF s this, of reg]
  have "{k \<in> set (visit have_map). reg k} = {k. node_at k mi \<noteq> None \<and> depth k = depth targ \<and> reg k}"
    unfolding vis dom_def by (auto simp: m node_map_def)
  with * targ show ?thesis
    by (simp add: find_targ_def glob_def ChildrenFlat_Children have_map_def Let_def)
qed

lemma find_targs_found:
  assumes "trie_wf (CHR ''.'') (TrieIndex mi)"
    and "\<forall>targ\<in>set targs. glob targ \<and> map_of (mi_nameIndex mi) targ = None \<and> regifyKey compile targ = Some (reg targ) \<and>
      set (visit (Children (toTrieQuery targ) (TrieIndex mi))) = dom (Children (toTrieQuery targ) (TrieIndex mi))"
    and "found (node_item h (node_map mi)) K s"
  shows "found (node_item h (node_map mi)) (K \<union> {k. node_at k mi \<noteq> None \<and> named reg (set targs) k})
    (fold (find_targ visit compile metric h mi) targs s)"
  using assms(2,3)
proof (induction targs arbitrary: K s)
  case (Cons targ targs)
  let ?K = "K \<union> {k. node_at k mi \<noteq> None \<and> depth k = depth targ \<and> reg targ k}"
  have "found (node_item h (node_map mi)) ?K (find_targ visit compile metric h mi targ s)"
    using Cons.prems by (intro find_targ_found [OF assms(1)]) auto
  moreover have "?K \<union> {k. node_at k mi \<noteq> None \<and> named reg (set targs) k} =
      K \<union> {k. node_at k mi \<noteq> None \<and> named reg (set (targ # targs)) k}"
    by (auto simp: named_def)
  ultimately show ?case using Cons.IH [of ?K] Cons.prems(1) by simp
qed (simp add: named_def)

lemma FindRoot_nodes:
  assumes "trie_wf (CHR ''.'') (TrieIndex mi)"
    and "set (visit (Children ''*'' (TrieIndex mi))) = dom (Children ''*'' (TrieIndex mi))"
  shows "mf_Path ` set (FindRoot visit mi) = {p. depth p = 1 \<and> node_at p mi \<noteq> None}"
    "list_all (\<lambda>i. MetricFindItem.Leaf i = 0) (FindRoot visit mi)"
proof -
  have "Split ''*'' ''.'' = replicate 1 ''*''" by code_simp
  from Children_glob [OF assms(1) this] show "mf_Path ` set (FindRoot visit mi) = {p. depth p = 1 \<and> node_at p mi \<noteq> None}"
    by (auto simp: FindRoot_def assms(2) branch_item_def image_image dom_def split: if_splits)
qed (simp add: FindRoot_def branch_item_def list_all_iff)

lemma found_items:
  assumes "mi_ok uid_of S mi" "find_ok uid_of mi"
    and "found (node_item h (node_map mi)) {k. node_at k mi \<noteq> None \<and> named reg targs k} s"
  shows "distinct (map mf_Path (mt s))"
    "(\<lambda>i. (mf_Path i, mf_UniqueId i)) ` {i \<in> set (mt s). MetricFindItem.Leaf i = 1} =
      {(p, uid_of p) | p. p \<in> S \<and> named reg targs p \<and> map_option tree_children (node_at p mi) = Some []}"
    "mf_Path ` {i \<in> set (mt s). MetricFindItem.Leaf i \<noteq> 1} =
      {p. \<not> h \<and> named reg targs p \<and> (\<exists>t. node_at p mi = Some t \<and> (tree_children t \<noteq> [] \<or> tree_value t = None))}"
proof -
  from assms(3) obtain ks where ks: "distinct ks" "set ks = {k. node_at k mi \<noteq> None \<and> named reg targs k}"
    "mt s = concat (map (node_item h (node_map mi)) ks)" unfolding found_def by blast
  have L: "node_map mi k = Some (child_result.Leaf (Some it)) \<longleftrightarrow>
      (\<exists>t. node_at k mi = Some t \<and> tree_children t = [] \<and> tree_value t = Some it)" for k it
    by (auto simp: node_map_def child_value_Leaf)
  show "distinct (map mf_Path (mt s))" using ks(1,3) by (simp add: node_items_distinct)
  have "(\<lambda>i. (mf_Path i, mf_UniqueId i)) ` {i \<in> set (mt s). MetricFindItem.Leaf i = 1} =
      {(p, u) | p u. named reg targs p \<and>
        (\<exists>it. u = ti_Uid it \<and> (\<exists>t. node_at p mi = Some t \<and> tree_children t = [] \<and> tree_value t = Some it))}"
    unfolding ks(3) node_items(1) L by (auto simp: ks(2))
  also have "\<dots> = {(p, uid_of p) | p. p \<in> S \<and> named reg targs p \<and> map_option tree_children (node_at p mi) = Some []}"
    unfolding leaf_nodes [OF assms(1,2)] by blast
  finally show "(\<lambda>i. (mf_Path i, mf_UniqueId i)) ` {i \<in> set (mt s). MetricFindItem.Leaf i = 1} = \<dots>" .
  show "mf_Path ` {i \<in> set (mt s). MetricFindItem.Leaf i \<noteq> 1} =
      {p. \<not> h \<and> named reg targs p \<and> (\<exists>t. node_at p mi = Some t \<and> (tree_children t \<noteq> [] \<or> tree_value t = None))}"
    unfolding ks(3) node_items(2) L by (auto simp: ks(2))
qed

text \<open>
  C35. A search with wildcards in an index that has been filled by additions and deletions (of paths
  whose ids differ; no path with a multiple of sixteen parts is deleted, which fails). The query is
  one pattern or several between commas that stand outside of braces; each is not itself an indexed
  path, has a wildcard other than the bar, and compiles. The search finds as data exactly the indexed
  paths that a pattern matches, that have as many parts as this pattern and that have nothing below
  them in the trie, each once with its id; when branches are asked for as well, it gives the other
  nodes of the trie that a pattern names so. The query of a single star gives all nodes of depth one,
  each once and as a branch, also those that are indexed paths. (A range over a result, \<open>visit\<close>,
  lists each key once.)
\<close>

theorem metric_find_glob:
  assumes "inj_on uid_of (added ops)" "\<forall>p. Remove p \<in> set ops \<longrightarrow> \<not> 16 dvd length (Split p ''.'')"
    and run: "mi_run uid_of now db ops NewMetricIndex = Some mi"
    and targs: "targs = set (splitMetricsPath metric)"
    and glob: "\<forall>targ\<in>targs. glob targ \<and> targ \<notin> paths_after ops {} \<and> regifyKey compile targ = Some (reg targ)"
    and visit: "\<forall>targ\<in>targs. distinct (visit (Children (toTrieQuery targ) (TrieIndex mi))) \<and>
      set (visit (Children (toTrieQuery targ) (TrieIndex mi))) = dom (Children (toTrieQuery targ) (TrieIndex mi))"
  shows "\<exists>items. mi_Find visit compile metric hasDataOnly mi = (items, None) \<and> distinct (map mf_Path items) \<and>
    (if metric = ''*''
     then mf_Path ` set items = {p. depth p = 1 \<and> node_at p mi \<noteq> None} \<and> list_all (\<lambda>i. MetricFindItem.Leaf i = 0) items
     else (\<lambda>i. (mf_Path i, mf_UniqueId i)) ` {i \<in> set items. MetricFindItem.Leaf i = 1} =
       {(p, uid_of p) | p. p \<in> paths_after ops {} \<and> named reg targs p \<and> map_option tree_children (node_at p mi) = Some []} \<and>
     mf_Path ` {i \<in> set items. MetricFindItem.Leaf i \<noteq> 1} =
       {p. \<not> hasDataOnly \<and> named reg targs p \<and> (\<exists>t. node_at p mi = Some t \<and> (tree_children t \<noteq> [] \<or> tree_value t = None))})"
proof -
  have ok: "mi_ok uid_of (paths_after ops {}) mi" using mi_run_ok [OF mi_ok_new, of uid_of ops now db] assms(1,2) run by auto
  have f: "find_ok uid_of mi" by (rule find_ok_run [OF find_ok_New run])
  then have wf: "trie_wf (CHR ''.'') (TrieIndex mi)" by (simp add: find_ok_def)
  show ?thesis
  proof (cases "metric = ''*''")
    case True
    have "splitMetricsPath ''*'' = [''*'']" "toTrieQuery ''*'' = ''*''" by code_simp+
    with visit targs True have v: "distinct (visit (Children ''*'' (TrieIndex mi)))"
      "set (visit (Children ''*'' (TrieIndex mi))) = dom (Children ''*'' (TrieIndex mi))" by simp_all
    from v(1) have "distinct (map mf_Path (FindRoot visit mi))" by (simp add: FindRoot_def branch_item_def comp_def)
    with FindRoot_nodes [of mi visit, OF wf v(2)] True show ?thesis by (simp add: mi_Find_def)
  next
    case False
    define s where "s = fold (find_targ visit compile metric hasDataOnly mi) (splitMetricsPath metric)
      \<lparr>mt = [], seenList = [], errorList = []\<rparr>"
    have "\<forall>targ\<in>targs. map_of (mi_nameIndex mi) targ = None" using ok glob by (simp add: mi_ok_def)
    then have *: "\<forall>targ\<in>set (splitMetricsPath metric). glob targ \<and> map_of (mi_nameIndex mi) targ = None \<and>
        regifyKey compile targ = Some (reg targ) \<and>
        set (visit (Children (toTrieQuery targ) (TrieIndex mi))) = dom (Children (toTrieQuery targ) (TrieIndex mi))"
      using glob visit unfolding targs by blast
    have "found (node_item hasDataOnly (node_map mi)) {} \<lparr>mt = [], seenList = [], errorList = []\<rparr>"
      by (simp add: found_def)
    from find_targs_found [OF wf * this, of metric]
    have found: "found (node_item hasDataOnly (node_map mi)) {k. node_at k mi \<noteq> None \<and> named reg targs k} s"
      unfolding s_def targs by simp
    then have "mi_Find visit compile metric hasDataOnly mi = (mt s, None)"
      using False by (simp add: mi_Find_def Let_def found_def flip: s_def)
    with found_items [OF ok f found] False show ?thesis by simp
  qed
qed

text \<open>The keys of a map among the given ones.\<close>

definition visit_keys :: "string list \<Rightarrow> (string \<Rightarrow> 'a option) \<Rightarrow> string list" where
  "visit_keys ks m = filter (\<lambda>k. m k \<noteq> None) ks"

definition two_paths :: "trieItem Trie" where
  "two_paths = \<lparr>root = Tree None
      [(''a'', Tree None [(''b'', Tree (Some \<lparr>ti_Uid = ''a.b'', LastHit = 0, ti_Path = ''a.b''\<rparr>) [])]),
       (''c'', Tree None [(''b'', Tree (Some \<lparr>ti_Uid = ''c.b'', LastHit = 0, ti_Path = ''c.b''\<rparr>) [])])],
     delim = ''.'', trie_length = 2\<rparr>"

lemma visit_two_paths:
  "distinct (visit_keys [''a.b'', ''c.b''] (Children ''*.*'' two_paths)) \<and>
   set (visit_keys [''a.b'', ''c.b''] (Children ''*.*'' two_paths)) = dom (Children ''*.*'' two_paths)"
proof -
  have "Split ''*.*'' ''.'' = [''*'', ''*'']" by code_simp
  then show ?thesis by (auto simp: visit_keys_def two_paths_def Children_def merge_results_def dom_def)
qed

text \<open>Two patterns, the second with a comma in braces.\<close>

definition two_globs :: string where
  "two_globs = ''a.*,{c,d}.b''"

theorem metric_find_glob_witness:
  "\<exists>mi. mi_run (\<lambda>p. p) 0 (\<lambda>_ _. None) [Index ''a.b'', Index ''c.b''] NewMetricIndex = Some mi \<and>
    (\<exists>items. mi_Find (visit_keys [''a.b'', ''c.b'']) (\<lambda>e. Some (\<lambda>k. k \<noteq> [])) two_globs False mi = (items, None) \<and>
      distinct (map mf_Path items) \<and>
      (\<lambda>i. (mf_Path i, mf_UniqueId i)) ` {i \<in> set items. MetricFindItem.Leaf i = 1} =
        {(p, p) | p. p \<in> {''a.b'', ''c.b''} \<and> map_option tree_children (node_at p mi) = Some []})"
proof -
  let ?ops = "[Index ''a.b'', Index ''c.b'']" and ?reg = "\<lambda>targ :: string. \<lambda>k. k \<noteq> ([] :: string)"
  obtain mi where run: "mi_run (\<lambda>p. p) 0 (\<lambda>_ _. None) ?ops NewMetricIndex = Some mi"
    using mi_run_ok [OF mi_ok_new, of "\<lambda>p. p" ?ops 0 "\<lambda>_ _. None"] by auto
  have "map_option TrieIndex (mi_run (\<lambda>p. p) 0 (\<lambda>_ _. None) ?ops NewMetricIndex) = Some two_paths" by code_simp
  then have trie: "TrieIndex mi = two_paths" using run by simp
  have e: "splitMetricsPath two_globs = [''a.*'', ''{c,d}.b'']" "two_globs \<noteq> ''*''"
    "toTrieQuery ''a.*'' = ''*.*''" "toTrieQuery ''{c,d}.b'' = ''*.*''" "glob ''a.*''" "glob ''{c,d}.b''"
    "depth ''a.*'' = 2" "depth ''a.b'' = 2" "depth ''c.b'' = 2" by code_simp+
  have h: "\<forall>p. Remove p \<in> set ?ops \<longrightarrow> \<not> 16 dvd length (Split p ''.'')"
    "\<forall>targ\<in>set (splitMetricsPath two_globs). glob targ \<and> targ \<notin> paths_after ?ops {} \<and>
      regifyKey (\<lambda>e. Some (\<lambda>k. k \<noteq> [])) targ = Some (?reg targ)"
    "\<forall>targ\<in>set (splitMetricsPath two_globs).
      distinct (visit_keys [''a.b'', ''c.b''] (Children (toTrieQuery targ) (TrieIndex mi))) \<and>
      set (visit_keys [''a.b'', ''c.b''] (Children (toTrieQuery targ) (TrieIndex mi))) = dom (Children (toTrieQuery targ) (TrieIndex mi))"
    using visit_two_paths by (simp_all add: e trie regifyKey_def)
  have "{(q, q) | q. q \<in> paths_after ?ops {} \<and> named ?reg (set (splitMetricsPath two_globs)) q \<and>
      map_option tree_children (node_at q mi) = Some []} =
    {(q, q) | q. q \<in> {''a.b'', ''c.b''} \<and> map_option tree_children (node_at q mi) = Some []}"
    by (rule Collect_cong) (auto simp: named_def e)
  with metric_find_glob [OF inj_on_id2 h(1) run refl h(2,3), of False] e(2) run show ?thesis by auto
qed

end
