(* ===== verification/Ram_Indexer.thy ===== *)
theory Ram_Indexer
  imports Tag_Index Metric_Index
begin

text \<open>
  The indexer in memory (\<^verbatim>\<open>writers/indexer/ram.go\<close>): the index of paths and the index of tags
  under one roof. The index of paths is nil until the indexer is configured; using it then, like every panic and
  every wait for a lock that is never given back, is \<open>None\<close>. The hash of names and the clock are
  arguments, and so are the orders in which ranges over maps visit their keys.
\<close>

definition RAM_INDEXER_EXPIRE_METRICS_TIME :: int where
  "RAM_INDEXER_EXPIRE_METRICS_TIME = 48 * 3600 * 1000000000"

record RamIndexer =
  indexerId :: string
  cullMetricDelta :: int
  ri_TagIndex :: TagIndex
  ri_MetricIndex :: "MetricIndex option"
  hasData :: int

definition NewRamIndexer :: RamIndexer where
  "NewRamIndexer = \<lparr>indexerId = [], cullMetricDelta = RAM_INDEXER_EXPIRE_METRICS_TIME, ri_TagIndex = NewTagIndex,
     ri_MetricIndex = None, hasData = 0\<rparr>"

definition ConfigRam :: "RamIndexer \<Rightarrow> RamIndexer" where
  "ConfigRam r = r\<lparr>ri_MetricIndex := Some NewMetricIndex\<rparr>"

text \<open>The name and the index of a configured indexer; a name that is not given is the default one.\<close>

definition ri_Config :: "string option \<Rightarrow> RamIndexer \<Rightarrow> RamIndexer" where
  "ri_Config name r =
     (let r1 = (if ri_MetricIndex r = None then ConfigRam r else r)
      in r1\<lparr>indexerId := (case name of Some n \<Rightarrow> n | None \<Rightarrow> ''indexer:ram'')\<rparr>)"

definition HasData :: "RamIndexer \<Rightarrow> bool" where
  "HasData r \<longleftrightarrow> hasData r = 1"

definition ShouldWrite :: "RamIndexer \<Rightarrow> bool" where
  "ShouldWrite r = True"

definition ri_Name :: "RamIndexer \<Rightarrow> string" where
  "ri_Name r = indexerId r"

text \<open>One turn of the loop that culls.\<close>

definition periodicCull :: "int \<Rightarrow> RamIndexer \<Rightarrow> RamIndexer option" where
  "periodicCull now r = do {
     mi \<leftarrow> ri_MetricIndex r;
     Some (r\<lparr>ri_MetricIndex := Some (snd (CullExpired now RAM_INDEXER_EXPIRE_METRICS_TIME mi))\<rparr>) }"

definition ri_Delete ::
  "(string \<Rightarrow> u64) \<Rightarrow> (nat \<Rightarrow> string \<Rightarrow> index_error option) \<Rightarrow> StatName \<Rightarrow> RamIndexer \<Rightarrow> (index_error option \<times> RamIndexer) option" where
  "ri_Delete farm db_Delete name r = do {
     mi \<leftarrow> ri_MetricIndex r;
     (err, mi1) \<leftarrow> mi_Delete db_Delete (Key name) mi;
     let r1 = r\<lparr>ri_MetricIndex := Some mi1\<rparr>;
     if err \<noteq> None then Some (err, r1)
     else do {
       ti \<leftarrow> ti_DeleteByUid (fst (UniqueIdString farm name)) (ri_TagIndex r1);
       Some (None, r1\<lparr>ri_TagIndex := ti\<rparr>) } }"

text \<open>
  The name sorts its tags and keeps its id when the id is asked for. Lists of tags that are not empty go to the index of
  tags.
\<close>

definition add_tags :: "string \<Rightarrow> SortingTags \<Rightarrow> TagIndex \<Rightarrow> TagIndex option" where
  "add_tags uid tags ti = (if IsEmpty tags then Some ti else ti_Add uid tags ti)"

definition ri_Write :: "(string \<Rightarrow> u64) \<Rightarrow> int \<Rightarrow> StatName \<Rightarrow> RamIndexer \<Rightarrow> RamIndexer option" where
  "ri_Write farm now metric r = do {
     let (uid, metric1) = UniqueIdString farm metric;
     mi \<leftarrow> ri_MetricIndex r;
     let r1 = r\<lparr>ri_MetricIndex := Some (mi_Add now uid (Key metric1) mi), hasData := 1\<rparr>;
     ti1 \<leftarrow> add_tags uid (nm_Tags metric1) (ri_TagIndex r1);
     ti2 \<leftarrow> add_tags uid (MetaTags metric1) ti1;
     Some (r1\<lparr>ri_TagIndex := ti2\<rparr>) }"

definition KeyExists :: "string \<Rightarrow> RamIndexer \<Rightarrow> bool option" where
  "KeyExists metric r = do { mi \<leftarrow> ri_MetricIndex r; Some (length (mi_Contains metric mi) > 0) }"

text \<open>The time is in seconds.\<close>

definition WriteLastSeen :: "(string \<Rightarrow> u64) \<Rightarrow> int \<Rightarrow> StatName \<Rightarrow> int \<Rightarrow> RamIndexer \<Rightarrow> RamIndexer option" where
  "WriteLastSeen farm now metric lastseen r =
     (let t = lastseen * 1000000000 in
      if t < now - cullMetricDelta r then Some r
      else do {
        r1 \<leftarrow> ri_Write farm now metric r;
        mi \<leftarrow> ri_MetricIndex r1;
        Some (r1\<lparr>ri_MetricIndex := Some (SetLastSeen (fst (UniqueIdString farm metric)) t mi)\<rparr>) })"

definition ri_GetLastSeen :: "(string \<Rightarrow> u64) \<Rightarrow> StatName \<Rightarrow> RamIndexer \<Rightarrow> int option" where
  "ri_GetLastSeen farm metric r = do {
     mi \<leftarrow> ri_MetricIndex r; Some (Metric_Index.GetLastSeen (fst (UniqueIdString farm metric)) mi) }"

definition NeedsWrite :: "(string \<Rightarrow> u64) \<Rightarrow> int \<Rightarrow> StatName \<Rightarrow> int \<Rightarrow> RamIndexer \<Rightarrow> bool option" where
  "NeedsWrite farm now metric dur r = do {
     t \<leftarrow> ri_GetLastSeen farm metric r;
     Some (if t = zero_time then True else t < now - dur) }"

section \<open>Queries\<close>

definition MAX_PER_PAGE :: int where
  "MAX_PER_PAGE = 2048"

definition list_item :: "TagIndex \<Rightarrow> string \<times> string \<Rightarrow> MetricFindItem" where
  "list_item ti kv = (case kv of (k, uid) \<Rightarrow> (data_item k k uid)\<lparr>mf_Tags := nil_or (FindTagsByUid uid ti)\<rparr>)"

text \<open>The loop over the paths with the count of those visited.\<close>

fun list_loop :: "int \<Rightarrow> int \<Rightarrow> TagIndex \<Rightarrow> int \<Rightarrow> (string \<times> string) list \<Rightarrow> MetricFindItem list" where
  "list_loop want_start stop_count ti cur_ct [] = []"
| "list_loop want_start stop_count ti cur_ct (kv # kvs) =
     (let cur_ct = cur_ct + 1 in
      if cur_ct < want_start then list_loop want_start stop_count ti cur_ct kvs
      else if cur_ct > stop_count then []
      else list_item ti kv # list_loop want_start stop_count ti cur_ct kvs)"

definition ri_List :: "int \<Rightarrow> RamIndexer \<Rightarrow> MetricFindItem list option" where
  "ri_List page r = do {
     mi \<leftarrow> ri_MetricIndex r;
     Some (list_loop (page * MAX_PER_PAGE) ((page + 1) * MAX_PER_PAGE) (ri_TagIndex r) 0 (mi_nameIndex mi)) }"

definition ri_Find ::
  "((string \<Rightarrow> trieItem child_result option) \<Rightarrow> string list) \<Rightarrow> (string \<Rightarrow> regexp option) \<Rightarrow> string \<Rightarrow> RamIndexer \<Rightarrow>
    (MetricFindItem list \<times> index_error option) option" where
  "ri_Find visit compile metric r = do { mi \<leftarrow> ri_MetricIndex r; Some (mi_Find visit compile metric False mi) }"

definition GetTagsByUid :: "string \<Rightarrow> RamIndexer \<Rightarrow> Tag list option" where
  "GetTagsByUid uniqueId r = FindTagsByUid uniqueId (ri_TagIndex r)"

definition ri_GetTagsByName ::
  "(string \<Rightarrow> regexp option) \<Rightarrow> string \<Rightarrow> RamIndexer \<Rightarrow> (string \<times> string) list option \<times> RamIndexer" where
  "ri_GetTagsByName compile name r =
     (case GetTagsByName compile name (ri_TagIndex r) of (tags, ti) \<Rightarrow> (tags, r\<lparr>ri_TagIndex := ti\<rparr>))"

definition ri_GetTagsByNameValue ::
  "(string \<Rightarrow> regexp option) \<Rightarrow> (string \<Rightarrow> string \<Rightarrow> bool) \<Rightarrow> string \<Rightarrow> string \<Rightarrow> RamIndexer \<Rightarrow>
    (string \<times> string) list option \<times> RamIndexer" where
  "ri_GetTagsByNameValue compile fold_eq name value r =
     (case GetTagsByNameValue compile fold_eq name value (ri_TagIndex r) of (tags, ti) \<Rightarrow> (tags, r\<lparr>ri_TagIndex := ti\<rparr>))"

definition GetUidsByTags :: "SortingTags \<Rightarrow> RamIndexer \<Rightarrow> string list \<times> RamIndexer" where
  "GetUidsByTags tags r = (case FindUidByTags tags (ri_TagIndex r) of (uids, ti) \<Rightarrow> (uids, r\<lparr>ri_TagIndex := ti\<rparr>))"

section \<open>Culling by id\<close>

text \<open>The errors of the deletions are dropped.\<close>

fun purge_all :: "(nat \<Rightarrow> string \<Rightarrow> index_error option) \<Rightarrow> string list \<Rightarrow> MetricIndex \<Rightarrow> TagIndex \<Rightarrow> (MetricIndex \<times> TagIndex) option" where
  "purge_all db_Delete [] mi ti = Some (mi, ti)"
| "purge_all db_Delete (uid # toPurge) mi ti = do {
     (err, mi1) \<leftarrow> mi_DeleteByUid db_Delete uid mi;
     ti1 \<leftarrow> ti_DeleteByUid uid ti;
     purge_all db_Delete toPurge mi1 ti1 }"

definition cullMetrics ::
  "((string \<Rightarrow> int option) \<Rightarrow> string list) \<Rightarrow> (nat \<Rightarrow> string \<Rightarrow> index_error option) \<Rightarrow> int \<Rightarrow> int \<Rightarrow> RamIndexer \<Rightarrow> RamIndexer option" where
  "cullMetrics visit db_Delete now cTime r = do {
     mi \<leftarrow> ri_MetricIndex r;
     let cTime = (if cTime > 0 then - cTime else cTime);
     let toPurge = filter (\<lambda>uid. case lastHit mi uid of Some t \<Rightarrow> t < now + cTime | None \<Rightarrow> False) (visit (lastHit mi));
     (mi1, ti1) \<leftarrow> purge_all db_Delete toPurge mi (ri_TagIndex r);
     Some (r\<lparr>ri_MetricIndex := Some mi1, ri_TagIndex := ti1\<rparr>) }"

end
