(* ===== verification/Ram_Indexer_Laws.thy ===== *)
theory Ram_Indexer_Laws
  imports Ram_Indexer Tag_Index_Laws Metric_Index_Laws
begin

text \<open>
  The indexer in memory as the composition of its two indexes: what is known after writing and
  deleting names; and how its list of paths is cut into pages.
\<close>

section \<open>Names written and deleted\<close>

definition tags_ok :: "TagIndex \<Rightarrow> bool" where
  "tags_ok ti \<longleftrightarrow> unlocked ti \<and> indexed ti \<and> named ti"

lemma tags_ok_New: "tags_ok NewTagIndex"
  by (simp add: tags_ok_def NewTagIndex_def unlocked_def indexed_def named_def)

lemma add_tags_step:
  assumes "tags_ok ti"
  obtains ti' where "add_tags uid ts ti = Some ti'" "tags_ok ti'"
    "\<And>u. nil_or (uidInvertIndex ti' u) = nil_or (uidInvertIndex ti u) @ (if u = uid then ts else [])"
proof (cases "ts = []")
  case True
  then show ?thesis using that [of ti] assms by (simp add: add_tags_def IsEmpty_def)
next
  case False
  obtain ti' where ti': "ti_Add uid ts ti = Some ti'" "unlocked ti'"
    using ti_Add_total [of ti uid ts] assms by (auto simp: tags_ok_def)
  then have "tags_ok ti'" using ti_Add_indexed assms unfolding tags_ok_def by blast
  moreover have "nil_or (uidInvertIndex ti' u) = nil_or (uidInvertIndex ti u) @ (if u = uid then ts else [])" for u
    using ti_Add_tags [OF _ ti'(1)] assms False by (simp add: tags_ok_def)
  ultimately show ?thesis using that ti'(1) False by (simp add: add_tags_def IsEmpty_def)
qed

lemma UniqueIdString_Key: "Key (snd (UniqueIdString farm n)) = Key n"
  by (auto simp: UniqueIdString_def UniqueId_def UniqueIdAllTagsString_def SortedTags_def SortedMetaTags_def Let_def split: prod.splits if_splits)

text \<open>The tags of a name as they go to the index.\<close>

definition all_tags :: "(string \<Rightarrow> u64) \<Rightarrow> StatName \<Rightarrow> Tag list" where
  "all_tags farm n = (let n1 = snd (UniqueIdString farm n) in nm_Tags n1 @ MetaTags n1)"

lemma ri_Write_step:
  assumes "ri_MetricIndex r = Some mi" "tags_ok (ri_TagIndex r)"
  obtains r' where "ri_Write farm now n r = Some r'"
    "ri_MetricIndex r' = Some (mi_Add now (fst (UniqueIdString farm n)) (Key n) mi)" "tags_ok (ri_TagIndex r')" "hasData r' = 1"
    "\<And>u. nil_or (uidInvertIndex (ri_TagIndex r') u) = nil_or (uidInvertIndex (ri_TagIndex r) u) @
      (if u = fst (UniqueIdString farm n) then all_tags farm n else [])"
proof -
  obtain uid n1 where n: "UniqueIdString farm n = (uid, n1)" by fastforce
  obtain ti1 where ti1: "add_tags uid (nm_Tags n1) (ri_TagIndex r) = Some ti1" "tags_ok ti1"
    "\<And>u. nil_or (uidInvertIndex ti1 u) = nil_or (uidInvertIndex (ri_TagIndex r) u) @ (if u = uid then nm_Tags n1 else [])"
    using add_tags_step [OF assms(2)] by metis
  obtain ti2 where ti2: "add_tags uid (MetaTags n1) ti1 = Some ti2" "tags_ok ti2"
    "\<And>u. nil_or (uidInvertIndex ti2 u) = nil_or (uidInvertIndex ti1 u) @ (if u = uid then MetaTags n1 else [])"
    using add_tags_step [OF ti1(2)] by metis
  have "Key n1 = Key n" using UniqueIdString_Key [of farm n] n by simp
  then show ?thesis
    using that n ti1 ti2 assms(1) by (simp add: ri_Write_def all_tags_def)
qed

lemma ri_Delete_step:
  assumes "ri_MetricIndex r = Some mi" "tags_ok (ri_TagIndex r)" "mi_Delete db (Key n) mi = Some (None, mi')"
  obtains r' where "ri_Delete farm db n r = Some (None, r')" "ri_MetricIndex r' = Some mi'" "tags_ok (ri_TagIndex r')"
    "\<And>u. nil_or (uidInvertIndex (ri_TagIndex r') u) =
      (if u = fst (UniqueIdString farm n) then [] else nil_or (uidInvertIndex (ri_TagIndex r) u))"
proof -
  obtain ti where "ti_DeleteByUid (fst (UniqueIdString farm n)) (ri_TagIndex r) = Some ti" "tags_ok ti"
    "uidInvertIndex ti = (uidInvertIndex (ri_TagIndex r))(fst (UniqueIdString farm n) := None)"
    using ti_DeleteByUid_unlocked [of "ri_TagIndex r" "fst (UniqueIdString farm n)"] assms(2) by (auto simp: tags_ok_def)
  then show ?thesis using that assms(1,3) by (simp add: ri_Delete_def)
qed

datatype ri_op = Write_path string | Delete_path string

fun ri_run ::
  "(string \<Rightarrow> u64) \<Rightarrow> int \<Rightarrow> (nat \<Rightarrow> string \<Rightarrow> index_error option) \<Rightarrow> (string \<Rightarrow> StatName) \<Rightarrow> ri_op list \<Rightarrow> RamIndexer \<Rightarrow> RamIndexer option" where
  "ri_run farm now db name_of [] r = Some r"
| "ri_run farm now db name_of (Write_path p # ops) r = do { r1 \<leftarrow> ri_Write farm now (name_of p) r; ri_run farm now db name_of ops r1 }"
| "ri_run farm now db name_of (Delete_path p # ops) r = do { (e, r1) \<leftarrow> ri_Delete farm db (name_of p) r; ri_run farm now db name_of ops r1 }"

text \<open>How often a path was written since it was last deleted.\<close>

fun writes_after :: "ri_op list \<Rightarrow> (string \<Rightarrow> nat) \<Rightarrow> string \<Rightarrow> nat" where
  "writes_after [] w = w"
| "writes_after (Write_path p # ops) w = writes_after ops (w(p := Suc (w p)))"
| "writes_after (Delete_path p # ops) w = writes_after ops (w(p := 0))"

fun op_path :: "ri_op \<Rightarrow> string" where
  "op_path (Write_path p) = p"
| "op_path (Delete_path p) = p"

definition ri_ok :: "(string \<Rightarrow> u64) \<Rightarrow> (string \<Rightarrow> StatName) \<Rightarrow> string set \<Rightarrow> (string \<Rightarrow> nat) \<Rightarrow> RamIndexer \<Rightarrow> bool" where
  "ri_ok farm name_of P w r \<longleftrightarrow> {p. 0 < w p} \<subseteq> P \<and>
     (\<exists>mi. ri_MetricIndex r = Some mi \<and> mi_ok (\<lambda>p. fst (UniqueIdString farm (name_of p))) {p. 0 < w p} mi) \<and>
     tags_ok (ri_TagIndex r) \<and>
     (\<forall>p\<in>P. nil_or (uidInvertIndex (ri_TagIndex r) (fst (UniqueIdString farm (name_of p)))) =
        concat (replicate (w p) (all_tags farm (name_of p))))"

lemma concat_replicate_Suc: "concat (replicate n xs) @ xs = concat (replicate (Suc n) xs)"
  by (induction n) simp_all

lemma ri_ok_Write:
  assumes "ri_ok farm name_of P w r" "inj_on (\<lambda>p. fst (UniqueIdString farm (name_of p))) P" "Key (name_of p) = p" "p \<in> P"
  shows "\<exists>r'. ri_Write farm now (name_of p) r = Some r' \<and> ri_ok farm name_of P (w(p := Suc (w p))) r'"
proof -
  let ?id = "\<lambda>p. fst (UniqueIdString farm (name_of p))"
  obtain mi where mi: "ri_MetricIndex r = Some mi" "mi_ok ?id {p. 0 < w p} mi" using assms(1) by (auto simp: ri_ok_def)
  obtain r' where r': "ri_Write farm now (name_of p) r = Some r'" "ri_MetricIndex r' = Some (mi_Add now (?id p) p mi)"
    "tags_ok (ri_TagIndex r')"
    "\<And>u. nil_or (uidInvertIndex (ri_TagIndex r') u) = nil_or (uidInvertIndex (ri_TagIndex r) u) @
      (if u = ?id p then all_tags farm (name_of p) else [])"
    using ri_Write_step [OF mi(1)] assms(1,3) unfolding ri_ok_def by metis
  have "{q. 0 < (w(p := Suc (w p))) q} = insert p {q. 0 < w q}" by auto
  then have "mi_ok ?id {q. 0 < (w(p := Suc (w p))) q} (mi_Add now (?id p) p mi)" using mi_ok_Add [OF mi(2), of p now] inj_on_subset [OF assms(2), of "insert p {q. 0 < w q}"] assms(1,4) by (simp add: ri_ok_def)
  moreover have "nil_or (uidInvertIndex (ri_TagIndex r') (?id q)) =
      concat (replicate ((w(p := Suc (w p))) q) (all_tags farm (name_of q)))" if "q \<in> P" for q
    using assms(1) r'(4) inj_onD [OF assms(2), of q p] assms(4) that
    by (cases "q = p") (auto simp: ri_ok_def concat_replicate_Suc simp del: replicate_Suc)
  ultimately show ?thesis using r' assms(1,4) by (auto simp: ri_ok_def)
qed

lemma ri_ok_Delete:
  assumes "ri_ok farm name_of P w r" "inj_on (\<lambda>p. fst (UniqueIdString farm (name_of p))) P" "Key (name_of p) = p" "p \<in> P"
    and "\<forall>i k. db i k = None" "\<not> needRegex p" "\<not> 16 dvd length (Split p ''.'')"
  shows "\<exists>r'. ri_Delete farm db (name_of p) r = Some (None, r') \<and> ri_ok farm name_of P (w(p := 0)) r'"
proof -
  let ?id = "\<lambda>p. fst (UniqueIdString farm (name_of p))"
  obtain mi where mi: "ri_MetricIndex r = Some mi" "mi_ok ?id {p. 0 < w p} mi" using assms(1) by (auto simp: ri_ok_def)
  then have "numPartitions mi = 16" by (simp add: mi_ok_def)
  then obtain e mi' where e: "mi_Delete db p mi = Some (e, mi')" using mi_Delete_None [of mi db p] assms(7) by auto
  moreover from this have "e = None" using assms(5,6) by (auto simp: mi_Delete_def Let_def split: bind_splits)
  ultimately have d: "mi_Delete db (Key (name_of p)) mi = Some (None, mi')" using assms(3) by simp
  obtain r' where r': "ri_Delete farm db (name_of p) r = Some (None, r')" "ri_MetricIndex r' = Some mi'"
    "tags_ok (ri_TagIndex r')"
    "\<And>u. nil_or (uidInvertIndex (ri_TagIndex r') u) = (if u = ?id p then [] else nil_or (uidInvertIndex (ri_TagIndex r) u))"
    using ri_Delete_step [OF mi(1) _ d] assms(1) unfolding ri_ok_def by metis
  have "{q. 0 < (w(p := 0)) q} = {q. 0 < w q} - {p}" by auto
  then have "mi_ok ?id {q. 0 < (w(p := 0)) q} mi'" using mi_ok_Delete [OF mi(2) inj_on_subset [OF assms(2)] e] assms(1,6) by (simp add: ri_ok_def)
  moreover have "nil_or (uidInvertIndex (ri_TagIndex r') (?id q)) = concat (replicate ((w(p := 0)) q) (all_tags farm (name_of q)))" if "q \<in> P" for q
    using assms(1) r'(4) inj_onD [OF assms(2), of q p] assms(4) that by (cases "q = p") (auto simp: ri_ok_def)
  ultimately show ?thesis using r' assms(1,4) by (auto simp: ri_ok_def)
qed

lemma ri_run_ok:
  assumes "inj_on (\<lambda>p. fst (UniqueIdString farm (name_of p))) P" "\<And>p. Key (name_of p) = p" "\<forall>i k. db i k = None"
  shows "ri_ok farm name_of P w r \<Longrightarrow> op_path ` set ops \<subseteq> P \<Longrightarrow>
    \<forall>p. Delete_path p \<in> set ops \<longrightarrow> \<not> needRegex p \<and> \<not> 16 dvd length (Split p ''.'') \<Longrightarrow>
    \<exists>r'. ri_run farm now db name_of ops r = Some r' \<and> ri_ok farm name_of P (writes_after ops w) r'"
proof (induction ops arbitrary: w r)
  case (Cons op ops)
  show ?case
  proof (cases op)
    case (Write_path p)
    then have "p \<in> P" using Cons.prems(2) by simp
    then obtain r1 where "ri_Write farm now (name_of p) r = Some r1" "ri_ok farm name_of P (w(p := Suc (w p))) r1"
      using ri_ok_Write [OF Cons.prems(1) assms(1,2)] by blast
    then show ?thesis using Cons.IH Cons.prems(2,3) Write_path by simp
  next
    case (Delete_path p)
    have "\<not> needRegex p" "\<not> 16 dvd length (Split p ''.'')" "p \<in> P" using Cons.prems(2,3) Delete_path by auto
    then obtain r1 where "ri_Delete farm db (name_of p) r = Some (None, r1)" "ri_ok farm name_of P (w(p := 0)) r1"
      using ri_ok_Delete [OF Cons.prems(1) assms(1,2) _ assms(3)] by blast
    then show ?thesis using Cons.IH Cons.prems(2,3) Delete_path by simp
  qed
qed simp

lemma FormatUint_not_Nil: "FormatUint n 36 \<noteq> []"
  using ParseUint_FormatUint [of 36 n] by (auto simp: ParseUint_def)

lemma UniqueIdString_not_Nil: "fst (UniqueIdString farm n) \<noteq> []"
  using FormatUint_not_Nil by (auto simp: UniqueIdString_def Let_def split: prod.splits)

text \<open>
  C36. The indexer in memory, after any writes and deletions of names whose ids differ as their paths do (the deletions of paths
  without wildcards and with a number of parts that is no multiple of 16), knows exactly the paths written since their last
  deletion, and of each path its tags and meta tags once for every such write.
\<close>

theorem ram_indexer_run:
  assumes "inj_on (\<lambda>p. fst (UniqueIdString farm (name_of p))) (op_path ` set ops)" "\<forall>p. Key (name_of p) = p" "\<forall>i k. db i k = None"
    and "\<forall>p. Delete_path p \<in> set ops \<longrightarrow> \<not> needRegex p \<and> \<not> 16 dvd length (Split p ''.'')"
  shows "\<exists>r. ri_run farm now db name_of ops (ri_Config nm NewRamIndexer) = Some r \<and>
    (\<forall>p. KeyExists p r = Some (0 < writes_after ops (\<lambda>_. 0) p)) \<and>
    (\<forall>p\<in>op_path ` set ops. nil_or (GetTagsByUid (fst (UniqueIdString farm (name_of p))) r) =
      concat (replicate (writes_after ops (\<lambda>_. 0) p) (all_tags farm (name_of p))))"
proof -
  let ?id = "\<lambda>p. fst (UniqueIdString farm (name_of p))"
  have "ri_ok farm name_of (op_path ` set ops) (\<lambda>_. 0) (ri_Config nm NewRamIndexer)"
    using mi_ok_new tags_ok_New
    by (simp add: ri_ok_def ri_Config_def ConfigRam_def NewRamIndexer_def) (simp add: NewTagIndex_def)
  then obtain r where r: "ri_run farm now db name_of ops (ri_Config nm NewRamIndexer) = Some r"
    "ri_ok farm name_of (op_path ` set ops) (writes_after ops (\<lambda>_. 0)) r"
    using ri_run_ok [OF assms(1) _ assms(3) _ order_refl assms(4)] assms(2) by blast
  then obtain mi where mi: "ri_MetricIndex r = Some mi" "mi_ok ?id {p. 0 < writes_after ops (\<lambda>_. 0) p} mi"
    by (auto simp: ri_ok_def)
  then have "KeyExists p r = Some (0 < writes_after ops (\<lambda>_. 0) p)" for p
    using UniqueIdString_not_Nil by (simp add: KeyExists_def mi_Contains_def mi_ok_def)
  then show ?thesis using r by (auto simp: ri_ok_def GetTagsByUid_def FindTagsByUid_def)
qed

definition plain_name :: "string \<Rightarrow> StatName" where
  "plain_name p = \<lparr>Key = p, XXX_uniqueId = 0, XXX_uniqueIdstr = [], nm_Resolution = 0, Ttl = 0, nm_TagMode = TAG_METRICS2,
     nm_HashMode = HASH_FARM, nm_Tags = [\<lparr>Name = ''t'', Value = p\<rparr>], MetaTags = []\<rparr>"

definition first_letter :: "string \<Rightarrow> u64" where
  "first_letter s = (if hd s = CHR ''a'' then 1 else 2)"

theorem ram_indexer_run_witness:
  "\<exists>r. ri_run first_letter 0 (\<lambda>_ _. None) plain_name [Write_path ''a'', Write_path ''a'', Write_path ''c'', Delete_path ''c'']
      (ri_Config None NewRamIndexer) = Some r \<and>
    KeyExists ''a'' r = Some True \<and> KeyExists ''c'' r = Some False \<and>
    nil_or (GetTagsByUid (fst (UniqueIdString first_letter (plain_name ''a''))) r) =
      [\<lparr>Name = ''t'', Value = ''a''\<rparr>, \<lparr>Name = ''t'', Value = ''a''\<rparr>]"
proof -
  define ops where "ops = [Write_path ''a'', Write_path ''a'', Write_path ''c'', Delete_path ''c'']"
  have ids: "fst (UniqueIdString first_letter (plain_name ''a'')) \<noteq> fst (UniqueIdString first_letter (plain_name ''c''))"
    by code_simp
  have c: "\<not> needRegex ''c''" "length (Split ''c'' ''.'') = 1"
    "all_tags first_letter (plain_name ''a'') = [\<lparr>Name = ''t'', Value = ''a''\<rparr>]" by code_simp+
  have "inj_on (\<lambda>p. fst (UniqueIdString first_letter (plain_name p))) (op_path ` set ops)"
    using ids by (auto simp: inj_on_def ops_def)
  moreover have "\<forall>p. Key (plain_name p) = p" by (simp add: plain_name_def)
  moreover have "\<forall>p. Delete_path p \<in> set ops \<longrightarrow> \<not> needRegex p \<and> \<not> 16 dvd length (Split p ''.'')"
    using c by (simp add: ops_def)
  ultimately obtain r where r: "ri_run first_letter 0 (\<lambda>_ _. None) plain_name ops (ri_Config None NewRamIndexer) = Some r"
    "\<forall>p. KeyExists p r = Some (0 < writes_after ops (\<lambda>_. 0) p)"
    "\<forall>p \<in> op_path ` set ops. nil_or (GetTagsByUid (fst (UniqueIdString first_letter (plain_name p))) r) =
      concat (replicate (writes_after ops (\<lambda>_. 0) p) (all_tags first_letter (plain_name p)))"
    using ram_indexer_run [of first_letter plain_name ops "\<lambda>_ _. None" 0 None] by blast
  have "writes_after ops (\<lambda>_. 0) ''a'' = 2" "writes_after ops (\<lambda>_. 0) ''c'' = 0" "''a'' \<in> op_path ` set ops"
    by (simp_all add: ops_def)
  then show ?thesis using r(1,2) bspec [OF r(3), of "''a''"] c(3) by (intro exI [of _ r]) (simp add: ops_def [symmetric] numeral_2_eq_2)
qed

section \<open>Pages\<close>

lemma list_loop_take:
  "want \<le> cur + 1 \<Longrightarrow> list_loop want stop ti cur kvs = map (list_item ti) (take (nat (stop - cur)) kvs)"
proof (induction kvs arbitrary: cur)
  case (Cons kv kvs)
  show ?case
  proof (cases "cur + 1 > stop")
    case False
    then have "nat (stop - cur) = Suc (nat (stop - (cur + 1)))" by simp
    then show ?thesis using Cons.IH [of "cur + 1"] Cons.prems False by (simp add: Let_def)
  qed (use Cons.prems in \<open>simp add: Let_def\<close>)
qed simp

lemma list_loop_drop:
  "cur < want \<Longrightarrow> list_loop want stop ti cur kvs = list_loop want stop ti (want - 1) (drop (nat (want - 1 - cur)) kvs)"
proof (induction kvs arbitrary: cur)
  case (Cons kv kvs)
  show ?case
  proof (cases "cur + 1 < want")
    case True
    then have "nat (want - 1 - cur) = Suc (nat (want - 1 - (cur + 1)))" by simp
    then show ?thesis using Cons.IH [of "cur + 1"] True by (simp add: Let_def)
  next
    case False
    then have "cur = want - 1" using Cons.prems by simp
    then show ?thesis by (simp del: list_loop.simps)
  qed
qed simp

text \<open>
  The first page of the list has the first 2048 paths; every later page has up to 2049, of which the
  first is the last one of the page before.
\<close>

theorem ram_list_pages:
  assumes "ri_MetricIndex r = Some mi"
  shows "ri_List 0 r = Some (map (list_item (ri_TagIndex r)) (take 2048 (mi_nameIndex mi))) \<and>
    (\<forall>page > 0. ri_List (int page) r =
      Some (map (list_item (ri_TagIndex r)) (take 2049 (drop (page * 2048 - 1) (mi_nameIndex mi)))))"
proof (intro conjI allI impI)
  show "ri_List 0 r = Some (map (list_item (ri_TagIndex r)) (take 2048 (mi_nameIndex mi)))"
    using assms by (simp add: ri_List_def MAX_PER_PAGE_def list_loop_take)
  fix page :: nat assume "page > 0"
  let ?w = "int page * 2048"
  have "list_loop ?w (?w + 2048) ti 0 kvs = map (list_item ti) (take 2049 (drop (page * 2048 - 1) kvs))" for ti kvs
    using \<open>page > 0\<close> list_loop_drop [of 0 ?w "?w + 2048" ti kvs] list_loop_take [of ?w "?w - 1" "?w + 2048" ti]
    by (simp add: nat_diff_distrib nat_mult_distrib)
  then show "ri_List (int page) r =
      Some (map (list_item (ri_TagIndex r)) (take 2049 (drop (page * 2048 - 1) (mi_nameIndex mi))))"
    using assms by (simp add: ri_List_def MAX_PER_PAGE_def algebra_simps)
qed

theorem ram_list_pages_witness:
  "length (the (ri_List 1 (NewRamIndexer\<lparr>ri_MetricIndex :=
    Some (NewMetricIndex\<lparr>mi_nameIndex := replicate 3000 (''p'', ''u'')\<rparr>)\<rparr>))) = 953"
  using ram_list_pages [of "NewRamIndexer\<lparr>ri_MetricIndex := Some (NewMetricIndex\<lparr>mi_nameIndex := replicate 3000 (''p'', ''u'')\<rparr>)\<rparr>"
      "NewMetricIndex\<lparr>mi_nameIndex := replicate 3000 (''p'', ''u'')\<rparr>", THEN conjunct2, rule_format, of 1] by simp

end
