(* ===== verification/Dispatch.thy ===== *)
theory Dispatch
  imports Go_Prelude "HOL-Library.Multiset"
begin

text \<open>
  The queue of jobs with its workers (\<^verbatim>\<open>dispatch/dispatch.go\<close>) as a system of goroutines: one
  loop that dispatches and the workers. An event is one communication on a channel, or the end of the work on
  a job; \<open>dispatch_step\<close> is what an event does, and is \<open>None\<close> where the event has to wait. A buffered
  channel is a list with a length. Workers have numbers in the order they were started; a worker's
  number stands for its channel. The result of the retries with back off is left open: the work on
  a job succeeds or fails. A start (\<open>dispatch_Run\<close>) is a function on a state whose loop does not run:
  a start while an earlier loop still tells its workers to stop would give two loops at a time, which
  this state does not have. Whether a start or stop has an effect is in \<open>StartStop\<close>.
\<close>

section \<open>Starting and stopping once\<close>

text \<open>From \<^verbatim>\<open>utils/once.go\<close>; the function to run is one on the state of the caller.\<close>

record Once =
  once_done :: "32 word"

definition once_Do :: "Once \<Rightarrow> bool \<times> Once" where
  "once_Do o1 = (if once_done o1 = 1 then (False, o1) else if once_done o1 = 0 then (True, o1\<lparr>once_done := 1\<rparr>) else (False, o1))"

definition once_Reset :: "Once \<Rightarrow> Once" where
  "once_Reset o1 = o1\<lparr>once_done := 0\<rparr>"

record StartStop =
  start :: Once
  stop :: Once

definition ss_New :: StartStop where
  "ss_New = \<lparr>start = \<lparr>once_done = 0\<rparr>, stop = \<lparr>once_done = 0\<rparr>\<rparr>"

text \<open>Whether the given function runs, and the new state.\<close>

definition ss_Start :: "StartStop \<Rightarrow> bool \<times> StartStop" where
  "ss_Start o1 = (case once_Do (start o1) of (runs, st) \<Rightarrow>
     (runs, if runs then o1\<lparr>start := st, stop := once_Reset (stop o1)\<rparr> else o1\<lparr>start := st\<rparr>))"

definition ss_Stop :: "StartStop \<Rightarrow> bool \<times> StartStop" where
  "ss_Stop o1 = (case once_Do (stop o1) of (runs, st) \<Rightarrow>
     (runs, if runs then o1\<lparr>stop := st, start := once_Reset (start o1)\<rparr> else o1\<lparr>stop := st\<rparr>))"

section \<open>Workers and the loop\<close>

text \<open>Where a worker is: about to register its channel, in its select, at work, about to put a failed job back, or ended.\<close>

datatype 'j Worker = Registering | Waiting | Working 'j | Requeueing 'j | Stopped

text \<open>
  Where the loop is: in its select, with a job and waiting for a worker, sending the job to a worker,
  telling the workers to stop, or not running. A job may be nil.
\<close>

datatype 'j loop_state = Selecting | Holding "'j option" | Sending nat "'j option" | Stopping nat | Ended

text \<open>
  The workers are all those ever started; the last \<open>numworkers\<close> of them are the ones the dispatcher knows. The
  last two fields are a record of the jobs (not nil) that were added and that succeeded.
\<close>

record 'j Dispatch =
  numworkers :: nat
  queueLen :: nat
  jobQueue :: "'j option list"
  workPool :: "nat list"
  workers :: "'j Worker list"
  loop :: "'j loop_state"
  submitted :: "'j multiset"
  finished :: "'j multiset"

definition NewDispatchQueue :: "nat \<Rightarrow> nat \<Rightarrow> 'j Dispatch" where
  "NewDispatchQueue n maxQueueLength = \<lparr>numworkers = n, queueLen = maxQueueLength, jobQueue = [], workPool = [], workers = [],
     loop = Ended, submitted = {#}, finished = {#}\<rparr>"

fun job_mset :: "'j option \<Rightarrow> 'j multiset" where
  "job_mset None = {#}"
| "job_mset (Some j) = {#j#}"

text \<open>Sending to the queue: it waits while the buffer is full; without a buffer the loop has to receive.\<close>

definition offer :: "'j option \<Rightarrow> 'j Dispatch \<Rightarrow> 'j Dispatch option" where
  "offer j d =
     (if length (jobQueue d) < queueLen d then Some (d\<lparr>jobQueue := jobQueue d @ [j]\<rparr>)
      else if queueLen d = 0 \<and> loop d = Selecting then Some (d\<lparr>loop := Holding j\<rparr>)
      else None)"

definition first_worker :: "'j Dispatch \<Rightarrow> nat" where
  "first_worker d = length (workers d) - numworkers d"

text \<open>The start of the workers, and of the loop, when no loop runs.\<close>

definition dispatch_Run :: "'j Dispatch \<Rightarrow> 'j Dispatch" where
  "dispatch_Run d = d\<lparr>workers := workers d @ replicate (numworkers d) Registering, loop := Selecting\<rparr>"

section \<open>Events\<close>

datatype 'j event =
    Add "'j option" | Register nat | Take | Pick | Hand | Succeed nat | Fail nat | Requeue nat | Shutdown | Stop

definition worker_is :: "'j Dispatch \<Rightarrow> nat \<Rightarrow> 'j Worker \<Rightarrow> bool" where
  "worker_is d i w \<longleftrightarrow> i < length (workers d) \<and> workers d ! i = w"

fun dispatch_step :: "'j event \<Rightarrow> 'j Dispatch \<Rightarrow> 'j Dispatch option" where
  "dispatch_step (Add j) d =
     map_option (\<lambda>d1. d1\<lparr>submitted := submitted d1 + job_mset j\<rparr>) (offer j d)"
| "dispatch_step (Register i) d =
     (if worker_is d i Registering \<and> length (workPool d) < numworkers d
      then Some (d\<lparr>workPool := workPool d @ [i], workers := (workers d)[i := Waiting]\<rparr>) else None)"
| "dispatch_step Take d =
     (case (loop d, jobQueue d) of
        (Selecting, j # js) \<Rightarrow> Some (d\<lparr>loop := Holding j, jobQueue := js\<rparr>)
      | _ \<Rightarrow> None)"
| "dispatch_step Pick d =
     (case (loop d, workPool d) of
        (Holding j, i # pool) \<Rightarrow> Some (d\<lparr>loop := Sending i j, workPool := pool\<rparr>)
      | _ \<Rightarrow> None)"
| "dispatch_step Hand d =
     (case loop d of
        Sending i j \<Rightarrow>
          if worker_is d i Waiting
          then Some (d\<lparr>loop := Selecting, workers := (workers d)[i := (case j of Some k \<Rightarrow> Working k | None \<Rightarrow> Stopped)]\<rparr>)
          else None
      | _ \<Rightarrow> None)"
| "dispatch_step (Succeed i) d =
     (if i < length (workers d) then
        (case workers d ! i of
           Working j \<Rightarrow> Some (d\<lparr>workers := (workers d)[i := Registering], finished := add_mset j (finished d)\<rparr>)
         | _ \<Rightarrow> None)
      else None)"
| "dispatch_step (Fail i) d =
     (if i < length (workers d) then
        (case workers d ! i of Working j \<Rightarrow> Some (d\<lparr>workers := (workers d)[i := Requeueing j]\<rparr>) | _ \<Rightarrow> None)
      else None)"
| "dispatch_step (Requeue i) d =
     (if i < length (workers d) then
        (case workers d ! i of
           Requeueing j \<Rightarrow> map_option (\<lambda>d1. d1\<lparr>workers := (workers d1)[i := Registering]\<rparr>) (offer (Some j) d)
         | _ \<Rightarrow> None)
      else None)"
| "dispatch_step Shutdown d = (if loop d = Selecting then Some (d\<lparr>loop := Stopping (first_worker d)\<rparr>) else None)"
| "dispatch_step Stop d =
     (case loop d of
        Stopping i \<Rightarrow>
          if i \<ge> length (workers d) then Some (d\<lparr>loop := Ended\<rparr>)
          else if worker_is d i Waiting then Some (d\<lparr>loop := Stopping (Suc i), workers := (workers d)[i := Stopped]\<rparr>)
          else None
      | _ \<Rightarrow> None)"

fun dispatch_run :: "'j event list \<Rightarrow> 'j Dispatch \<Rightarrow> 'j Dispatch option" where
  "dispatch_run [] d = Some d"
| "dispatch_run (e # es) d = (case dispatch_step e d of None \<Rightarrow> None | Some d1 \<Rightarrow> dispatch_run es d1)"

definition dq_Len :: "'j Dispatch \<Rightarrow> nat" where
  "dq_Len d = length (jobQueue d)"

text \<open>Further starts, each when the loop has ended, and what happens after each of them.\<close>

fun dispatch_restarts :: "'j event list list \<Rightarrow> 'j Dispatch \<Rightarrow> 'j Dispatch option" where
  "dispatch_restarts [] d = Some d"
| "dispatch_restarts (es # ess) d =
     (if loop d = Ended then
        (case dispatch_run es (dispatch_Run d) of None \<Rightarrow> None | Some d1 \<Rightarrow> dispatch_restarts ess d1)
      else None)"

text \<open>The states of a dispatcher that was started once.\<close>

inductive running :: "nat \<Rightarrow> nat \<Rightarrow> 'j Dispatch \<Rightarrow> bool" for n q where
  started: "running n q (dispatch_Run (NewDispatchQueue n q))"
| stepped: "running n q d \<Longrightarrow> dispatch_step e d = Some d' \<Longrightarrow> running n q d'"

end
