(* ===== verification/Dispatch_Laws.thy ===== *)
theory Dispatch_Laws
  imports Dispatch
begin

text \<open>
  The queue of jobs: no job is lost or done twice, nobody waits for a worker in vain, and
  without failures every job gets done; where it stops for good.
\<close>

section \<open>Places of jobs\<close>

fun loop_jobs :: "'j loop_state \<Rightarrow> 'j multiset" where
  "loop_jobs (Holding j) = job_mset j"
| "loop_jobs (Sending i j) = job_mset j"
| "loop_jobs _ = {#}"

fun worker_jobs :: "'j Worker \<Rightarrow> 'j multiset" where
  "worker_jobs (Working j) = {#j#}"
| "worker_jobs (Requeueing j) = {#j#}"
| "worker_jobs _ = {#}"

definition queued :: "'j Dispatch \<Rightarrow> 'j multiset" where
  "queued d = sum_list (map job_mset (jobQueue d))"

definition at_work :: "'j Dispatch \<Rightarrow> 'j multiset" where
  "at_work d = sum_list (map worker_jobs (workers d))"

definition conserved :: "'j Dispatch \<Rightarrow> bool" where
  "conserved d \<longleftrightarrow> submitted d = queued d + loop_jobs (loop d) + at_work d + finished d"

lemma queued_submitted [simp]: "queued (d\<lparr>submitted := x\<rparr>) = queued d"
  by (simp add: queued_def)

lemma sum_list_change:
  fixes f :: "'a \<Rightarrow> 'b::cancel_comm_monoid_add"
  shows "i < length xs \<Longrightarrow> sum_list (map f (xs[i := v])) + f (xs ! i) = sum_list (map f xs) + f v"
proof (induction xs arbitrary: i)
  case (Cons x xs)
  then show ?case by (cases i) (simp_all add: algebra_simps)
qed simp

lemma at_work_update:
  "i < length (workers d) \<Longrightarrow> sum_list (map worker_jobs ((workers d)[i := w])) + worker_jobs (workers d ! i) = at_work d + worker_jobs w"
  by (simp add: at_work_def sum_list_change)

lemma offer_conserved: "offer j d = Some d' \<Longrightarrow> queued d' + loop_jobs (loop d') = queued d + loop_jobs (loop d) + job_mset j \<and>
    workers d' = workers d \<and> submitted d' = submitted d \<and> finished d' = finished d"
  by (auto simp: offer_def queued_def split: if_splits)

lemma conserved_step:
  assumes "conserved d" "dispatch_step e d = Some d'"
  shows "conserved d'"
proof (cases e)
  case (Add j)
  with assms show ?thesis by (auto simp: conserved_def at_work_def ac_simps dest!: offer_conserved)
next
  case (Register i)
  with assms at_work_update [of i d Waiting] show ?thesis
    by (auto simp: conserved_def at_work_def queued_def worker_is_def split: if_splits)
next
  case Take
  with assms show ?thesis
    by (auto simp: conserved_def at_work_def queued_def split: loop_state.splits list.splits)
next
  case Pick
  with assms show ?thesis
    by (auto simp: conserved_def at_work_def queued_def split: loop_state.splits list.splits)
next
  case Hand
  with assms(2) obtain i j where h: "loop d = Sending i j" "worker_is d i Waiting"
    "d' = d\<lparr>loop := Selecting, workers := (workers d)[i := (case j of Some k \<Rightarrow> Working k | None \<Rightarrow> Stopped)]\<rparr>"
    by (auto split: loop_state.splits if_splits)
  with assms(1) at_work_update [of i d "case j of Some k \<Rightarrow> Working k | None \<Rightarrow> Stopped"] show ?thesis
    by (cases j) (auto simp: conserved_def at_work_def queued_def worker_is_def)
next
  case (Succeed i)
  with assms(2) obtain j where h: "i < length (workers d)" "workers d ! i = Working j"
    "d' = d\<lparr>workers := (workers d)[i := Registering], finished := add_mset j (finished d)\<rparr>"
    by (auto split: Worker.splits if_splits)
  with assms(1) at_work_update [of i d Registering] show ?thesis
    by (auto simp: conserved_def at_work_def queued_def)
next
  case (Fail i)
  with assms(2) obtain j where h: "i < length (workers d)" "workers d ! i = Working j"
    "d' = d\<lparr>workers := (workers d)[i := Requeueing j]\<rparr>"
    by (auto split: Worker.splits if_splits)
  with assms(1) at_work_update [of i d "Requeueing j"] show ?thesis
    by (auto simp: conserved_def at_work_def queued_def)
next
  case (Requeue i)
  with assms(2) obtain j d1 where h: "i < length (workers d)" "workers d ! i = Requeueing j" "offer (Some j) d = Some d1"
    "d' = d1\<lparr>workers := (workers d1)[i := Registering]\<rparr>"
    by (auto split: Worker.splits if_splits)
  with assms(1) at_work_update [of i d Registering] offer_conserved [OF h(3)] show ?thesis
    by (auto simp: conserved_def at_work_def queued_def algebra_simps)
next
  case Shutdown
  with assms show ?thesis by (auto simp: conserved_def at_work_def queued_def split: if_splits)
next
  case Stop
  with assms(2) obtain i where i: "loop d = Stopping i" by (auto split: loop_state.splits)
  with Stop assms at_work_update [of i d Stopped] show ?thesis
    by (auto simp: conserved_def at_work_def queued_def worker_is_def split: if_splits)
qed

section \<open>The pool of workers\<close>

text \<open>How many of the \<open>n\<close> workers were told to stop, and the worker that is sent a job.\<close>

fun told :: "nat \<Rightarrow> 'j loop_state \<Rightarrow> nat" where
  "told n (Stopping k) = k"
| "told n Ended = n"
| "told n _ = 0"

fun sending :: "'j loop_state \<Rightarrow> nat set" where
  "sending (Sending i j) = {i}"
| "sending _ = {}"

definition pool_ok :: "nat \<Rightarrow> nat \<Rightarrow> 'j Dispatch \<Rightarrow> bool" where
  "pool_ok n q d \<longleftrightarrow> numworkers d = n \<and> queueLen d = q \<and> length (workers d) = n \<and> length (jobQueue d) \<le> q \<and>
     distinct (workPool d) \<and> set (workPool d) \<inter> sending (loop d) = {} \<and> told n (loop d) \<le> n \<and>
     set (workPool d) \<union> sending (loop d) = {i. i < n \<and> (workers d ! i = Waiting \<or> i < told n (loop d))} \<and>
     (\<forall>i < told n (loop d). workers d ! i = Stopped)"

lemma pool_ok_start: "pool_ok n q (dispatch_Run (NewDispatchQueue n q))"
  by (auto simp: dispatch_Run_def NewDispatchQueue_def pool_ok_def)

lemma pool_ok_offer:
  assumes "pool_ok n q d" "offer j d = Some d'"
  shows "pool_ok n q d'"
proof (cases "length (jobQueue d) < queueLen d")
  case True
  then have "d' = d\<lparr>jobQueue := jobQueue d @ [j]\<rparr>" using assms(2) by (simp add: offer_def)
  then show ?thesis using assms(1) True unfolding pool_ok_def by simp
next
  case False
  then have "loop d = Selecting" "d' = d\<lparr>loop := Holding j\<rparr>" using assms(2) by (auto simp: offer_def split: if_splits)
  then show ?thesis using assms(1) unfolding pool_ok_def by simp
qed

lemma pool_ok_worker:
  assumes "pool_ok n q d" "i < n" "workers d ! i \<noteq> Waiting" "workers d ! i \<noteq> Stopped" "w \<noteq> Waiting"
  shows "pool_ok n q (d\<lparr>workers := (workers d)[i := w]\<rparr>)"
proof -
  have "\<not> i < told n (loop d)" using assms(1,4) by (auto simp: pool_ok_def)
  then have "{k. k < n \<and> ((workers d)[i := w] ! k = Waiting \<or> k < told n (loop d))} =
      {k. k < n \<and> (workers d ! k = Waiting \<or> k < told n (loop d))}"
    using assms by (auto simp: pool_ok_def nth_list_update)
  moreover have "\<forall>k < told n (loop d). (workers d)[i := w] ! k = Stopped"
    using assms(1) \<open>\<not> i < told n (loop d)\<close> by (auto simp: pool_ok_def nth_list_update)
  ultimately show ?thesis using assms(1) by (simp add: pool_ok_def)
qed

lemma pool_ok_Register:
  assumes "pool_ok n q d" "worker_is d i Registering"
  shows "pool_ok n q (d\<lparr>workPool := workPool d @ [i], workers := (workers d)[i := Waiting]\<rparr>)" "length (workPool d) < n"
proof -
  have i: "i < n" "workers d ! i = Registering" "\<not> i < told n (loop d)"
    using assms by (auto simp: pool_ok_def worker_is_def)
  have "i \<notin> set (workPool d) \<union> sending (loop d)" using assms(1) i unfolding pool_ok_def by simp
  then have out: "i \<notin> set (workPool d)" "i \<notin> sending (loop d)" by auto
  have "{k. k < n \<and> ((workers d)[i := Waiting] ! k = Waiting \<or> k < told n (loop d))} =
      insert i {k. k < n \<and> (workers d ! k = Waiting \<or> k < told n (loop d))}"
    using i assms(1) by (auto simp: pool_ok_def nth_list_update)
  moreover have "\<forall>k < told n (loop d). (workers d)[i := Waiting] ! k = Stopped"
    using assms(1) i(3) by (auto simp: pool_ok_def nth_list_update)
  ultimately show "pool_ok n q (d\<lparr>workPool := workPool d @ [i], workers := (workers d)[i := Waiting]\<rparr>)"
    using assms(1) out unfolding pool_ok_def by simp
  have "set (workPool d) \<subseteq> {..<n} - {i}" using assms(1) out unfolding pool_ok_def by auto
  from card_mono [OF _ this] show "length (workPool d) < n"
    using assms(1) i(1) by (simp add: pool_ok_def distinct_card)
qed

lemma pool_ok_Hand:
  assumes "pool_ok n q d" "loop d = Sending i j" "w \<noteq> Waiting"
  shows "pool_ok n q (d\<lparr>loop := Selecting, workers := (workers d)[i := w]\<rparr>)" "worker_is d i Waiting"
proof -
  have all: "set (workPool d) \<union> {i} = {k. k < n \<and> workers d ! k = Waiting}" "i \<notin> set (workPool d)" "length (workers d) = n"
    using assms(1,2) by (simp_all add: pool_ok_def)
  then show w: "worker_is d i Waiting" by (auto simp: worker_is_def)
  have "{k. k < n \<and> (workers d)[i := w] ! k = Waiting} = {k. k < n \<and> workers d ! k = Waiting} - {i}"
    using all(3) assms(3) w by (auto simp: nth_list_update worker_is_def split: if_splits)
  also have "\<dots> = set (workPool d)" unfolding all(1) [symmetric] using all(2) by simp
  finally show "pool_ok n q (d\<lparr>loop := Selecting, workers := (workers d)[i := w]\<rparr>)"
    using assms(1) by (simp add: pool_ok_def)
qed

lemma pool_ok_Stop:
  assumes "pool_ok n q d" "loop d = Stopping k" "worker_is d k Waiting"
  shows "pool_ok n q (d\<lparr>loop := Stopping (Suc k), workers := (workers d)[k := Stopped]\<rparr>)"
proof -
  have d: "k < n" "length (workers d) = n" "workers d ! k = Waiting" using assms by (auto simp: pool_ok_def worker_is_def)
  have "{i. i < n \<and> ((workers d)[k := Stopped] ! i = Waiting \<or> i < Suc k)} = {i. i < n \<and> (workers d ! i = Waiting \<or> i < k)}"
    using d by (auto simp: nth_list_update less_Suc_eq)
  moreover have "\<forall>i < Suc k. (workers d)[k := Stopped] ! i = Stopped"
    using assms(1,2) d by (auto simp: pool_ok_def nth_list_update less_Suc_eq)
  ultimately show ?thesis using assms(1,2) d(1) by (simp add: pool_ok_def)
qed

lemma pool_ok_step:
  assumes "pool_ok n q d" "dispatch_step e d = Some d'"
  shows "pool_ok n q d'"
proof (cases e)
  case (Add j)
  with assms(2) obtain d1 where "offer j d = Some d1" "d' = d1\<lparr>submitted := submitted d1 + job_mset j\<rparr>" by auto
  with pool_ok_offer [OF assms(1)] show ?thesis by (simp add: pool_ok_def)
next
  case (Register i)
  with assms(2) pool_ok_Register(1) [OF assms(1)] show ?thesis by (auto split: if_splits)
next
  case Take
  with assms(2) obtain j js where "loop d = Selecting" "jobQueue d = j # js" "d' = d\<lparr>loop := Holding j, jobQueue := js\<rparr>"
    by (auto split: loop_state.splits list.splits)
  with assms(1) show ?thesis unfolding pool_ok_def by simp
next
  case Pick
  with assms(2) obtain j i pool where "loop d = Holding j" "workPool d = i # pool" "d' = d\<lparr>loop := Sending i j, workPool := pool\<rparr>"
    by (auto split: loop_state.splits list.splits)
  with assms(1) show ?thesis by (auto simp: pool_ok_def)
next
  case Hand
  with assms(2) obtain i j where h: "loop d = Sending i j"
    "d' = d\<lparr>loop := Selecting, workers := (workers d)[i := (case j of Some k \<Rightarrow> Working k | None \<Rightarrow> Stopped)]\<rparr>"
    by (auto split: loop_state.splits if_splits)
  show ?thesis unfolding h(2) by (rule pool_ok_Hand(1) [OF assms(1) h(1)]) (simp split: option.split)
next
  case (Succeed i)
  with assms(2) obtain j where h: "i < length (workers d)" "workers d ! i = Working j"
    "d' = (d\<lparr>workers := (workers d)[i := Registering]\<rparr>)\<lparr>finished := add_mset j (finished d)\<rparr>"
    by (auto split: Worker.splits if_splits)
  from pool_ok_worker [OF assms(1), of i Registering] h(1,2) assms(1) show ?thesis by (simp add: h(3) pool_ok_def)
next
  case (Fail i)
  with assms(2) obtain j where h: "i < length (workers d)" "workers d ! i = Working j"
    "d' = d\<lparr>workers := (workers d)[i := Requeueing j]\<rparr>"
    by (auto split: Worker.splits if_splits)
  from pool_ok_worker [OF assms(1), of i "Requeueing j"] h(1,2) assms(1) show ?thesis by (simp add: h(3) pool_ok_def)
next
  case (Requeue i)
  with assms(2) obtain j d1 where h: "i < length (workers d)" "workers d ! i = Requeueing j" "offer (Some j) d = Some d1"
    "d' = d1\<lparr>workers := (workers d1)[i := Registering]\<rparr>"
    by (auto split: Worker.splits if_splits)
  have "workers d1 = workers d" using offer_conserved [OF h(3)] by simp
  with pool_ok_worker [OF pool_ok_offer [OF assms(1) h(3)], of i Registering] h(1,2) assms(1) show ?thesis
    by (simp add: h(4) pool_ok_def)
next
  case Shutdown
  with assms have "loop d = Selecting" "d' = d\<lparr>loop := Stopping 0\<rparr>"
    by (auto simp: pool_ok_def first_worker_def split: if_splits)
  with assms(1) show ?thesis unfolding pool_ok_def by simp
next
  case Stop
  with assms(2) obtain k where k: "loop d = Stopping k" by (auto split: loop_state.splits)
  show ?thesis
  proof (cases "k \<ge> length (workers d)")
    case True
    with Stop k assms(1,2) have "d' = d\<lparr>loop := Ended\<rparr>" "k = n" by (auto simp: pool_ok_def)
    with assms(1) k show ?thesis by (simp add: pool_ok_def)
  qed (use Stop k assms pool_ok_Stop [OF assms(1) k] in \<open>auto split: if_splits\<close>)
qed

lemma conserved_start: "conserved (dispatch_Run (NewDispatchQueue n q))"
  by (induction n) (simp_all add: conserved_def dispatch_Run_def NewDispatchQueue_def queued_def at_work_def)

lemma running_ok: "running n q d \<Longrightarrow> pool_ok n q d \<and> conserved d"
proof (induction rule: running.induct)
  case started
  then show ?case using pool_ok_start conserved_start by blast
next
  case (stepped d e d')
  then show ?case using pool_ok_step conserved_step by blast
qed

lemma running_run: "running n q d \<Longrightarrow> dispatch_run es d = Some d' \<Longrightarrow> running n q d'"
proof (induction es arbitrary: d)
  case (Cons e es)
  then obtain d1 where d1: "dispatch_step e d = Some d1" "dispatch_run es d1 = Some d'" by (auto split: option.splits)
  then show ?case using Cons.IH [OF stepped [OF Cons.prems(1)]] by blast
qed simp

text \<open>The state right after the start.\<close>

definition start_of :: "nat \<Rightarrow> nat \<Rightarrow> 'j Dispatch" where
  "start_of n q = (NewDispatchQueue n q)\<lparr>workers := replicate n Registering, loop := Selecting\<rparr>"

lemma running_start: "running n q (start_of n q)"
  using started [of n q] by (simp add: start_of_def dispatch_Run_def NewDispatchQueue_def)

text \<open>
  C37. In every state of a dispatcher that was started once, whatever jobs fail, each job added is
  in exactly one place: in the queue, in the hands of the loop, with a worker, or finished; the
  queue keeps to its length; and neither a worker that registers nor the loop that hands out a job has to wait.
\<close>

theorem dispatch_conserves:
  assumes "running n q d"
  shows "submitted d = queued d + loop_jobs (loop d) + at_work d + finished d \<and> length (jobQueue d) \<le> q \<and>
    (\<forall>i. worker_is d i Registering \<longrightarrow> dispatch_step (Register i) d \<noteq> None) \<and>
    (\<forall>i j. loop d = Sending i j \<longrightarrow> dispatch_step Hand d \<noteq> None)"
proof -
  have ok: "pool_ok n q d" "conserved d" using running_ok [OF assms] by auto
  have "dispatch_step (Register i) d \<noteq> None" if "worker_is d i Registering" for i
    using pool_ok_Register(2) [OF ok(1) that] that ok(1) by (simp add: pool_ok_def)
  moreover have "dispatch_step Hand d \<noteq> None" if "loop d = Sending i j" for i j
    using pool_ok_Hand(2) [OF ok(1) that, of Stopped] that by simp
  ultimately show ?thesis using ok by (auto simp: conserved_def pool_ok_def)
qed

theorem dispatch_conserves_witness:
  "\<exists>d. dispatch_run [Add (Some 7), Add (Some 8), Register 0, Take, Pick, Hand, Fail 0] (start_of 1 2) = Some d \<and>
    submitted d = {#(7::nat), 8#} \<and> submitted d = queued d + loop_jobs (loop d) + at_work d + finished d"
proof -
  obtain d where d: "dispatch_run [Add (Some 7), Add (Some 8), Register 0, Take, Pick, Hand, Fail 0] (start_of 1 2) = Some d"
    "submitted d = {#(7::nat), 8#}"
    by (auto simp: start_of_def NewDispatchQueue_def offer_def worker_is_def)
  have "running 1 2 d" by (rule running_run [OF running_start d(1)])
  then show ?thesis using d dispatch_conserves [of 1 2 d] by blast
qed

section \<open>Progress\<close>

text \<open>The steps that are left for the jobs, when none fails.\<close>

fun loop_work :: "'j loop_state \<Rightarrow> nat" where
  "loop_work (Holding j) = 4"
| "loop_work (Sending i j) = 3"
| "loop_work _ = 0"

fun worker_work :: "'j Worker \<Rightarrow> nat" where
  "worker_work Registering = 1"
| "worker_work (Working j) = 2"
| "worker_work _ = 0"

definition work_left :: "'j Dispatch \<Rightarrow> nat" where
  "work_left d = 5 * length (jobQueue d) + loop_work (loop d) + sum_list (map worker_work (workers d))"

fun at_ease :: "'j Worker \<Rightarrow> bool" where
  "at_ease (Requeueing j) \<longleftrightarrow> False"
| "at_ease Stopped \<longleftrightarrow> False"
| "at_ease _ \<longleftrightarrow> True"

fun carries_on :: "'j loop_state \<Rightarrow> bool" where
  "carries_on (Holding j) \<longleftrightarrow> j \<noteq> None"
| "carries_on (Sending i j) \<longleftrightarrow> j \<noteq> None"
| "carries_on Selecting \<longleftrightarrow> True"
| "carries_on _ \<longleftrightarrow> False"

text \<open>No job failed or is nil, and nobody was told to stop.\<close>

definition smooth :: "'j Dispatch \<Rightarrow> bool" where
  "smooth d \<longleftrightarrow> None \<notin> set (jobQueue d) \<and> carries_on (loop d) \<and> list_all at_ease (workers d)"

fun internal :: "'j event \<Rightarrow> bool" where
  "internal (Register i) \<longleftrightarrow> True"
| "internal Take \<longleftrightarrow> True"
| "internal Pick \<longleftrightarrow> True"
| "internal Hand \<longleftrightarrow> True"
| "internal (Succeed i) \<longleftrightarrow> True"
| "internal _ \<longleftrightarrow> False"

lemma worker_work_update:
  "i < length ws \<Longrightarrow> sum_list (map worker_work (ws[i := w])) + worker_work (ws ! i) = sum_list (map worker_work ws) + worker_work w"
  by (rule sum_list_change)

lemma at_ease_update: "list_all at_ease ws \<Longrightarrow> at_ease v \<Longrightarrow> list_all at_ease (ws[i := v])"
  using set_update_subset_insert [of ws i v] by (auto simp: list_all_iff)

lemma internal_step:
  assumes "smooth d" "internal e" "dispatch_step e d = Some d'"
  shows "smooth d' \<and> Suc (work_left d') = work_left d \<and> submitted d' = submitted d"
proof -
  have ease: "list_all at_ease ((workers d)[i := w])" if "at_ease w" for i w
    using at_ease_update [of "workers d" w i] assms(1) that by (simp add: smooth_def)
  show ?thesis
  proof (cases e)
    case (Register i)
    with assms(3) have "worker_is d i Registering" "d' = d\<lparr>workPool := workPool d @ [i], workers := (workers d)[i := Waiting]\<rparr>"
      by (auto split: if_splits)
    with assms(1) worker_work_update [of i "workers d" Waiting] show ?thesis
      by (simp add: smooth_def work_left_def worker_is_def ease)
  next
    case Take
    with assms(3) obtain j js where "loop d = Selecting" "jobQueue d = j # js" "d' = d\<lparr>loop := Holding j, jobQueue := js\<rparr>"
      by (auto split: loop_state.splits list.splits)
    with assms(1) show ?thesis by (cases j) (auto simp: smooth_def work_left_def)
  next
    case Pick
    with assms(3) obtain j i pool where "loop d = Holding j" "d' = d\<lparr>loop := Sending i j, workPool := pool\<rparr>"
      by (auto split: loop_state.splits list.splits)
    with assms(1) show ?thesis by (simp add: smooth_def work_left_def)
  next
    case Hand
    with assms(1,3) obtain i j where "loop d = Sending i (Some j)" "worker_is d i Waiting"
      "d' = d\<lparr>loop := Selecting, workers := (workers d)[i := Working j]\<rparr>"
      by (auto simp: smooth_def split: loop_state.splits if_splits)
    with assms(1) worker_work_update [of i "workers d" "Working j"] show ?thesis
      by (simp add: smooth_def work_left_def worker_is_def ease)
  next
    case (Succeed i)
    with assms(3) obtain j where "i < length (workers d)" "workers d ! i = Working j"
      "d' = d\<lparr>workers := (workers d)[i := Registering], finished := add_mset j (finished d)\<rparr>"
      by (auto split: Worker.splits if_splits)
    with assms(1) worker_work_update [of i "workers d" Registering] show ?thesis
      by (simp add: smooth_def work_left_def ease)
  qed (use assms(2) in simp_all)
qed

lemma internal_run:
  "smooth d \<Longrightarrow> \<forall>e \<in> set es. internal e \<Longrightarrow> dispatch_run es d = Some d' \<Longrightarrow>
    smooth d' \<and> length es + work_left d' = work_left d \<and> submitted d' = submitted d"
proof (induction es arbitrary: d)
  case (Cons e es)
  then obtain d1 where d1: "dispatch_step e d = Some d1" "dispatch_run es d1 = Some d'" by (auto split: option.splits)
  have "smooth d1 \<and> Suc (work_left d1) = work_left d \<and> submitted d1 = submitted d"
    using internal_step [OF Cons.prems(1) _ d1(1)] Cons.prems(2) by simp
  then show ?case using Cons.IH [of d1] Cons.prems(2) d1(2) by simp
qed simp

lemma progress:
  assumes "pool_ok n q d" "smooth d" "0 < n" "\<forall>e. internal e \<longrightarrow> dispatch_step e d = None"
  shows "jobQueue d = [] \<and> loop d = Selecting \<and> (\<forall>w \<in> set (workers d). w = Waiting)"
proof -
  have n: "length (workers d) = n" using assms(1) by (simp add: pool_ok_def)
  have stuck: "dispatch_step e d = None" if "internal e" for e using assms(4) that by blast
  have w: "workers d ! i = Waiting" if "i < n" for i
  proof (cases "workers d ! i")
    case Registering
    then have "worker_is d i Registering" using that n by (simp add: worker_is_def)
    then have "dispatch_step (Register i) d \<noteq> None" using pool_ok_Register(2) [OF assms(1)] assms(1) by (simp add: pool_ok_def)
    then show ?thesis using stuck [of "Register i"] by (simp del: dispatch_step.simps)
  next
    case (Working j)
    then have "dispatch_step (Succeed i) d \<noteq> None" using that n by simp
    then show ?thesis using stuck [of "Succeed i"] by (simp del: dispatch_step.simps)
  qed (use assms(2) that n in \<open>auto simp: smooth_def list_all_length\<close>)
  have "loop d = Selecting"
  proof (cases "loop d")
    case (Holding j)
    then have "set (workPool d) = {i. i < n \<and> workers d ! i = Waiting}" using assms(1) by (simp add: pool_ok_def)
    then have "0 \<in> set (workPool d)" using w assms(3) by simp
    then have "dispatch_step Pick d \<noteq> None" using Holding by (cases "workPool d") simp_all
    then show ?thesis using stuck [of Pick] by (simp del: dispatch_step.simps)
  next
    case (Sending i j)
    then have "dispatch_step Hand d \<noteq> None" using pool_ok_Hand(2) [OF assms(1) Sending, of Stopped] by simp
    then show ?thesis using stuck [of Hand] by (simp del: dispatch_step.simps)
  qed (use assms(2) in \<open>simp_all add: smooth_def\<close>)
  moreover have "dispatch_step Take d = None" by (rule stuck) simp
  ultimately have "jobQueue d = []" by (cases "jobQueue d") simp_all
  moreover have "\<forall>w \<in> set (workers d). w = Waiting" using w n by (auto simp: in_set_conv_nth)
  ultimately show ?thesis using \<open>loop d = Selecting\<close> by blast
qed

lemma idle_finished:
  assumes "conserved d" "jobQueue d = []" "loop d = Selecting" "\<forall>w \<in> set (workers d). w = Waiting"
  shows "finished d = submitted d"
proof -
  have "map worker_jobs (workers d) = map (\<lambda>_. {#}) (workers d)" using assms(4) by auto
  then have "at_work d = {#}" by (simp add: at_work_def del: map_eq_conv)
  then show ?thesis using assms(1-3) by (simp add: conserved_def queued_def)
qed

lemma drains:
  assumes "running n q d" "smooth d" "0 < n"
  shows "\<exists>es d'. (\<forall>e \<in> set es. internal e) \<and> dispatch_run es d = Some d' \<and> finished d' = submitted d"
  using assms
proof (induction "work_left d" arbitrary: d rule: less_induct)
  case less
  show ?case
  proof (cases "\<forall>e. internal e \<longrightarrow> dispatch_step e d = None")
    case True
    have ok: "pool_ok n q d" "conserved d" using running_ok [OF less.prems(1)] by auto
    have "finished d = submitted d" using idle_finished [OF ok(2)] progress [OF ok(1) less.prems(2,3) True] by blast
    then show ?thesis by (intro exI [of _ "[]"] exI [of _ d]) simp
  next
    case False
    then obtain e d1 where e: "internal e" "dispatch_step e d = Some d1" by auto
    from internal_step [OF less.prems(2) e] stepped [OF less.prems(1) e(2)]
    obtain es d' where "\<forall>e \<in> set es. internal e" "dispatch_run es d1 = Some d'" "finished d' = submitted d1" "submitted d1 = submitted d"
      using less.hyps [of d1] less.prems(3) by auto
    then show ?thesis using e by (intro exI [of _ "e # es"] exI [of _ d']) simp
  qed
qed

text \<open>
  C38. As long as no job fails and nobody stops the dispatcher, the work gets done: from any state of a running dispatcher with workers and
  without failed jobs, the goroutines can take only a bounded number of steps on their own; they
  never get stuck before every job that was added has succeeded; and they can get there.
\<close>

theorem dispatch_drains:
  assumes "running n q d" "smooth d" "0 < n"
    and "\<forall>e \<in> set es. internal e" "dispatch_run es d = Some d'"
  shows "length es \<le> work_left d \<and>
    ((\<forall>e. internal e \<longrightarrow> dispatch_step e d' = None) \<longrightarrow> finished d' = submitted d) \<and>
    (\<exists>es' d''. (\<forall>e \<in> set es'. internal e) \<and> dispatch_run es' d' = Some d'' \<and> finished d'' = submitted d)"
proof -
  have r: "smooth d'" "length es + work_left d' = work_left d" "submitted d' = submitted d"
    using internal_run [OF assms(2,4,5)] by auto
  have run: "running n q d'" by (rule running_run [OF assms(1,5)])
  then have ok: "pool_ok n q d'" "conserved d'" using running_ok by auto
  have "finished d' = submitted d" if "\<forall>e. internal e \<longrightarrow> dispatch_step e d' = None"
    using idle_finished [OF ok(2)] progress [OF ok(1) r(1) assms(3) that] r(3) by simp
  moreover have "\<exists>es' d''. (\<forall>e \<in> set es'. internal e) \<and> dispatch_run es' d' = Some d'' \<and> finished d'' = submitted d"
    using drains [OF run r(1) assms(3)] r(3) by simp
  ultimately show ?thesis using r(2) by simp
qed

theorem dispatch_drains_witness:
  "\<exists>d es d'. running 1 1 d \<and> submitted d = {#(7::nat)#} \<and> dispatch_run es d = Some d' \<and> finished d' = {#7#}"
proof -
  let ?d = "(start_of 1 1)\<lparr>jobQueue := [Some 7], submitted := {#(7::nat)#}\<rparr>"
  have d: "dispatch_run [Add (Some 7)] (start_of 1 1) = Some ?d" by (simp add: start_of_def NewDispatchQueue_def offer_def)
  have run: "running 1 1 ?d" by (rule running_run [OF running_start d])
  have "smooth ?d" by (simp add: smooth_def start_of_def NewDispatchQueue_def)
  from dispatch_drains [OF run this, of "[]" ?d] obtain es d' where "dispatch_run es ?d = Some d'" "finished d' = {#7#}" by auto
  then show ?thesis using run by (intro exI [of _ ?d] exI [of _ es] exI [of _ d']) simp
qed

section \<open>Where it stops for good\<close>

lemma replicate_update:
  "k < n \<Longrightarrow> (replicate k a @ replicate (n - k) b)[k := a] = replicate (Suc k) a @ replicate (n - Suc k) b"
  by (intro nth_equalityI) (auto simp: nth_append nth_list_update less_Suc_eq simp del: replicate_Suc)

text \<open>
  All workers at work, then the loop with a job in its hands, then the queue full, then all jobs failed.
\<close>

definition crowd :: "nat \<Rightarrow> nat \<Rightarrow> 'j \<Rightarrow> 'j Worker list \<Rightarrow> 'j loop_state \<Rightarrow> nat \<Rightarrow> nat \<Rightarrow> 'j Dispatch" where
  "crowd n q j ws l m k = \<lparr>numworkers = n, queueLen = q, jobQueue = replicate m (Some j), workPool = [], workers = ws,
     loop = l, submitted = replicate_mset k j, finished = {#}\<rparr>"

lemma crowd_busy:
  assumes "0 < q" "k \<le> n"
  shows "running n q (crowd n q j (replicate k (Working j) @ replicate (n - k) Registering) Selecting 0 k)"
  using assms(2)
proof (induction k)
  case 0
  then show ?case using running_start [of n q] by (simp add: crowd_def start_of_def NewDispatchQueue_def)
next
  case (Suc k)
  have step: "dispatch_run [Register k, Add (Some j), Take, Pick, Hand]
      (crowd n q j (replicate k (Working j) @ replicate (n - k) Registering) Selecting 0 k) =
    Some (crowd n q j (replicate (Suc k) (Working j) @ replicate (n - Suc k) Registering) Selecting 0 (Suc k))"
    using Suc.prems assms(1) replicate_update [of k n "Working j" Registering]
    by (simp add: crowd_def worker_is_def offer_def nth_append)
  show ?case by (rule running_run [OF Suc.IH step]) (use Suc.prems in simp_all)
qed

lemma crowd_full:
  assumes "0 < q" "m \<le> q"
  shows "running n q (crowd n q j (replicate n (Working j)) (Holding (Some j)) m (Suc (n + m)))"
  using assms(2)
proof (induction m)
  case 0
  have step: "dispatch_run [Add (Some j), Take] (crowd n q j (replicate n (Working j)) Selecting 0 n) =
      Some (crowd n q j (replicate n (Working j)) (Holding (Some j)) 0 (Suc n))"
    using assms(1) by (simp add: crowd_def offer_def)
  have "running n q (crowd n q j (replicate n (Working j)) Selecting 0 n)" using crowd_busy [OF assms(1) order_refl, of n j] by simp
  from running_run [OF this step] show ?case by simp
next
  case (Suc m)
  have step: "dispatch_run [Add (Some j)] (crowd n q j (replicate n (Working j)) (Holding (Some j)) m (Suc (n + m))) =
      Some (crowd n q j (replicate n (Working j)) (Holding (Some j)) (Suc m) (Suc (n + Suc m)))"
    using Suc.prems by (simp add: crowd_def offer_def replicate_append_same)
  show ?case by (rule running_run [OF Suc.IH step]) (use Suc.prems in simp_all)
qed

lemma crowd_failed:
  assumes "0 < q" "k \<le> n"
  shows "running n q (crowd n q j (replicate k (Requeueing j) @ replicate (n - k) (Working j)) (Holding (Some j)) q (Suc (n + q)))"
  using assms(2)
proof (induction k)
  case 0
  then show ?case using crowd_full [OF assms(1) order_refl, of n j] by simp
next
  case (Suc k)
  have step: "dispatch_run [Fail k] (crowd n q j (replicate k (Requeueing j) @ replicate (n - k) (Working j)) (Holding (Some j)) q (Suc (n + q))) =
      Some (crowd n q j (replicate (Suc k) (Requeueing j) @ replicate (n - Suc k) (Working j)) (Holding (Some j)) q (Suc (n + q)))"
    using Suc.prems replicate_update [of k n "Requeueing j" "Working j"] by (simp add: crowd_def nth_append)
  show ?case by (rule running_run [OF Suc.IH step]) (use Suc.prems in simp_all)
qed

text \<open>
  C39. However many workers there are and however long the queue is, failing jobs can bring the dispatcher to a
  standstill: when all workers want to put their jobs back, the queue is full, and the loop waits for a
  worker, no event is possible any more, not even the shutdown, though no job has succeeded.
\<close>

theorem dispatch_deadlock:
  assumes "0 < n" "0 < q"
  shows "\<exists>d. running n q d \<and> finished d = {#} \<and> submitted d = replicate_mset (Suc (n + q)) j \<and> (\<forall>e. dispatch_step e d = None)"
proof (intro exI conjI allI)
  let ?d = "crowd n q j (replicate n (Requeueing j)) (Holding (Some j)) q (Suc (n + q))"
  show "running n q ?d" using crowd_failed [OF assms(2) order_refl, of n j] by simp
  show "finished ?d = {#}" "submitted ?d = replicate_mset (Suc (n + q)) j" by (simp_all add: crowd_def)
  show "dispatch_step e ?d = None" for e
    using assms by (cases e) (auto simp: crowd_def offer_def worker_is_def)
qed

theorem dispatch_deadlock_witness:
  "\<exists>d. running 2 3 d \<and> finished d = {#} \<and> submitted d = replicate_mset 6 (7::nat) \<and> dispatch_step Shutdown d = None"
  using dispatch_deadlock [of 2 3 "7::nat"] by (auto simp del: dispatch_step.simps)

section \<open>A second start\<close>

text \<open>The channels of the workers of the first run stay in the pool, and nobody reads them.\<close>

definition dead :: "nat \<Rightarrow> 'j Dispatch \<Rightarrow> bool" where
  "dead n d \<longleftrightarrow> numworkers d = n \<and> n \<le> length (workers d) \<and> (\<forall>i < n. workers d ! i = Stopped) \<and>
     list_all (\<lambda>w. worker_jobs w = {#}) (workers d) \<and>
     (case loop d of
        Sending i j \<Rightarrow> i < n
      | _ \<Rightarrow> set (workPool d) \<subseteq> {..<n} \<and> length (workPool d) = n \<and> Waiting \<notin> set (workers d))"

lemma dead_Register:
  assumes "dead n d" "dispatch_step (Register i) d = Some d'"
  shows "dead n d'"
proof -
  have r: "worker_is d i Registering" "length (workPool d) < n"
    "d' = d\<lparr>workPool := workPool d @ [i], workers := (workers d)[i := Waiting]\<rparr>"
    using assms by (auto simp: dead_def split: if_splits)
  then obtain k j where l: "loop d = Sending k j" using assms(1) by (auto simp: dead_def split: loop_state.splits)
  have "\<not> i < n" using assms(1) r(1) by (auto simp: dead_def worker_is_def)
  then have "\<forall>k < n. (workers d)[i := Waiting] ! k = Stopped" using assms(1) by (simp add: dead_def)
  moreover have "list_all (\<lambda>w. worker_jobs w = {#}) ((workers d)[i := Waiting])"
    using assms(1) set_update_subset_insert [of "workers d" i Waiting] by (auto simp: dead_def list_all_iff)
  ultimately show ?thesis using assms(1) l by (simp add: dead_def r(3))
qed

lemma dead_offer: "dead n d \<Longrightarrow> offer j d = Some d' \<Longrightarrow> dead n d'"
  by (auto simp: dead_def offer_def split: if_splits loop_state.splits)

lemma dead_jobless: "dead n d \<Longrightarrow> i < length (workers d) \<Longrightarrow> worker_jobs (workers d ! i) = {#}"
  by (simp add: dead_def list_all_length)

lemma dead_step:
  assumes "dead n d" "dispatch_step e d = Some d'"
  shows "dead n d' \<and> finished d' = finished d"
proof (cases e)
  case (Add j)
  with assms(2) obtain d1 where "offer j d = Some d1" "d' = d1\<lparr>submitted := submitted d1 + job_mset j\<rparr>" by auto
  with dead_offer [OF assms(1)] offer_conserved show ?thesis by (fastforce simp: dead_def split: loop_state.splits)
next
  case (Register i)
  with assms dead_Register [of n d i d'] show ?thesis by (auto split: if_splits)
next
  case Take
  with assms(2) obtain j js where "loop d = Selecting" "d' = d\<lparr>loop := Holding j, jobQueue := js\<rparr>"
    by (auto split: loop_state.splits list.splits)
  with assms(1) show ?thesis by (simp add: dead_def)
next
  case Pick
  with assms(2) obtain j i pool where "loop d = Holding j" "workPool d = i # pool" "d' = d\<lparr>loop := Sending i j, workPool := pool\<rparr>"
    by (auto split: loop_state.splits list.splits)
  with assms(1) show ?thesis by (simp add: dead_def)
next
  case Hand
  with assms show ?thesis by (auto simp: dead_def worker_is_def split: loop_state.splits if_splits)
next
  case (Succeed i)
  with assms dead_jobless [OF assms(1), of i] show ?thesis by (auto split: if_splits Worker.splits)
next
  case (Fail i)
  with assms dead_jobless [OF assms(1), of i] show ?thesis by (auto split: if_splits Worker.splits)
next
  case (Requeue i)
  with assms dead_jobless [OF assms(1), of i] show ?thesis by (auto split: if_splits Worker.splits)
next
  case Shutdown
  with assms have "loop d = Selecting" "d' = d\<lparr>loop := Stopping (first_worker d)\<rparr>" by (auto split: if_splits)
  with assms(1) show ?thesis by (simp add: dead_def)
next
  case Stop
  with assms(2) obtain k where k: "loop d = Stopping k" by (auto split: loop_state.splits)
  with assms(1) have "Waiting \<notin> set (workers d)" by (simp add: dead_def)
  then have "\<not> worker_is d k Waiting" unfolding worker_is_def by (metis nth_mem)
  with Stop k assms(2) have "d' = d\<lparr>loop := Ended\<rparr>"
    by (auto split: if_splits)
  with assms(1) k show ?thesis by (simp add: dead_def)
qed

lemma dead_run: "dead n d \<Longrightarrow> dispatch_run es d = Some d' \<Longrightarrow> dead n d' \<and> finished d' = finished d"
proof (induction es arbitrary: d)
  case (Cons e es)
  then obtain d1 where d1: "dispatch_step e d = Some d1" "dispatch_run es d1 = Some d'" by (auto split: option.splits)
  then show ?case using dead_step [OF Cons.prems(1) d1(1)] Cons.IH [of d1] by simp
qed simp

lemma ended_dead:
  assumes "pool_ok n q d" "loop d = Ended"
  shows "dead n d"
proof -
  have s: "set (workPool d) = {..<n}" "\<forall>i < n. workers d ! i = Stopped" "distinct (workPool d)" "length (workers d) = n"
    using assms by (auto simp: pool_ok_def)
  then have "length (workPool d) = n" using distinct_card [OF s(3)] by simp
  moreover have "\<forall>w \<in> set (workers d). w = Stopped" using s(2,4) by (auto simp: in_set_conv_nth)
  ultimately show ?thesis using s assms by (auto simp: dead_def pool_ok_def list_all_iff)
qed

lemma dead_Run: "dead n d \<Longrightarrow> loop d = Ended \<Longrightarrow> dead n (dispatch_Run d)"
  by (auto simp: dead_def dispatch_Run_def nth_append list_all_iff)

lemma dead_restarts: "dead n d \<Longrightarrow> dispatch_restarts ess d = Some d' \<Longrightarrow> finished d' = finished d"
proof (induction ess arbitrary: d)
  case (Cons es ess)
  then obtain d1 where d1: "loop d = Ended" "dispatch_run es (dispatch_Run d) = Some d1" "dispatch_restarts ess d1 = Some d'"
    by (auto split: if_splits option.splits)
  have "finished (dispatch_Run d) = finished d" by (simp add: dispatch_Run_def)
  then show ?case using dead_run [OF dead_Run [OF Cons.prems(1) d1(1)] d1(2)] Cons.IH [OF _ d1(3)] by simp
qed simp

text \<open>
  C40. A dispatcher that has been stopped completely, that is, whose loop has returned after it
  stopped all workers, and that is then started again does no work: whatever happens after this
  start, no job succeeds, since the loop hands the first job to a channel of the first run. Nor does
  it work after still further starts, when each of them comes after the loop has returned again.
\<close>

theorem dispatch_restart_dead:
  assumes "running n q d" "loop d = Ended" "dispatch_restarts ess d = Some d'"
  shows "finished d' = finished d"
proof -
  have "dead n d" using running_ok [OF assms(1)] assms(2) by (blast intro: ended_dead)
  then show ?thesis by (rule dead_restarts [OF _ assms(3)])
qed

theorem dispatch_restart_dead_witness:
  "\<exists>d d'. running 1 1 d \<and> loop d = Ended \<and> finished d = {#7#} \<and>
    dispatch_restarts [[Add (Some 8), Take, Pick, Register 1]] d = Some d' \<and> finished d' = {#7::nat#}"
proof -
  let ?es = "[Add (Some 7), Register 0, Take, Pick, Hand, Succeed 0, Register 0, Shutdown, Stop, Stop]"
  obtain d where d: "dispatch_run ?es (start_of 1 1) = Some d" "loop d = Ended" "finished d = {#7::nat#}"
    "dispatch_restarts [[Add (Some 8), Take, Pick, Register 1]] d \<noteq> None"
    by (auto simp: start_of_def dispatch_Run_def NewDispatchQueue_def offer_def worker_is_def first_worker_def)
  then obtain d' where d': "dispatch_restarts [[Add (Some 8), Take, Pick, Register 1]] d = Some d'" by blast
  have r: "running 1 1 d" by (rule running_run [OF running_start d(1)])
  have "finished d' = {#7#}" using dispatch_restart_dead [OF r d(2) d'] d(3) by simp
  with r d(2,3) d' show ?thesis by blast
qed

section \<open>Starting and stopping once\<close>

text \<open>Starts and stops take turns, from the first start on; a stop before any start runs.\<close>

fun ss_run :: "bool list \<Rightarrow> StartStop \<Rightarrow> bool list" where
  "ss_run [] s = []"
| "ss_run (b # bs) s = (case (if b then ss_Start s else ss_Stop s) of (runs, s1) \<Rightarrow> runs # ss_run bs s1)"

text \<open>Which of a sequence of starts (True) and stops run: those that differ from the last that ran.\<close>

fun turns :: "bool \<Rightarrow> bool list \<Rightarrow> bool list" where
  "turns prev [] = []"
| "turns prev (b # bs) = (b \<noteq> prev) # turns b bs"

definition after :: "bool \<Rightarrow> StartStop" where
  "after b = \<lparr>start = \<lparr>once_done = if b then 1 else 0\<rparr>, stop = \<lparr>once_done = if b then 0 else 1\<rparr>\<rparr>"

lemma ss_step: "ss_Start (after b) = (\<not> b, after True)" "ss_Stop (after b) = (b, after False)"
  "ss_Start ss_New = (True, after True)" "ss_Stop ss_New = (True, after False)"
  by (simp_all add: after_def ss_New_def ss_Start_def ss_Stop_def once_Do_def once_Reset_def)

lemma ss_turns: "ss_run bs (after b) = turns b bs"
  by (induction bs arbitrary: b) (auto simp: ss_step)

lemma start_stop_take_turns: "ss_run (b # bs) ss_New = True # turns b bs"
  by (cases b) (simp_all add: ss_step ss_turns)

end
