(* ===== verification/Spec2Isabelle.thy ===== *)
theory Spec2Isabelle
  imports Gorilla_Safety Cache_Contract Trie_Laws Tag_Laws Repr_Laws Agg_Laws Aggregator_Laws Merge_Laws Splitter_Laws Tag_Index_Laws Metric_Find_Laws Ram_Indexer_Laws Dispatch_Laws
begin

text \<open>
  Cadent is a metrics pipeline written in Go: it takes statsd, graphite, carbon2, OpenTSDB and JSON
  lines, splits them into keys, values and times, names and tags the stats, aggregates them into time
  buckets, keeps them as compressed time series, indexes their names and tags, and merges and resamples stored
  series for queries. The Go code lies under \<^verbatim>\<open>src/src/cadent/server\<close>; the paths below are
  relative to it. Each part of the code that is modelled has a theory with its data and operations, in the
  order and with the names of the code, and a theory of laws about them.

  \<^bold>\<open>Conventions.\<close> A struct is a record, an enumeration or a tagged value a datatype, a
  fixed-width integer a word, a float64 its 64-bit pattern (\<open>Float64\<close>), a byte string a list of
  characters, a Go map a function to options or, where it is iterated, an association list. A method that
  changes its receiver returns the new receiver. \<open>None\<close> as the result of an operation is a panic
  (or, for the locks of the index of tags, a wait that never ends); an error is a value of a
  datatype in a sum or an option. The clock, the farm hash, the compiler of regular expressions, the codec of JSON, the
  time layouts, the size of cached values and the order of a range over a map are arguments. Three
  simplifications: \<^verbatim>\<open>sort.Sort\<close>, which is not stable, is a stable sort, so that elements with equal keys (tags of
  the same name, points or stats of the same time) have one of the orders they may have; letters other than ASCII do
  not change case in \<open>ToLower\<close>; objects that two names share after a copy are values of each.

  \<^bold>\<open>Language and library.\<close>
  \<^item> \<open>Go_Prelude\<close>: lemma collections, lists and words shared by all components.
  \<^item> \<open>Go_Strings\<close>, \<open>Go_Strconv\<close>, \<open>Go_Text\<close>, \<open>Go_Float\<close>: what the code uses of Go's \<^verbatim>\<open>strings\<close>,
    \<^verbatim>\<open>strconv\<close> and \<^verbatim>\<open>math\<close>, with round trips of \<open>Split\<close> and \<open>Join\<close>, and of printing and parsing of integers.
  \<^item> \<open>Float64\<close>, \<open>Float_Order\<close>: float64 on bit patterns, with comparison, sum and division by rounding, and its order.

  \<^bold>\<open>Compressed series\<close> (\<^verbatim>\<open>utils/bitstream.go\<close>, \<^verbatim>\<open>series/gorilla.go\<close>).
  \<^item> \<open>BitStream\<close> has the bit stream, and the contracts \<open>bit_sink\<close> and \<open>bit_source\<close> of a writer and a
    reader of bits, interpreted on it; fields that are written are read back.
  \<^item> \<open>Gorilla\<close> has the writer and the iterator of the Gorilla format. \<open>Gorilla_Format\<close> says which bits a point takes,
    \<open>Gorilla_Steps\<close> that one step of the reader reads what one step of the writer wrote, \<open>Gorilla_Roundtrip\<close> that
    a series comes back point by point and exactly when it comes back unchanged, \<open>Gorilla_Safety\<close> that the
    iterator ends without a panic on arbitrary bytes, within a number of points bounded by the number of bits.

  \<^bold>\<open>Caches\<close> (\<^verbatim>\<open>lrucache\<close>). \<open>LRUCache\<close> has the list with addresses and the table of pointers, and the cache
  with a life time. \<open>Cache_Contract\<close> shows that it refines a list in the order of use, states the
  contract \<open>bounded_cache\<close>, in which memoising a function is correct, and interprets it.

  \<^bold>\<open>Trie\<close> (\<^verbatim>\<open>utils/trie\<close>). \<open>Trie_Laws\<close> interprets the contract \<open>keyed_store\<close> (put, pop and
  clear against a plain map) on it and says what the searches with wildcards return.

  \<^bold>\<open>Stats\<close> (\<^verbatim>\<open>schemas/repr\<close>).
  \<^item> \<open>Tags\<close> and \<open>Tag_Laws\<close>: lists of tags, their parsing and printing, and the split into intrinsic
    and meta tags; the contract \<open>overwriting_store\<close>.
  \<^item> \<open>Repr\<close> and \<open>Repr_Laws\<close>: names with their ids, stats and their merge; the id is that of the current key and tags, but
    for an id that a caller forced and for tags that were appended without clearing the id.
  \<^item> \<open>Aggs\<close> and \<open>Agg_Laws\<close>: the aggregate for a key or a tag through the cache, and the aggregate functions.
  \<^item> \<open>Aggregator\<close> and \<open>Aggregator_Laws\<close>: buckets by id and truncated time, for one resolution and for several, and the
    bounded queue of stats by id (first in, first out, where the comment in the code speaks of use).

  \<^bold>\<open>Rendered series\<close> (\<^verbatim>\<open>schemas/metrics\<close>). \<open>Metrics\<close> has the points, \<open>Quantize\<close> the quantizing,
  resampling, truncating and merging of series; \<open>Quantize_Laws\<close> and \<open>Merge_Laws\<close> say which points
  result, that the loops return, and that merging conserves the counts.

  \<^bold>\<open>Splitters\<close> (\<^verbatim>\<open>splitter\<close>). \<open>Splitters\<close> has the items with their pools and the splitter of every line
  format; \<open>Splitter_Laws\<close> shows that items are well formed, that printed lines split into their parts, and where a
  splitter panics.

  \<^bold>\<open>Indexes in memory\<close> (\<^verbatim>\<open>writers/indexer\<close>).
  \<^item> \<open>Indexer_Utils\<close>: globs as expressions and trie queries, lists of paths, tag queries.
  \<^item> \<open>Tag_Index\<close> and \<open>Tag_Index_Laws\<close>: tags by id and ids by tag, with the locks as numbers of readers; what the index
    keeps, and that it takes no writes after a query.
  \<^item> \<open>Metric_Index\<close>, \<open>Metric_Index_Laws\<close> and \<open>Metric_Find_Laws\<close>: the paths, their ids and the trie. Under additions and
    deletions the index is a set of paths; what a search with wildcards, for one pattern or several, finds; where a deletion
    panics and what culling loses.
  \<^item> \<open>Ram_Indexer\<close> and \<open>Ram_Indexer_Laws\<close>: both indexes under one roof. It rests on the invariants of both.

  \<^bold>\<open>Jobs\<close> (\<^verbatim>\<open>dispatch/dispatch.go\<close>, \<^verbatim>\<open>utils/once.go\<close>). \<open>Dispatch\<close> has the loop and the workers as goroutines that
  take steps in any order, one event for each communication on a channel. \<open>Dispatch_Laws\<close> shows, for every interleaving,
  that no job is lost or done twice, that without failures all jobs get done after a bounded number of steps, that failing jobs can bring
  everything to a standstill, and that a dispatcher that is started again after its loop has returned does no more
  work. The start is a function on a state without a loop. A start that comes while the loop of the run before still
  stops its workers would give two loops that share the workers' slots; this overlap has no model.

  \<^bold>\<open>Bounds and loops.\<close> No definition runs on fuel. Loops are structural recursions or folds, or functions with a
  measure; the loops of \<open>Quantize\<close> that may not end are partial functions, with separate theorems that resampling and
  merging return (joining has its definition only). Sequences of operations are lists of any length.

  \<^bold>\<open>Not modelled.\<close> Generated encoders (protobuf, msgpack, easyjson, codec), and the series formats that only call
  them; databases, message brokers, sockets, HTTP, TCP and GRPC servers, the gossip protocol, configuration files and
  commands, which are input and output; the consistent hash ring, a third-party package. Mutexes are
  left out but for the index of tags, where they decide whether an operation returns; operations run one after the
  other, but for the goroutines of the dispatcher. The accumulators, which print floats in their
  shortest form, the filters for lines, the broadcast channel and the caches in front of the databases have no model yet.
\<close>

end
